(* ===== verification/Hyp_Prelude.thy ===== *)
theory Hyp_Prelude
  imports Main "HOL-Library.Word" "HOL-Library.Stream"
begin

text \<open>
  Shared vocabulary of the development: the machine word types of the C sources, byte-addressed
  little-endian memory, the flag-test rewrites used wherever the code writes
  \<open>(x & MASK) != 0\<close>, and the collections of simplification rules that the component theories
  extend.
\<close>

unbundle bit_operations_syntax

section \<open>Word types\<close>

type_synonym u8 = "8 word"
type_synonym u16 = "16 word"
type_synonym u32 = "32 word"
type_synonym u64 = "64 word"

text \<open>
  Collections: \<open>flag_simps\<close> turns mask tests into bit tests, \<open>frame_simps\<close> holds what an
  operation leaves alone, \<open>inv_intros\<close> the preservation lemmas of the invariants.
\<close>

named_theorems flag_simps
named_theorems frame_simps
named_theorems inv_intros

section \<open>Flag tests\<close>

text \<open>\<open>1u << n\<close> is written \<open>push_bit n 1\<close>; the simplifier normalises it to \<open>2 ^ n\<close>.\<close>

lemma and_single_bit_eq_0 [flag_simps]:
  fixes x :: "'a::len word"
  shows "(x AND 2 ^ n = 0) = (\<not> bit x n)"
  by (simp add: and_exp_eq_0_iff_not_bit)

lemma and_numeral_bit_eq_0 [flag_simps]:
  fixes x :: "'a::len word"
  shows "(x AND 1 = 0) = (\<not> bit x 0)"
    and "(x AND 2 = 0) = (\<not> bit x 1)"
    and "(x AND 4 = 0) = (\<not> bit x 2)"
    and "(x AND 8 = 0) = (\<not> bit x 3)"
    and "(x AND 16 = 0) = (\<not> bit x 4)"
    and "(x AND 128 = 0) = (\<not> bit x 7)"
    and "(x AND 2048 = 0) = (\<not> bit x 11)"
    and "(x AND 2147483648 = 0) = (\<not> bit x 31)"
  using and_exp_eq_0_iff_not_bit [of x 0] and_exp_eq_0_iff_not_bit [of x 1]
    and_exp_eq_0_iff_not_bit [of x 2] and_exp_eq_0_iff_not_bit [of x 3]
    and_exp_eq_0_iff_not_bit [of x 4] and_exp_eq_0_iff_not_bit [of x 7]
    and_exp_eq_0_iff_not_bit [of x 11] and_exp_eq_0_iff_not_bit [of x 31]
  by simp_all

text \<open>Single-bit numerals, read bit by bit.\<close>

lemma bit_one_shl: "bit (push_bit k 1 :: u32) n = (n = k \<and> k < 32)"
  by (auto simp: bit_simps)

text \<open>
  The simplifier reads a bit of a numeral word off the corresponding integer, so the
  masks of the sources are given as integers.
\<close>

lemma bit_int_pow: "bit (2 ^ k :: int) n = (n = k)"
  by (auto simp: bit_exp_iff possible_bit_def)

lemma bit_numeral_masks [flag_simps]:
  "bit (2 :: int) n = (n = 1)"
  "bit (4 :: int) n = (n = 2)"
  "bit (8 :: int) n = (n = 3)"
  "bit (16 :: int) n = (n = 4)"
  "bit (32 :: int) n = (n = 5)"
  "bit (64 :: int) n = (n = 6)"
  "bit (128 :: int) n = (n = 7)"
  "bit (1024 :: int) n = (n = 10)"
  "bit (2048 :: int) n = (n = 11)"
  "bit (4096 :: int) n = (n = 12)"
  "bit (2147483648 :: int) n = (n = 31)"
  using bit_int_pow [of 1 n] bit_int_pow [of 2 n] bit_int_pow [of 3 n] bit_int_pow [of 4 n]
    bit_int_pow [of 5 n] bit_int_pow [of 6 n] bit_int_pow [of 7 n] bit_int_pow [of 10 n]
    bit_int_pow [of 11 n] bit_int_pow [of 12 n] bit_int_pow [of 31 n]
  by simp_all

lemma bit_numeral_sums [flag_simps]:
  "bit (3 :: int) n = (n = 0 \<or> n = 1)"
  "bit (35 :: int) n = (n = 0 \<or> n = 1 \<or> n = 5)"
  "bit (96 :: int) n = (n = 5 \<or> n = 6)"
  "bit (2176 :: int) n = (n = 7 \<or> n = 11)"
  "bit (6144 :: int) n = (n = 11 \<or> n = 12)"
proof -
  have eqs: "(3 :: int) = 2 OR 1" "(35 :: int) = 32 OR 2 OR 1" "(96 :: int) = 64 OR 32"
    "(2176 :: int) = 2048 OR 128" "(6144 :: int) = 4096 OR 2048"
    by simp_all
  show "bit (3 :: int) n = (n = 0 \<or> n = 1)" "bit (35 :: int) n = (n = 0 \<or> n = 1 \<or> n = 5)"
    "bit (96 :: int) n = (n = 5 \<or> n = 6)" "bit (2176 :: int) n = (n = 7 \<or> n = 11)"
    "bit (6144 :: int) n = (n = 11 \<or> n = 12)"
    by (auto simp only: eqs bit_or_iff bit_numeral_masks bit_1_iff)
qed

text \<open>Low masks are truncations.\<close>

lemma and_low_mask [flag_simps]:
  fixes x :: u32
  shows "x AND 0x3 = take_bit 2 x" "x AND 0x7 = take_bit 3 x" "x AND 0x1f = take_bit 5 x"
    "x AND 0x7f = take_bit 7 x"
  by (simp_all add: take_bit_eq_mask mask_eq_exp_minus_1)

text \<open>Setting and clearing one bit of a word, as \<open>x |= 1u << n\<close> and \<open>x &= ~(1u << n)\<close> do.\<close>

lemma bit_set_one [flag_simps]:
  fixes x :: u32
  shows "bit (x OR 2 ^ n) m = (bit x m \<or> (m = n \<and> n < 32))"
  by (auto simp: bit_or_iff bit_exp_iff)

lemma bit_clear_one [flag_simps]:
  fixes x :: u32
  shows "bit (x AND NOT (2 ^ n)) m = (bit x m \<and> m \<noteq> n)"
  by (cases "m < 32") (auto simp: bit_and_iff bit_not_iff bit_exp_iff dest: bit_imp_le_length)

text \<open>The same for the complemented numeral masks, as the simplifier leaves them.\<close>

lemma bit_clear_masks [flag_simps]:
  fixes x :: u32
  shows "bit (x AND - 9) n = (bit x n \<and> n \<noteq> 3)"
    and "bit (x AND - 129) n = (bit x n \<and> n \<noteq> 7)"
    and "bit (x AND - 4) n = (bit x n \<and> n \<noteq> 0 \<and> n \<noteq> 1)"
    and "bit (x AND - 6145) n = (bit x n \<and> n \<noteq> 11 \<and> n \<noteq> 12)"
    and "bit (x AND - 2177) n = (bit x n \<and> n \<noteq> 7 \<and> n \<noteq> 11)"
    and "bit (x AND - 1025) n = (bit x n \<and> n \<noteq> 10)"
proof -
  have two: "bit (x AND NOT (2 ^ i OR 2 ^ j)) n = (bit x n \<and> n \<noteq> i \<and> n \<noteq> j)" for i j
    by (cases "n < 32")
       (auto simp: bit_and_iff bit_or_iff bit_not_iff bit_exp_iff dest: bit_imp_le_length)
  show "bit (x AND - 9) n = (bit x n \<and> n \<noteq> 3)" "bit (x AND - 129) n = (bit x n \<and> n \<noteq> 7)"
    "bit (x AND - 1025) n = (bit x n \<and> n \<noteq> 10)"
    using bit_clear_one [of x 3 n] bit_clear_one [of x 7 n] bit_clear_one [of x 10 n] by simp_all
  show "bit (x AND - 4) n = (bit x n \<and> n \<noteq> 0 \<and> n \<noteq> 1)"
    "bit (x AND - 6145) n = (bit x n \<and> n \<noteq> 11 \<and> n \<noteq> 12)"
    "bit (x AND - 2177) n = (bit x n \<and> n \<noteq> 7 \<and> n \<noteq> 11)"
    using two [of 0 1] two [of 11 12] two [of 7 11] by simp_all
qed

lemma u32_eqI: "(\<And>n. n < 32 \<Longrightarrow> bit (a :: u32) n = bit b n) \<Longrightarrow> a = b"
  by (rule bit_word_eqI) simp

lemma unat_lt_5bits: "unat (x AND 31 :: u32) < 32"
proof -
  have "x AND 31 \<le> (31 :: u32)"
    by (rule word_and_le1)
  then have "unat (x AND 31) \<le> unat (31 :: u32)"
    by (simp add: word_le_nat_alt)
  then show ?thesis by simp
qed

section \<open>Little-endian memory\<close>

text \<open>
  Guest physical memory is byte addressed and the P4 is little endian. Addresses are 32-bit and
  wrap, as pointer arithmetic on \<open>uint32_t\<close> does.
\<close>

type_synonym mem = "u32 \<Rightarrow> u8"

definition rd16 :: "mem \<Rightarrow> u32 \<Rightarrow> u16" where
  "rd16 m a = ucast (m a) OR push_bit 8 (ucast (m (a + 1)))"

definition rd32 :: "mem \<Rightarrow> u32 \<Rightarrow> u32" where
  "rd32 m a = ucast (rd16 m a) OR push_bit 16 (ucast (rd16 m (a + 2)))"

definition rd64 :: "mem \<Rightarrow> u32 \<Rightarrow> u64" where
  "rd64 m a = ucast (rd32 m a) OR push_bit 32 (ucast (rd32 m (a + 4)))"

definition wr16 :: "u32 \<Rightarrow> u16 \<Rightarrow> mem \<Rightarrow> mem" where
  "wr16 a v m = m(a := ucast v, a + 1 := ucast (drop_bit 8 v))"

definition wr32 :: "u32 \<Rightarrow> u32 \<Rightarrow> mem \<Rightarrow> mem" where
  "wr32 a v m = wr16 (a + 2) (ucast (drop_bit 16 v)) (wr16 a (ucast v) m)"

text \<open>\<open>memcpy\<close> out of and into guest memory.\<close>

fun rd_bytes :: "mem \<Rightarrow> u32 \<Rightarrow> nat \<Rightarrow> u8 list" where
  "rd_bytes m a 0 = []"
| "rd_bytes m a (Suc n) = m a # rd_bytes m (a + 1) n"

fun wr_bytes :: "u32 \<Rightarrow> u8 list \<Rightarrow> mem \<Rightarrow> mem" where
  "wr_bytes a [] m = m"
| "wr_bytes a (b # bs) m = wr_bytes (a + 1) bs (m(a := b))"

lemma length_rd_bytes [simp]: "length (rd_bytes m a n) = n"
  by (induction n arbitrary: a) simp_all

lemma rd16_wr16 [simp]: "rd16 (wr16 a v m) a = v"
  unfolding rd16_def wr16_def
  by (rule bit_word_eqI) (auto simp: bit_simps)

lemma plus_small_neq:
  fixes a :: u32
  assumes "k < 2 ^ 32" and "0 < k"
  shows "a + of_nat k \<noteq> a"
proof
  assume "a + of_nat k = a"
  then have "(of_nat k :: u32) = 0" by simp
  with assms show False by (simp add: word_of_nat_eq_0_iff nat_dvd_not_less)
qed

lemma rd32_wr32 [simp]: "rd32 (wr32 a v m) a = v"
proof -
  have "rd16 (wr32 a v m) a = ucast v"
    by (simp add: wr32_def rd16_def wr16_def)
       (rule bit_word_eqI, auto simp: bit_simps)
  moreover have "rd16 (wr32 a v m) (a + 2) = ucast (drop_bit 16 v)"
    by (simp add: wr32_def)
  ultimately show ?thesis
    unfolding rd32_def by (simp, intro u32_eqI) (auto simp: bit_simps)
qed

lemma wr_bytes_outside:
  assumes "\<And>k. k < length bs \<Longrightarrow> x \<noteq> a + of_nat k"
  shows "wr_bytes a bs m x = m x"
  using assms
proof (induction bs arbitrary: a m)
  case Nil
  then show ?case by simp
next
  case (Cons b bs)
  have "wr_bytes (a + 1) bs (m(a := b)) x = (m(a := b)) x"
  proof (rule Cons.IH)
    fix k assume "k < length bs"
    then show "x \<noteq> a + 1 + of_nat k"
      using Cons.prems [of "Suc k"] by (simp add: algebra_simps)
  qed
  moreover have "x \<noteq> a" using Cons.prems [of 0] by simp
  ultimately show ?case by simp
qed

lemma wr_bytes_inside:
  assumes "length bs \<le> 2 ^ 32" and "k < length bs"
  shows "wr_bytes a bs m (a + of_nat k) = bs ! k"
  using assms
proof (induction bs arbitrary: a m k)
  case Nil
  then show ?case by simp
next
  case (Cons b bs)
  show ?case
  proof (cases k)
    case 0
    have "wr_bytes (a + 1) bs (m(a := b)) a = (m(a := b)) a"
    proof (rule wr_bytes_outside)
      fix j assume "j < length bs"
      with Cons.prems have "a + of_nat (Suc j) \<noteq> a"
        by (intro plus_small_neq) auto
      then show "a \<noteq> a + 1 + of_nat j" by (simp add: algebra_simps)
    qed
    with 0 show ?thesis by simp
  next
    case (Suc j)
    with Cons.prems have "wr_bytes (a + 1) bs (m(a := b)) (a + 1 + of_nat j) = bs ! j"
      by (intro Cons.IH) auto
    with Suc show ?thesis by (simp add: algebra_simps del: fun_upd_apply)
  qed
qed

lemma nth_rd_bytes: "k < n \<Longrightarrow> rd_bytes m a n ! k = m (a + of_nat k)"
  by (induction n arbitrary: a k) (auto simp: nth_Cons algebra_simps split: nat.splits)

text \<open>Reading back what was written.\<close>

lemma rd_bytes_wr_bytes [simp]:
  "length bs \<le> 2 ^ 32 \<Longrightarrow> rd_bytes (wr_bytes a bs m) a (length bs) = bs"
  by (rule nth_equalityI) (simp_all add: nth_rd_bytes wr_bytes_inside)

end
