(* ===== verification/Hyp_State.thy ===== *)
theory Hyp_State
  imports Hyp_Prelude
begin

text \<open>
  The state of the monitor. Each C module's \<open>static\<close> data is a record; \<open>hyp\<close> gathers
  them with the guest memory and the hardware the monitor is attached to.

  The hardware is code outside the repository (ESP-IDF's low-level helpers), so it is a
  parameter of the model in both directions: what the monitor \<^emph>\<open>reads\<close> comes from streams that
  nothing constrains (counter snapshots, cycle counts, FIFO room, what a device poll finds), and
  what it \<^emph>\<open>does\<close> is the list of calls it makes, in order. No effect of such a call is assumed.
\<close>

section \<open>Trap context (hyp.h, hyp\_decode.c)\<close>

text \<open>
  \<open>RvExcFrame\<close> as the code uses it: an array of words with \<open>mepc\<close> at index 0 and x\<open>n\<close> at
  index \<open>n\<close>, followed by the machine CSRs that the trap vector saved.
\<close>

record frame =
  slots :: "nat \<Rightarrow> u32"
  fr_mstatus :: u32
  fr_mcause :: u32
  fr_mtval :: u32

abbreviation fr_mepc :: "frame \<Rightarrow> u32" where
  "fr_mepc f \<equiv> slots f 0"

abbreviation set_mepc :: "u32 \<Rightarrow> frame \<Rightarrow> frame" where
  "set_mepc v f \<equiv> f\<lparr>slots := (slots f)(0 := v)\<rparr>"

record GuestTrap =
  tr_frame :: frame
  tr_cause :: u32
  tr_tval :: u32
  tr_encoding :: u32
  tr_length :: u32

datatype TrapResult = TRAP_UNHANDLED | TRAP_ADVANCE | TRAP_RESUME

section \<open>Module state\<close>

text \<open>\<open>HypShadowCsr\<close>: the CSRs the guest thinks it has.\<close>

record HypShadowCsr =
  cs_mstatus :: u32
  cs_mie :: u32
  cs_mtvec :: u32
  cs_mscratch :: u32
  cs_mepc :: u32
  cs_mcause :: u32
  cs_mtval :: u32
  cs_mip :: u32

text \<open>The PLIC's \<open>static\<close> struct. Arrays are total functions; every access is guarded.\<close>

record plic =
  pl_priority :: "nat \<Rightarrow> u32"
  pl_enable :: u32
  pl_pending :: u32
  pl_claimed :: u32
  pl_threshold :: u32

text \<open>The 16550: its registers and the receive ring.\<close>

record uart =
  ua_ier :: u8
  ua_lcr :: u8
  ua_mcr :: u8
  ua_scr :: u8
  ua_fcr :: u8
  ua_dll :: u8
  ua_dlm :: u8
  ua_ring :: "nat \<Rightarrow> u8"
  ua_head :: u32
  ua_tail :: u32
  ua_overruns :: u32
  ua_tx_dropped :: u32

text \<open>The virtio block device: its registers, the cross-core flags and the counters.\<close>

record blk =
  bk_status :: u32
  bk_device_features_sel :: u32
  bk_driver_features :: u32
  bk_guest_page_size :: u32
  bk_queue_sel :: u32
  bk_queue_num :: u32
  bk_queue_align :: u32
  bk_queue_pfn :: u32
  bk_interrupt_status :: u32
  bk_last_avail :: u16
  bk_live :: bool
  bk_kick :: bool
  bk_irq :: bool
  bk_reads :: u32
  bk_writes :: u32
  bk_errors :: u32
  bk_requests :: u32

text \<open>Trap accounting (\<open>struct hyp_stats_s\<close>) and the trace ring.\<close>

record stats =
  st_exc :: "nat \<Rightarrow> u32"
  st_irq :: "nat \<Rightarrow> u32"
  st_exc_cycles :: "nat \<Rightarrow> u64"
  st_irq_cycles :: "nat \<Rightarrow> u64"
  st_unhandled :: u32
  st_mmio :: "nat \<Rightarrow> u32"
  st_csr_read_only :: u32
  st_csr_write :: u32
  st_mrets :: u32
  st_wfi_spins :: u32
  st_wfi_blocks :: u32
  st_injections :: u32
  st_icache_sync_cycles :: u64
  st_icache_syncs :: u32
  st_idle_cycles :: u64
  st_irq_code_seen :: u32

record trace_entry =
  te_cause :: u32
  te_epc :: u32
  te_tval :: u32
  te_priv :: u32

record trace =
  tc_ring :: "nat \<Rightarrow> trace_entry"
  tc_next :: u32
  tc_total :: u32
  tc_dumps :: u32

section \<open>The hardware the monitor is attached to\<close>

text \<open>
  A line the monitor prints, with the values it prints; and a call it makes, named after the
  ESP-IDF function (or instruction) with the arguments that vary. \<open>Text\<close> and \<open>Call\<close> are the
  general forms, used outside the trap path: the format string or function name of the source and
  the integer arguments.
\<close>

datatype line =
    Trace_header string u32
  | Trace_line u32 u32 u32 u32 u32 u32 u32 bool
  | Panic_line u32 u32 u32 u32 u32 u32 u32 u32 u32
  | Stats_header u32 u32 u32
  | Stats_exc u32 string u32 u32
  | Stats_irq u32 string u32 u32
  | Stats_mmio string u32
  | Stats_csr u32 u32 u32 u32
  | Stats_irq_code u32
  | Stats_wfi u32 u32 u32 u32
  | Stats_icache u32 u32 u32 u32
  | Stats_uart u32 u32
  | Stats_blk u32 u32 u32 u32
  | Wedge_line u32
  | Text string "u32 list"

datatype hwcall =
    Systimer_enable_alarm bool
  | Systimer_clear_alarm_int
  | Systimer_connect_alarm_counter
  | Systimer_enable_alarm_oneshot
  | Systimer_set_alarm_target u64
  | Systimer_apply_alarm_value
  | Systimer_enable_alarm_int bool
  | Uart_write_txfifo u8
  | Uart_clr_rx_intsts
  | L1_writeback_dcache_all
  | L1_invalidate_icache_all
  | Wfi
  | Printf line
  | Call string "u32 list"

text \<open>
  What one \<open>hyp_poll_host_devices()\<close> finds: whether the systimer alarm has fired, the three
  receive conditions of the UART's interrupt status, the bytes in its receive FIFO, and whether core 0 has set \<open>s_irq\<close> since
  the last look (the flag is \<open>volatile\<close> and shared between the cores). The input stream may set the
  flag although no request was served: an over-approximation of core 0, so what is proved of traps
  holds whatever core 0 does. \<open>Hyp_System\<close> has core 0's own steps, which set it as the code does.
\<close>

record host_poll =
  hp_alarm :: bool
  hp_rxfifo_full :: bool
  hp_rxfifo_tout :: bool
  hp_rxfifo_ovf :: bool
  hp_rx :: "u8 list"
  hp_completed :: bool

text \<open>Inputs are streams, consumed one element per read; outputs are the calls in order.\<close>

record host =
  in_mtime :: "(u32 \<times> u32) stream"
  in_cycle :: "u32 stream"
  in_txroom :: "u32 stream"
  in_poll :: "host_poll stream"
  out_calls :: "hwcall list"

section \<open>The monitor\<close>

record hyp =
  hv_host :: host
  hv_mem :: mem
  hv_running :: bool
  hv_mtimecmp :: u64
  hv_plic :: plic
  hv_uart :: uart
  hv_shadow :: HypShadowCsr
  hv_pmpcfg :: "nat \<Rightarrow> u32"
  hv_pmpaddr :: "nat \<Rightarrow> u32"
  hv_priv :: u32
  hv_blk :: blk
  hv_sd_ready :: bool
  hv_sd_capacity :: u32
  hv_stats :: stats
  hv_trace :: trace
  hv_idle_cycles :: u32
  hv_in_wfi :: bool
  hv_stats_wanted :: bool

section \<open>Constants (hyp.h and riscv/encoding.h)\<close>

definition HYP_MTIME_MAX :: u64 where [simp]: "HYP_MTIME_MAX = push_bit 52 1"

definition PLIC_UART_SOURCE :: u32 where [simp]: "PLIC_UART_SOURCE = 10"
definition PLIC_VIRTIO_BLK_SOURCE :: u32 where [simp]: "PLIC_VIRTIO_BLK_SOURCE = 11"
definition PLIC_MAX_SOURCE :: nat where [simp]: "PLIC_MAX_SOURCE = 31"

abbreviation (input) MSTATUS_MIE :: u32 where "MSTATUS_MIE \<equiv> 0x8"
abbreviation (input) MSTATUS_MPIE :: u32 where "MSTATUS_MPIE \<equiv> 0x80"
abbreviation (input) MSTATUS_MPP :: u32 where "MSTATUS_MPP \<equiv> 0x1800"
abbreviation (input) MIP_MSIP :: u32 where "MIP_MSIP \<equiv> 0x8"
abbreviation (input) MIP_MTIP :: u32 where "MIP_MTIP \<equiv> 0x80"
abbreviation (input) MIP_MEIP :: u32 where "MIP_MEIP \<equiv> 0x800"

definition PRIV_U :: u32 where [simp]: "PRIV_U = 0"
definition PRIV_M :: u32 where [simp]: "PRIV_M = 3"

definition HYP_INUM_TIMER :: u32 where "HYP_INUM_TIMER = 20"
definition HYP_INUM_UART :: u32 where "HYP_INUM_UART = 21"
definition HYP_CLIC_MCAUSE_BASE :: u32 where "HYP_CLIC_MCAUSE_BASE = 16"

definition linux_base_address :: u32 where "linux_base_address = 0x48000000"
definition linux_size :: u32 where "linux_size = 0x02000000"
definition dtb_address :: u32 where "dtb_address = 0x49F00000"

section \<open>Access helpers\<close>

text \<open>Make a hardware call.\<close>

definition hw :: "hwcall \<Rightarrow> hyp \<Rightarrow> hyp" where
  "hw c h = h\<lparr>hv_host := (hv_host h)\<lparr>out_calls := out_calls (hv_host h) @ [c]\<rparr>\<rparr>"

text \<open>\<open>rv_utils_get_cycle_count()\<close>: the core's cycle counter.\<close>

definition rv_utils_get_cycle_count :: "hyp \<Rightarrow> u32 \<times> hyp" where
  "rv_utils_get_cycle_count h =
     (shd (in_cycle (hv_host h)),
      h\<lparr>hv_host := (hv_host h)\<lparr>in_cycle := stl (in_cycle (hv_host h))\<rparr>\<rparr>)"

text \<open>Updates of one module's state.\<close>

abbreviation on_plic :: "(plic \<Rightarrow> plic) \<Rightarrow> hyp \<Rightarrow> hyp" where
  "on_plic g h \<equiv> h\<lparr>hv_plic := g (hv_plic h)\<rparr>"
abbreviation on_uart :: "(uart \<Rightarrow> uart) \<Rightarrow> hyp \<Rightarrow> hyp" where
  "on_uart g h \<equiv> h\<lparr>hv_uart := g (hv_uart h)\<rparr>"
abbreviation on_blk :: "(blk \<Rightarrow> blk) \<Rightarrow> hyp \<Rightarrow> hyp" where
  "on_blk g h \<equiv> h\<lparr>hv_blk := g (hv_blk h)\<rparr>"
abbreviation on_shadow :: "(HypShadowCsr \<Rightarrow> HypShadowCsr) \<Rightarrow> hyp \<Rightarrow> hyp" where
  "on_shadow g h \<equiv> h\<lparr>hv_shadow := g (hv_shadow h)\<rparr>"
abbreviation on_stats :: "(stats \<Rightarrow> stats) \<Rightarrow> hyp \<Rightarrow> hyp" where
  "on_stats g h \<equiv> h\<lparr>hv_stats := g (hv_stats h)\<rparr>"
abbreviation on_trace :: "(trace \<Rightarrow> trace) \<Rightarrow> hyp \<Rightarrow> hyp" where
  "on_trace g h \<equiv> h\<lparr>hv_trace := g (hv_trace h)\<rparr>"

section \<open>What the helpers leave alone\<close>

lemma hw_frame [frame_simps, simp]:
  "hv_mem (hw c h) = hv_mem h" "hv_running (hw c h) = hv_running h"
  "hv_mtimecmp (hw c h) = hv_mtimecmp h" "hv_plic (hw c h) = hv_plic h"
  "hv_uart (hw c h) = hv_uart h" "hv_shadow (hw c h) = hv_shadow h"
  "hv_pmpcfg (hw c h) = hv_pmpcfg h" "hv_pmpaddr (hw c h) = hv_pmpaddr h"
  "hv_priv (hw c h) = hv_priv h" "hv_blk (hw c h) = hv_blk h"
  "hv_sd_ready (hw c h) = hv_sd_ready h" "hv_sd_capacity (hw c h) = hv_sd_capacity h"
  "hv_stats (hw c h) = hv_stats h" "hv_trace (hw c h) = hv_trace h"
  "hv_idle_cycles (hw c h) = hv_idle_cycles h" "hv_in_wfi (hw c h) = hv_in_wfi h"
  "hv_stats_wanted (hw c h) = hv_stats_wanted h"
  "in_mtime (hv_host (hw c h)) = in_mtime (hv_host h)"
  "in_cycle (hv_host (hw c h)) = in_cycle (hv_host h)"
  "in_txroom (hv_host (hw c h)) = in_txroom (hv_host h)"
  "in_poll (hv_host (hw c h)) = in_poll (hv_host h)"
  "out_calls (hv_host (hw c h)) = out_calls (hv_host h) @ [c]"
  by (simp_all add: hw_def)

lemma cycle_frame [frame_simps, simp]:
  "hv_mem (snd (rv_utils_get_cycle_count h)) = hv_mem h"
  "hv_running (snd (rv_utils_get_cycle_count h)) = hv_running h"
  "hv_mtimecmp (snd (rv_utils_get_cycle_count h)) = hv_mtimecmp h"
  "hv_plic (snd (rv_utils_get_cycle_count h)) = hv_plic h"
  "hv_uart (snd (rv_utils_get_cycle_count h)) = hv_uart h"
  "hv_shadow (snd (rv_utils_get_cycle_count h)) = hv_shadow h"
  "hv_pmpcfg (snd (rv_utils_get_cycle_count h)) = hv_pmpcfg h"
  "hv_pmpaddr (snd (rv_utils_get_cycle_count h)) = hv_pmpaddr h"
  "hv_priv (snd (rv_utils_get_cycle_count h)) = hv_priv h"
  "hv_blk (snd (rv_utils_get_cycle_count h)) = hv_blk h"
  "hv_sd_ready (snd (rv_utils_get_cycle_count h)) = hv_sd_ready h"
  "hv_sd_capacity (snd (rv_utils_get_cycle_count h)) = hv_sd_capacity h"
  "hv_stats (snd (rv_utils_get_cycle_count h)) = hv_stats h"
  "hv_trace (snd (rv_utils_get_cycle_count h)) = hv_trace h"
  "hv_idle_cycles (snd (rv_utils_get_cycle_count h)) = hv_idle_cycles h"
  "hv_in_wfi (snd (rv_utils_get_cycle_count h)) = hv_in_wfi h"
  "hv_stats_wanted (snd (rv_utils_get_cycle_count h)) = hv_stats_wanted h"
  by (simp_all add: rv_utils_get_cycle_count_def)

section \<open>The processor's share of the state\<close>

text \<open>
  What the guest's processor consists of, as opposed to the devices: its memory, its shadow CSRs
  and privilege, and the monitor's accounting. Device accesses leave all of it alone; the device
  contract of \<open>Hyp_Devices\<close> is stated with this view.
\<close>

definition cpu_view where
  "cpu_view h =
     (hv_mem h, hv_running h, hv_shadow h, hv_pmpcfg h, hv_pmpaddr h, hv_priv h, hv_sd_ready h,
      hv_sd_capacity h, hv_stats h, hv_trace h, hv_idle_cycles h, hv_in_wfi h,
      hv_stats_wanted h)"

lemma cpu_view_hw [simp, frame_simps]: "cpu_view (hw c h) = cpu_view h"
  by (simp add: cpu_view_def)

lemma cpu_view_cycle [simp, frame_simps]:
  "cpu_view (snd (rv_utils_get_cycle_count h)) = cpu_view h"
  by (simp add: cpu_view_def)

lemma cpu_view_updates [simp, frame_simps]:
  "cpu_view (h\<lparr>hv_host := a\<rparr>) = cpu_view h"
  "cpu_view (h\<lparr>hv_mtimecmp := b\<rparr>) = cpu_view h"
  "cpu_view (h\<lparr>hv_plic := c\<rparr>) = cpu_view h"
  "cpu_view (h\<lparr>hv_uart := d\<rparr>) = cpu_view h"
  "cpu_view (h\<lparr>hv_blk := e\<rparr>) = cpu_view h"
  by (simp_all add: cpu_view_def)

lemma cpu_viewD:
  "cpu_view a = cpu_view b \<Longrightarrow> hv_mem a = hv_mem b"
  "cpu_view a = cpu_view b \<Longrightarrow> hv_running a = hv_running b"
  "cpu_view a = cpu_view b \<Longrightarrow> hv_shadow a = hv_shadow b"
  "cpu_view a = cpu_view b \<Longrightarrow> hv_pmpcfg a = hv_pmpcfg b"
  "cpu_view a = cpu_view b \<Longrightarrow> hv_pmpaddr a = hv_pmpaddr b"
  "cpu_view a = cpu_view b \<Longrightarrow> hv_priv a = hv_priv b"
  "cpu_view a = cpu_view b \<Longrightarrow> hv_stats a = hv_stats b"
  "cpu_view a = cpu_view b \<Longrightarrow> hv_trace a = hv_trace b"
  "cpu_view a = cpu_view b \<Longrightarrow> hv_idle_cycles a = hv_idle_cycles b"
  by (simp_all add: cpu_view_def)

section \<open>Reset\<close>

text \<open>
  The state before the first instruction of the monitor: C's static initialisation, which is
  zero everywhere except for the shadow \<open>mstatus\<close> and \<open>guest_priv\<close> (the guest is born
  believing it is in M-mode) and \<open>shadow_mtimecmp\<close>, whose initialiser is all ones.
\<close>

definition reset_shadow :: HypShadowCsr where
  "reset_shadow = \<lparr>cs_mstatus = push_bit 11 PRIV_M, cs_mie = 0, cs_mtvec = 0, cs_mscratch = 0,
                   cs_mepc = 0, cs_mcause = 0, cs_mtval = 0, cs_mip = 0\<rparr>"

definition reset_plic :: plic where
  "reset_plic = \<lparr>pl_priority = (\<lambda>_. 0), pl_enable = 0, pl_pending = 0, pl_claimed = 0,
                 pl_threshold = 0\<rparr>"

definition reset_uart :: uart where
  "reset_uart = \<lparr>ua_ier = 0, ua_lcr = 0, ua_mcr = 0, ua_scr = 0, ua_fcr = 0, ua_dll = 0,
                 ua_dlm = 0, ua_ring = (\<lambda>_. 0), ua_head = 0, ua_tail = 0, ua_overruns = 0,
                 ua_tx_dropped = 0\<rparr>"

definition reset_blk :: blk where
  "reset_blk = \<lparr>bk_status = 0, bk_device_features_sel = 0, bk_driver_features = 0,
                bk_guest_page_size = 0, bk_queue_sel = 0, bk_queue_num = 0, bk_queue_align = 0,
                bk_queue_pfn = 0, bk_interrupt_status = 0, bk_last_avail = 0, bk_live = False,
                bk_kick = False, bk_irq = False, bk_reads = 0, bk_writes = 0, bk_errors = 0,
                bk_requests = 0\<rparr>"

definition reset_stats :: stats where
  "reset_stats = \<lparr>st_exc = (\<lambda>_. 0), st_irq = (\<lambda>_. 0), st_exc_cycles = (\<lambda>_. 0),
                  st_irq_cycles = (\<lambda>_. 0), st_unhandled = 0, st_mmio = (\<lambda>_. 0),
                  st_csr_read_only = 0, st_csr_write = 0, st_mrets = 0, st_wfi_spins = 0,
                  st_wfi_blocks = 0, st_injections = 0, st_icache_sync_cycles = 0,
                  st_icache_syncs = 0, st_idle_cycles = 0, st_irq_code_seen = 0\<rparr>"

definition reset_trace :: trace where
  "reset_trace = \<lparr>tc_ring = (\<lambda>_. \<lparr>te_cause = 0, te_epc = 0, te_tval = 0, te_priv = 0\<rparr>),
                  tc_next = 0, tc_total = 0, tc_dumps = 0\<rparr>"

definition reset_hyp :: "host \<Rightarrow> mem \<Rightarrow> hyp" where
  "reset_hyp hst m =
     \<lparr>hv_host = hst, hv_mem = m, hv_running = False, hv_mtimecmp = 0xFFFFFFFFFFFFFFFF,
      hv_plic = reset_plic, hv_uart = reset_uart, hv_shadow = reset_shadow,
      hv_pmpcfg = (\<lambda>_. 0), hv_pmpaddr = (\<lambda>_. 0), hv_priv = PRIV_M, hv_blk = reset_blk,
      hv_sd_ready = False, hv_sd_capacity = 0, hv_stats = reset_stats, hv_trace = reset_trace,
      hv_idle_cycles = 0, hv_in_wfi = False, hv_stats_wanted = False\<rparr>"

lemmas reset_defs =
  reset_hyp_def reset_shadow_def reset_plic_def reset_uart_def reset_blk_def reset_stats_def
  reset_trace_def

text \<open>A quiet host for the concrete instances: nothing ever arrives and every counter reads 0.\<close>

definition quiet_host :: host where
  "quiet_host = \<lparr>in_mtime = sconst (0, 0), in_cycle = sconst 0, in_txroom = sconst 1,
                 in_poll = sconst \<lparr>hp_alarm = False, hp_rxfifo_full = False,
                                  hp_rxfifo_tout = False, hp_rxfifo_ovf = False, hp_rx = [],
                                  hp_completed = False\<rparr>,
                 out_calls = []\<rparr>"

definition demo_hyp :: hyp where
  "demo_hyp = (reset_hyp quiet_host (\<lambda>_. 0))\<lparr>hv_running := True\<rparr>"

end
