(* ===== verification/Hyp_Decode.thy ===== *)
theory Hyp_Decode
  imports Hyp_State
begin

text \<open>
  \<open>main/hyp_decode.c\<close>: guest register access, instruction fetch, expansion of the two
  compressed memory instructions, and \<open>trap_decode\<close>. The expansion is checked against a
  reference reading of the RISC-V encodings (\<open>decode_rvc\<close> and \<open>decode_rv32\<close>).
\<close>

section \<open>Guest register access\<close>

definition reg_read :: "frame \<Rightarrow> u32 \<Rightarrow> u32" where
  "reg_read f index = (if index \<noteq> 0 then slots f (unat index) else 0)"

definition reg_write :: "frame \<Rightarrow> u32 \<Rightarrow> u32 \<Rightarrow> frame" where
  "reg_write f index v =
     (if index \<noteq> 0 then f\<lparr>slots := (slots f)(unat index := v)\<rparr> else f)"

lemma unat_neq_0: "i \<noteq> 0 \<Longrightarrow> unat (i :: u32) \<noteq> 0"
  by (simp add: unat_eq_zero)

lemma reg_read_write:
  "reg_read (reg_write f i v) j = (if j = i \<and> i \<noteq> 0 then v else reg_read f j)"
  by (auto simp: reg_read_def reg_write_def word_unat_eq_iff)

lemma reg_write_mepc [simp]: "slots (reg_write f i v) 0 = slots f 0"
  by (simp add: reg_write_def unat_neq_0)

lemma reg_write_frame [simp, frame_simps]:
  "fr_mstatus (reg_write f i v) = fr_mstatus f"
  "fr_mcause (reg_write f i v) = fr_mcause f"
  "fr_mtval (reg_write f i v) = fr_mtval f"
  by (simp_all add: reg_write_def)

lemma reg_write_other: "n \<noteq> unat i \<Longrightarrow> slots (reg_write f i v) n = slots f n"
  by (simp add: reg_write_def)

section \<open>Instruction fetch and decode\<close>

text \<open>Two halfword reads; the result is the encoding and its length in bytes.\<close>

definition guest_fetch :: "mem \<Rightarrow> u32 \<Rightarrow> (u32 \<times> u32) option" where
  "guest_fetch m mepc =
     (let low = ucast (rd16 m mepc) :: u32 in
      if low AND 0x3 \<noteq> 0x3 then Some (low, 2)
      else if low AND 0x1f = 0x1f then None
      else Some (low OR push_bit 16 (ucast (rd16 m (mepc + 2))), 4))"

definition rvc_expand :: "u32 \<Rightarrow> u32" where
  "rvc_expand c =
     (if c AND 0x3 \<noteq> 0x0 then 0
      else
        let rs1 = 8 + (drop_bit 7 c AND 0x7);
            rx = 8 + (drop_bit 2 c AND 0x7);
            off = push_bit 3 (drop_bit 10 c AND 0x7) OR
                  push_bit 2 (drop_bit 6 c AND 0x1) OR
                  push_bit 6 (drop_bit 5 c AND 0x1);
            sel = drop_bit 13 c AND 0x7
        in if sel = 0x2 then
             push_bit 20 off OR push_bit 15 rs1 OR push_bit 12 0x2 OR push_bit 7 rx OR 0x03
           else if sel = 0x6 then
             push_bit 25 (drop_bit 5 off) OR push_bit 20 rx OR push_bit 15 rs1 OR
             push_bit 12 0x2 OR push_bit 7 (off AND 0x1f) OR 0x23
           else 0)"

text \<open>
  \<open>trap_decode\<close> fills in \<open>encoding\<close> and \<open>length\<close>; \<open>None\<close> is its \<open>false\<close>, which leaves the
  trap as it was.
\<close>

definition trap_decode :: "mem \<Rightarrow> GuestTrap \<Rightarrow> GuestTrap option" where
  "trap_decode m t =
     (if tr_cause t = 2 then
        Some (t\<lparr>tr_encoding := tr_tval t,
                tr_length := (if tr_tval t AND 0x3 = 0x3 then 4 else 2)\<rparr>)
      else
        (case guest_fetch m (fr_mepc (tr_frame t)) of
           None \<Rightarrow> None
         | Some (encoding, len) \<Rightarrow>
             if len = 2 then
               (let expanded = rvc_expand encoding in
                if expanded = 0 then None
                else Some (t\<lparr>tr_encoding := expanded, tr_length := len\<rparr>))
             else Some (t\<lparr>tr_encoding := encoding, tr_length := len\<rparr>)))"

section \<open>Reference decoders\<close>

text \<open>
  What the ISA manual says the instructions mean, written field by field: a load or store of a
  word names a data register, a base register and a byte offset.
\<close>

datatype memop = LW u32 u32 u32 | SW u32 u32 u32

text \<open>A 32-bit load or store word with a non-negative 12-bit offset.\<close>

definition decode_rv32 :: "u32 \<Rightarrow> memop option" where
  "decode_rv32 i =
     (let funct3 = drop_bit 12 i AND 0x7; rs1 = drop_bit 15 i AND 0x1f in
      if i AND 0x7f = 0x03 \<and> funct3 = 2 then
        Some (LW (drop_bit 7 i AND 0x1f) rs1 (drop_bit 20 i))
      else if i AND 0x7f = 0x23 \<and> funct3 = 2 then
        Some (SW (drop_bit 20 i AND 0x1f) rs1
                 (push_bit 5 (drop_bit 25 i) OR (drop_bit 7 i AND 0x1f)))
      else None)"

text \<open>
  The CL and CS formats: a three-bit register field names x8..x15, and the offset is the zero
  extended \<open>uimm[5:3] = c[12:10]\<close>, \<open>uimm[2] = c[6]\<close>, \<open>uimm[6] = c[5]\<close>.
\<close>

definition cl_reg :: "nat \<Rightarrow> u32 \<Rightarrow> u32" where
  "cl_reg n c = 8 + take_bit 3 (drop_bit n c)"

definition cl_uimm :: "u32 \<Rightarrow> u32" where
  "cl_uimm c = push_bit 2 (of_bool (bit c 6)) OR push_bit 3 (of_bool (bit c 10)) OR
               push_bit 4 (of_bool (bit c 11)) OR push_bit 5 (of_bool (bit c 12)) OR
               push_bit 6 (of_bool (bit c 5))"

definition decode_rvc :: "u32 \<Rightarrow> memop option" where
  "decode_rvc c =
     (if take_bit 2 c \<noteq> 0 then None
      else if take_bit 3 (drop_bit 13 c) = 2 then Some (LW (cl_reg 2 c) (cl_reg 7 c) (cl_uimm c))
      else if take_bit 3 (drop_bit 13 c) = 6 then Some (SW (cl_reg 2 c) (cl_reg 7 c) (cl_uimm c))
      else None)"

section \<open>Encoding fields, bit by bit\<close>

lemma bit_shl_of_bool: "bit (push_bit k (of_bool p) :: u32) n = (n = k \<and> k < 32 \<and> p)"
  by (cases p) (auto simp: bit_exp_iff)

lemma and_1_of_bool: "drop_bit k c AND 1 = (of_bool (bit c k) :: u32)"
  by (simp add: bit_iff_odd_drop_bit and_one_eq mod_2_eq_odd)

lemma bit_shl_field:
  "bit (push_bit k (take_bit w (drop_bit j c)) :: u32) n =
     (k \<le> n \<and> n < 32 \<and> n < k + w \<and> bit c (j + (n - k)))"
  by (auto simp: bit_simps)

lemma bit_cl_uimm:
  "bit (cl_uimm c) n =
     (n = 2 \<and> bit c 6 \<or> n = 3 \<and> bit c 10 \<or> n = 4 \<and> bit c 11 \<or>
      n = 5 \<and> bit c 12 \<or> n = 6 \<and> bit c 5)"
  by (simp add: cl_uimm_def bit_or_iff bit_shl_of_bool)

lemma bit_cl_reg: "bit (cl_reg k c) n = ((n < 3 \<and> bit c (k + n)) \<or> n = 3)"
proof -
  have "cl_reg k c = 8 OR take_bit 3 (drop_bit k c)"
    unfolding cl_reg_def
    by (rule disjunctive_add) (auto simp: flag_simps bit_take_bit_iff)
  then show ?thesis
    by (auto simp: bit_or_iff bit_take_bit_iff flag_simps bit_drop_bit_eq dest: bit_imp_le_length)
qed

lemma cl_uimm_fields:
  "push_bit 3 (take_bit 3 (drop_bit 10 c)) OR push_bit 2 (drop_bit 6 c AND 1) OR
   push_bit 6 (drop_bit 5 c AND 1) = cl_uimm c" (is "?l = _")
proof (rule u32_eqI)
  fix n :: nat assume "n < 32"
  have "3 \<le> n \<and> n < 6 \<longleftrightarrow> n = 3 \<or> n = 4 \<or> n = 5" by linarith
  then show "bit ?l n = bit (cl_uimm c) n"
    unfolding bit_cl_uimm and_1_of_bool bit_or_iff bit_shl_of_bool bit_shl_field by auto
qed

lemma cl_bounds:
  "bit (cl_reg k c) n \<Longrightarrow> n < 5" "bit (cl_uimm c) n \<Longrightarrow> n < 12"
  by (auto simp: bit_cl_reg bit_cl_uimm)

text \<open>The I-type word of a load and the S-type word of a store, field by field.\<close>

lemma i_type_fields:
  assumes "\<And>n. bit rs1 n \<Longrightarrow> n < 5" "\<And>n. bit rd n \<Longrightarrow> n < 5" "\<And>n. bit off n \<Longrightarrow> n < 12"
  defines "i \<equiv> push_bit 20 off OR push_bit 15 rs1 OR push_bit 12 0x2 OR push_bit 7 rd
                 OR (0x03 :: u32)"
  shows "take_bit 7 i = 3" "take_bit 3 (drop_bit 12 i) = 2" "take_bit 5 (drop_bit 15 i) = rs1"
    "take_bit 5 (drop_bit 7 i) = rd" "drop_bit 20 i = off"
  by (rule u32_eqI, auto simp: i_def bit_simps flag_simps dest: assms(1-3))+

lemma s_type_fields:
  assumes "\<And>n. bit rs1 n \<Longrightarrow> n < 5" "\<And>n. bit rs2 n \<Longrightarrow> n < 5" "\<And>n. bit off n \<Longrightarrow> n < 12"
  defines "i \<equiv> push_bit 25 (drop_bit 5 off) OR push_bit 20 rs2 OR push_bit 15 rs1
                 OR push_bit 12 0x2 OR push_bit 7 (take_bit 5 off) OR (0x23 :: u32)"
  shows "take_bit 7 i = 0x23" "take_bit 3 (drop_bit 12 i) = 2" "take_bit 5 (drop_bit 15 i) = rs1"
    "take_bit 5 (drop_bit 20 i) = rs2" "drop_bit 25 i = drop_bit 5 off"
    "take_bit 5 (drop_bit 7 i) = take_bit 5 off"
  by (rule u32_eqI, auto simp: i_def bit_simps flag_simps dest: assms(1-3))+

lemma u32_split_at_5: "push_bit 5 (drop_bit 5 w) OR take_bit 5 w = (w :: u32)"
  by (rule u32_eqI) (auto simp: bit_simps)

lemma take_bit_nonzero: "take_bit n (x :: u32) = k \<Longrightarrow> k \<noteq> 0 \<Longrightarrow> x \<noteq> 0"
  by auto

section \<open>Correctness of the expansion\<close>

lemma rvc_expand_unfold:
  "rvc_expand c =
     (if take_bit 2 c \<noteq> 0 then 0
      else if take_bit 3 (drop_bit 13 c) = 2 then
        push_bit 20 (cl_uimm c) OR push_bit 15 (cl_reg 7 c) OR push_bit 12 0x2 OR
        push_bit 7 (cl_reg 2 c) OR 0x03
      else if take_bit 3 (drop_bit 13 c) = 6 then
        push_bit 25 (drop_bit 5 (cl_uimm c)) OR push_bit 20 (cl_reg 2 c) OR
        push_bit 15 (cl_reg 7 c) OR push_bit 12 0x2 OR push_bit 7 (take_bit 5 (cl_uimm c)) OR 0x23
      else 0)"
  unfolding rvc_expand_def Let_def and_low_mask cl_uimm_fields cl_reg_def [symmetric] ..

lemma rvc_expand_decodes:
  "case decode_rvc c of
     None \<Rightarrow> rvc_expand c = 0
   | Some op \<Rightarrow> decode_rv32 (rvc_expand c) = Some op \<and> rvc_expand c \<noteq> 0"
proof (cases "take_bit 2 c = 0 \<and> take_bit 3 (drop_bit 13 c) \<in> {2, 6}")
  case False
  then show ?thesis by (auto simp: decode_rvc_def rvc_expand_unfold)
next
  case True
  note i = i_type_fields [OF cl_bounds(1) [of 7 c] cl_bounds(1) [of 2 c] cl_bounds(2) [of c]]
  note s = s_type_fields [OF cl_bounds(1) [of 7 c] cl_bounds(1) [of 2 c] cl_bounds(2) [of c]]
  from True consider "take_bit 3 (drop_bit 13 c) = 2" | "take_bit 3 (drop_bit 13 c) = 6" by auto
  then show ?thesis
  proof cases
    case 1
    with True have "rvc_expand c = push_bit 20 (cl_uimm c) OR push_bit 15 (cl_reg 7 c) OR
        push_bit 12 0x2 OR push_bit 7 (cl_reg 2 c) OR 0x03"
      by (simp add: rvc_expand_unfold)
    moreover note i take_bit_nonzero [OF i(1)]
    ultimately show ?thesis
      using True 1 by (simp add: decode_rvc_def decode_rv32_def Let_def and_low_mask)
  next
    case 2
    with True have "rvc_expand c = push_bit 25 (drop_bit 5 (cl_uimm c)) OR push_bit 20 (cl_reg 2 c)
        OR push_bit 15 (cl_reg 7 c) OR push_bit 12 0x2 OR push_bit 7 (take_bit 5 (cl_uimm c))
        OR 0x23"
      by (simp add: rvc_expand_unfold)
    moreover note s take_bit_nonzero [OF s(1)]
    ultimately show ?thesis
      using True 2 by (simp add: decode_rvc_def decode_rv32_def Let_def and_low_mask u32_split_at_5)
  qed
qed

text \<open>
  C19. The compressed-instruction expansion is right for every 16-bit (indeed every 32-bit) input:
  when the ISA reads the halfword as a \<open>c.lw\<close> or \<open>c.sw\<close>, the 32-bit word that \<open>rvc_expand\<close>
  builds decodes to the same operation on the same registers and offset and is not the failure
  value; every other input gives 0, which the caller treats as undecodable.
\<close>

theorem rvc_expand_correct:
  "case decode_rvc c of
     None \<Rightarrow> rvc_expand c = 0
   | Some op \<Rightarrow> decode_rv32 (rvc_expand c) = Some op \<and> rvc_expand c \<noteq> 0"
  by (rule rvc_expand_decodes)

section \<open>trap\_decode\<close>

lemma guest_fetch_length: "guest_fetch m pc = Some (i, n) \<Longrightarrow> n = 2 \<or> n = 4"
  by (auto simp: guest_fetch_def Let_def split: if_splits)

lemma take_bit_of_ucast_31:
  fixes w :: u16
  shows "take_bit 5 (ucast w :: u32) = 31 \<longleftrightarrow> take_bit 5 w = 31"
proof -
  have *: "take_bit 5 (ucast w :: u32) = ucast (take_bit 5 w)"
    by (rule u32_eqI) (auto simp: bit_simps)
  have "take_bit 5 w = ucast (take_bit 5 (ucast w :: u32))"
    by (rule bit_word_eqI) (auto simp: bit_simps)
  with * show ?thesis by auto
qed

lemma take_bit_5_31_imp: "take_bit 5 (w :: u32) = 31 \<Longrightarrow> take_bit 2 w = 3"
proof -
  assume "take_bit 5 w = 31"
  then have "take_bit 2 (take_bit 5 w) = take_bit 2 31" by simp
  then show ?thesis by simp
qed

lemma trap_decode_frame:
  "trap_decode m t = Some t' \<Longrightarrow>
     tr_frame t' = tr_frame t \<and> tr_cause t' = tr_cause t \<and> tr_tval t' = tr_tval t"
  by (auto simp: trap_decode_def Let_def split: if_splits option.splits)

text \<open>
  What the decoding must give as the length: the bytes that the trapped instruction occupies, which the
  ISA reads off its two low bits. The instruction is the one the processor reported in \<open>mtval\<close> for an
  illegal instruction, and the one in memory at \<open>mepc\<close> otherwise.
\<close>

definition insn_length :: "u32 \<Rightarrow> u32" where
  "insn_length w = (if take_bit 2 w = 3 then 4 else 2)"

definition trapped_insn :: "mem \<Rightarrow> u32 \<Rightarrow> u32 \<Rightarrow> u32 \<Rightarrow> u32" where
  "trapped_insn m cause tval epc = (if cause = 2 then tval else ucast (rd16 m epc))"

abbreviation insn_of :: "mem \<Rightarrow> GuestTrap \<Rightarrow> u32" where
  "insn_of m t \<equiv> trapped_insn m (tr_cause t) (tr_tval t) (fr_mepc (tr_frame t))"

lemma insn_length_pos [simp]: "insn_length w \<noteq> 0"
  by (simp add: insn_length_def)

lemma trap_decode_length: "trap_decode m t = Some t' \<Longrightarrow> tr_length t' = insn_length (insn_of m t)"
  by (auto simp: trap_decode_def guest_fetch_def trapped_insn_def insn_length_def Let_def and_low_mask
      split: if_splits)

lemma trap_decode_length_nonzero: "trap_decode m t = Some t' \<Longrightarrow> tr_length t' \<noteq> 0"
  by (simp add: trap_decode_length)

lemma trap_decode_illegal:
  "tr_cause t = 2 \<Longrightarrow>
     trap_decode m t = Some (t\<lparr>tr_encoding := tr_tval t,
                              tr_length := (if tr_tval t AND 0x3 = 0x3 then 4 else 2)\<rparr>)"
  by (simp add: trap_decode_def)

lemma rvc_expand_eq_0_iff: "rvc_expand c = 0 \<longleftrightarrow> decode_rvc c = None"
  using rvc_expand_decodes [of c] by (auto split: option.splits)

lemma trap_decode_idem: "trap_decode m t = Some t' \<Longrightarrow> trap_decode m t' = Some t'"
  by (auto simp: trap_decode_def Let_def split: if_splits option.splits)

text \<open>
  \<open>trap_decode\<close> of an access fault sees exactly the instruction in guest memory: a 32-bit
  instruction is passed on as it is with length 4; a compressed load or store is passed on as the
  equivalent 32-bit one but keeps length 2, so that \<open>mepc\<close> moves by the bytes really occupied;
  anything else (another compressed instruction, or a 48-bit prefix) is refused. Nothing else of
  the trap changes.
\<close>

theorem trap_decode_access_fault:
  fixes m :: mem
  assumes "tr_cause t \<noteq> 2"
  defines "lo \<equiv> ucast (rd16 m (fr_mepc (tr_frame t))) :: u32"
    and "hi \<equiv> ucast (rd16 m (fr_mepc (tr_frame t) + 2)) :: u32"
  shows "trap_decode m t =
           (if take_bit 2 lo = 3 then
              (if take_bit 5 lo = 31 then None
               else Some (t\<lparr>tr_encoding := lo OR push_bit 16 hi, tr_length := 4\<rparr>))
            else if decode_rvc lo = None then None
            else Some (t\<lparr>tr_encoding := rvc_expand lo, tr_length := 2\<rparr>))"
  using assms(1)
  by (simp add: trap_decode_def guest_fetch_def Let_def and_low_mask lo_def hi_def
      rvc_expand_eq_0_iff)

text \<open>
  \<open>guest_fetch\<close> applies no window check of its own: it succeeds or fails by the low five bits
  of the halfword alone, wherever \<open>mepc\<close> points. (\<open>hyp.h\<close> documents it as returning false for an
  address outside the guest window; the callers in \<open>hyp_trace.c\<close> check the window themselves.)
\<close>

theorem guest_fetch_no_window_check:
  "guest_fetch m mepc = None \<longleftrightarrow> take_bit 5 (rd16 m mepc) = 31"
proof -
  have "take_bit 5 (ucast w :: u32) = 31 \<longleftrightarrow> take_bit 5 w = 31" for w :: u16
    using take_bit_of_ucast_31 by blast
  then show ?thesis
    using take_bit_5_31_imp
    by (auto simp: guest_fetch_def Let_def and_low_mask)
qed

text \<open>A word store at offset 4 of x10 is compressed to \<open>0xc148\<close>: \<open>c.sw a0, 4(a0)\<close>.\<close>

definition demo_frame :: frame where
  "demo_frame = \<lparr>slots = (\<lambda>_. 0), fr_mstatus = 0, fr_mcause = 7, fr_mtval = 0\<rparr>"

definition demo_trap :: GuestTrap where
  "demo_trap = \<lparr>tr_frame = demo_frame, tr_cause = 7, tr_tval = 0x10000004,
                tr_encoding = 0, tr_length = 0\<rparr>"

definition demo_code :: mem where
  "demo_code = (\<lambda>_. 0)(0 := 0x48, 1 := 0xc1)"

theorem trap_decode_access_fault_witness:
  "trap_decode demo_code demo_trap = Some (demo_trap\<lparr>tr_encoding := 0x00a52223, tr_length := 2\<rparr>)"
  by (subst trap_decode_access_fault)
     (simp_all add: demo_trap_def demo_frame_def demo_code_def rd16_def decode_rvc_def
       rvc_expand_def)

end
