(* ===== verification/Hyp_Clint.thy ===== *)
theory Hyp_Clint
  imports Hyp_State
begin

text \<open>
  \<open>main/hyp_clint.c\<close>: the guest's timer. \<open>shadow_mtimecmp\<close> is \<open>hv_mtimecmp\<close>; the SYSTIMER
  counter is read as a stream of snapshots (the busy wait for the snapshot-valid flag is the
  hardware handshake and is not a step of the model), and the alarm is driven through the
  recorded hardware calls.
\<close>

section \<open>Operations\<close>

definition hyp_mtime :: "hyp \<Rightarrow> u64 \<times> hyp" where
  "hyp_mtime h =
     (let snap = shd (in_mtime (hv_host h)); lo = fst snap; hi = snd snap in
      (push_bit 32 (ucast hi) OR ucast lo,
       h\<lparr>hv_host := (hv_host h)\<lparr>in_mtime := stl (in_mtime (hv_host h))\<rparr>\<rparr>))"

definition hyp_arm_timer :: "hyp \<Rightarrow> hyp" where
  "hyp_arm_timer h =
     (let h = hw (Systimer_enable_alarm False) h;
          h = hw Systimer_clear_alarm_int h
      in if hv_mtimecmp h \<ge> HYP_MTIME_MAX then h
         else
           let h = hw Systimer_connect_alarm_counter h;
               h = hw Systimer_enable_alarm_oneshot h;
               h = hw (Systimer_set_alarm_target (hv_mtimecmp h)) h;
               h = hw Systimer_apply_alarm_value h;
               h = hw (Systimer_enable_alarm_int True) h
           in hw (Systimer_enable_alarm True) h)"

definition mtip_pending :: "hyp \<Rightarrow> bool \<times> hyp" where
  "mtip_pending h = (let (now, h') = hyp_mtime h in (now \<ge> hv_mtimecmp h', h'))"

definition clint_read :: "u32 \<Rightarrow> u32 \<Rightarrow> hyp \<Rightarrow> u32 \<times> hyp" where
  "clint_read offset width h =
     (if offset = 0x0000 then (0, h)
      else if offset = 0x4000 then (ucast (hv_mtimecmp h), h)
      else if offset = 0x4004 then (ucast (drop_bit 32 (hv_mtimecmp h)), h)
      else if offset = 0xBFF8 then (let (now, h') = hyp_mtime h in (ucast now, h'))
      else if offset = 0xBFFC then (let (now, h') = hyp_mtime h in (ucast (drop_bit 32 now), h'))
      else (0, h))"

definition clint_write :: "u32 \<Rightarrow> u32 \<Rightarrow> u32 \<Rightarrow> hyp \<Rightarrow> hyp" where
  "clint_write offset v width h =
     (if offset = 0x0000 then h
      else if offset = 0x4000 then
        hyp_arm_timer
          (h\<lparr>hv_mtimecmp := (hv_mtimecmp h AND 0xFFFFFFFF00000000) OR ucast v\<rparr>)
      else if offset = 0x4004 then
        hyp_arm_timer
          (h\<lparr>hv_mtimecmp := (hv_mtimecmp h AND 0x00000000FFFFFFFF) OR push_bit 32 (ucast v)\<rparr>)
      else h)"

definition hyp_mtimecmp :: "hyp \<Rightarrow> u64" where
  "hyp_mtimecmp h = hv_mtimecmp h"

section \<open>The clock\<close>

text \<open>The value the next read of the clock gives.\<close>

definition now_is :: "hyp \<Rightarrow> u64" where
  "now_is h = push_bit 32 (ucast (snd (shd (in_mtime (hv_host h)))))
                OR ucast (fst (shd (in_mtime (hv_host h))))"

text \<open>Only the clock stream moves when the clock is read.\<close>

definition tick :: "hyp \<Rightarrow> hyp" where
  "tick h = h\<lparr>hv_host := (hv_host h)\<lparr>in_mtime := stl (in_mtime (hv_host h))\<rparr>\<rparr>"

lemma hyp_mtime_eq: "hyp_mtime h = (now_is h, tick h)"
  by (simp add: hyp_mtime_def now_is_def tick_def Let_def)

lemma mtip_pending_eq: "mtip_pending h = (now_is h \<ge> hv_mtimecmp h, tick h)"
  by (simp add: mtip_pending_def hyp_mtime_eq tick_def)

lemma tick_frame [simp, frame_simps]:
  "hv_mem (tick h) = hv_mem h" "hv_running (tick h) = hv_running h"
  "hv_mtimecmp (tick h) = hv_mtimecmp h" "hv_plic (tick h) = hv_plic h"
  "hv_uart (tick h) = hv_uart h" "hv_shadow (tick h) = hv_shadow h"
  "hv_pmpcfg (tick h) = hv_pmpcfg h" "hv_pmpaddr (tick h) = hv_pmpaddr h"
  "hv_priv (tick h) = hv_priv h" "hv_blk (tick h) = hv_blk h"
  "hv_sd_ready (tick h) = hv_sd_ready h" "hv_sd_capacity (tick h) = hv_sd_capacity h"
  "hv_stats (tick h) = hv_stats h" "hv_trace (tick h) = hv_trace h"
  "hv_idle_cycles (tick h) = hv_idle_cycles h" "hv_in_wfi (tick h) = hv_in_wfi h"
  "hv_stats_wanted (tick h) = hv_stats_wanted h"
  "in_poll (hv_host (tick h)) = in_poll (hv_host h)"
  "in_cycle (hv_host (tick h)) = in_cycle (hv_host h)"
  "in_txroom (hv_host (tick h)) = in_txroom (hv_host h)"
  "out_calls (hv_host (tick h)) = out_calls (hv_host h)"
  "in_mtime (hv_host (tick h)) = stl (in_mtime (hv_host h))"
  by (simp_all add: tick_def)

section \<open>The alarm\<close>

text \<open>The calls that (re)program the alarm for a deadline, in order.\<close>

definition arm_calls :: "u64 \<Rightarrow> hwcall list" where
  "arm_calls deadline =
     [Systimer_enable_alarm False, Systimer_clear_alarm_int] @
     (if deadline \<ge> HYP_MTIME_MAX then []
      else [Systimer_connect_alarm_counter, Systimer_enable_alarm_oneshot,
            Systimer_set_alarm_target deadline, Systimer_apply_alarm_value,
            Systimer_enable_alarm_int True, Systimer_enable_alarm True])"

lemma hyp_arm_timer_eq:
  "hyp_arm_timer h =
     h\<lparr>hv_host := (hv_host h)\<lparr>out_calls := out_calls (hv_host h) @ arm_calls (hv_mtimecmp h)\<rparr>\<rparr>"
  by (simp add: hyp_arm_timer_def arm_calls_def hw_def Let_def)

lemma hyp_arm_timer_frame [simp, frame_simps]:
  "hv_mtimecmp (hyp_arm_timer h) = hv_mtimecmp h" "hv_plic (hyp_arm_timer h) = hv_plic h"
  "hv_uart (hyp_arm_timer h) = hv_uart h" "hv_blk (hyp_arm_timer h) = hv_blk h"
  by (simp_all add: hyp_arm_timer_eq)

section \<open>The register halves\<close>

definition halves :: "u32 \<Rightarrow> u32 \<Rightarrow> u64" where
  "halves hi lo = push_bit 32 (ucast hi) OR ucast lo"

lemma bit_hi_mask [flag_simps]: "bit (0xFFFFFFFF00000000 :: u64) n = (32 \<le> n \<and> n < 64)"
proof -
  have eq: "(0xFFFFFFFF00000000 :: u64) = push_bit 32 (mask 32)"
    by (simp add: mask_eq_exp_minus_1)
  show ?thesis by (subst eq) (auto simp: bit_simps)
qed

lemma bit_lo_mask [flag_simps]: "bit (0xFFFFFFFF :: u64) n = (n < 32)"
proof -
  have eq: "(0xFFFFFFFF :: u64) = mask 32"
    by (simp add: mask_eq_exp_minus_1)
  show ?thesis by (subst eq) (auto simp: bit_simps)
qed

lemma halves_split: "halves (ucast (drop_bit 32 w)) (ucast w) = (w :: u64)"
  unfolding halves_def by (rule bit_word_eqI) (auto simp: bit_simps)

lemma halves_proj [simp]:
  "ucast (halves hi lo) = lo" "ucast (drop_bit 32 (halves hi lo)) = hi"
  unfolding halves_def by (rule bit_word_eqI, auto simp: bit_simps dest: bit_imp_le_length)+

lemma set_lo_half: "(w AND 0xFFFFFFFF00000000) OR ucast v = halves (ucast (drop_bit 32 w)) v"
  unfolding halves_def
  by (rule bit_word_eqI) (auto simp: bit_and_iff bit_or_iff bit_hi_mask bit_simps
      simp del: bit_numeral_word_iff)

lemma set_hi_half: "(w AND 0x00000000FFFFFFFF) OR push_bit 32 (ucast v) = halves v (ucast w)"
  unfolding halves_def
  by (rule bit_word_eqI) (auto simp: bit_and_iff bit_or_iff bit_lo_mask bit_simps
      simp del: bit_numeral_word_iff)

lemma clint_write_mtimecmp:
  "hv_mtimecmp (clint_write 0x4000 v w h) = halves (ucast (drop_bit 32 (hv_mtimecmp h))) v"
  "hv_mtimecmp (clint_write 0x4004 v w h) = halves v (ucast (hv_mtimecmp h))"
  by (simp_all add: clint_write_def set_lo_half set_hi_half)

lemma uint_u32_bound: "0 \<le> uint (x :: u32)" "uint (x :: u32) < 4294967296"
  using uint_lt2p [of x] by simp_all

lemma uint_ucast_64: "uint (ucast (x :: u32) :: u64) = uint x"
  using uint_u32_bound [of x] by (simp add: unsigned_ucast_eq take_bit_int_eq_self)

lemma uint_halves: "uint (halves hi lo) = uint hi * 4294967296 + uint lo"
proof -
  have "halves hi lo = push_bit 32 (ucast hi) + (ucast lo :: u64)"
    unfolding halves_def
    by (rule disjunctive_add [symmetric]) (auto simp: bit_simps dest: bit_imp_le_length)
  moreover have "uint hi * 4294967296 + uint lo < 18446744073709551616"
      "uint hi * 4294967296 < 18446744073709551616"
    using uint_u32_bound [of hi] uint_u32_bound [of lo] by simp_all
  ultimately show ?thesis
    using uint_u32_bound [of hi] uint_u32_bound [of lo]
    by (simp add: uint_word_ariths push_bit_eq_mult uint_ucast_64)
qed

lemma scaled_le_iff:
  fixes a b x y :: int
  assumes "0 \<le> x" "x < 4294967296" "0 \<le> y" "y < 4294967296"
  shows "a * 4294967296 + x \<le> b * 4294967296 + y \<longleftrightarrow> a < b \<or> a = b \<and> x \<le> y"
proof (cases a b rule: linorder_cases)
  case less
  then have "(a + 1) * 4294967296 \<le> b * 4294967296" by (intro mult_right_mono) auto
  with less assms show ?thesis by auto
next
  case greater
  then have "(b + 1) * 4294967296 \<le> a * 4294967296" by (intro mult_right_mono) auto
  with greater assms show ?thesis by auto
qed simp

text \<open>Deadlines compare lexicographically by their halves.\<close>

lemma halves_le_iff: "halves hi lo \<le> halves hi' lo' \<longleftrightarrow> hi < hi' \<or> hi = hi' \<and> lo \<le> lo'"
proof -
  note b = uint_u32_bound [of lo] uint_u32_bound [of lo']
  have "uint hi * 4294967296 + uint lo \<le> uint hi' * 4294967296 + uint lo' \<longleftrightarrow>
      uint hi < uint hi' \<or> uint hi = uint hi' \<and> uint lo \<le> uint lo'"
    using scaled_le_iff b by blast
  then show ?thesis
    by (simp add: word_le_def word_less_def uint_halves word_uint_eq_iff)
qed

lemma out_calls_clint_write:
  "out_calls (hv_host (clint_write 0x4000 v w h)) =
     out_calls (hv_host h) @ arm_calls (halves (ucast (drop_bit 32 (hv_mtimecmp h))) v)"
  "out_calls (hv_host (clint_write 0x4004 v w h)) =
     out_calls (hv_host h) @ arm_calls (halves v (ucast (hv_mtimecmp h)))"
  by (simp_all add: clint_write_def hyp_arm_timer_eq set_lo_half set_hi_half)

text \<open>
  C32. The guest's RV32 deadline update (low word to all ones, then the high word, then the low
  word) ends with exactly the new deadline in force and the alarm programmed for it by the last
  hardware calls, and neither intermediate deadline lies before both the old and the new one, so
  the update itself can never make the timer fire early. The alarm is re-armed after each write.
\<close>

theorem clint_deadline_update:
  defines "upd \<equiv> \<lambda>hi lo w h. clint_write 0x4000 lo w
                   (clint_write 0x4004 hi w (clint_write 0x4000 0xFFFFFFFF w h))"
  shows "hv_mtimecmp (upd hi lo w h) = halves hi lo \<and>
         min (hv_mtimecmp h) (halves hi lo)
           \<le> hv_mtimecmp (clint_write 0x4000 0xFFFFFFFF w h) \<and>
         min (hv_mtimecmp h) (halves hi lo)
           \<le> hv_mtimecmp (clint_write 0x4004 hi w (clint_write 0x4000 0xFFFFFFFF w h)) \<and>
         (\<exists>earlier. out_calls (hv_host (upd hi lo w h)) =
                    out_calls (hv_host h) @ earlier @ arm_calls (halves hi lo))"
proof -
  have top: "x \<le> 0xFFFFFFFF" for x :: u32
    using uint_u32_bound [of x] by (simp add: word_le_def)
  have old: "hv_mtimecmp h = halves (ucast (drop_bit 32 (hv_mtimecmp h))) (ucast (hv_mtimecmp h))"
    by (simp add: halves_split)
  have "hv_mtimecmp h \<le> hv_mtimecmp (clint_write 0x4000 0xFFFFFFFF w h)"
    by (subst old, unfold clint_write_mtimecmp) (simp add: halves_le_iff top)
  moreover have "halves hi lo
      \<le> hv_mtimecmp (clint_write 0x4004 hi w (clint_write 0x4000 0xFFFFFFFF w h))"
    by (simp add: clint_write_mtimecmp halves_le_iff top)
  ultimately show ?thesis
    unfolding upd_def by (auto simp: clint_write_mtimecmp out_calls_clint_write min_le_iff_disj)
qed

text \<open>
  What the guest writes to the two halves of \<open>mtimecmp\<close>, in either order, is what it reads
  back, and \<open>MTIP\<close> is exactly "the clock has reached the deadline", recomputed at every look.
\<close>

theorem clint_roundtrip:
  "fst (clint_read 0x4000 w (clint_write 0x4000 v w h)) = v \<and>
   fst (clint_read 0x4004 w (clint_write 0x4004 v w h)) = v \<and>
   fst (clint_read 0x4004 w (clint_write 0x4000 v w h)) = fst (clint_read 0x4004 w h) \<and>
   fst (clint_read 0x4000 w (clint_write 0x4004 v w h)) = fst (clint_read 0x4000 w h) \<and>
   (fst (mtip_pending (clint_write 0x4000 v w h)) \<longleftrightarrow>
      now_is h \<ge> halves (fst (clint_read 0x4004 w h)) v)"
proof -
  have "now_is (clint_write 0x4000 v w h) = now_is h"
    by (simp add: clint_write_def hyp_arm_timer_eq now_is_def)
  then show ?thesis
    by (simp add: clint_read_def clint_write_mtimecmp mtip_pending_eq)
qed

end
