(* ===== verification/Hyp_Plic.thy ===== *)
theory Hyp_Plic
  imports Hyp_State
begin

text \<open>
  \<open>main/hyp_plic.c\<close>, the part that only needs the controller's own registers: arbitration,
  the gateway inputs, register reads (claim included). The write side, whose completion calls
  back into the UART, is in \<open>Hyp_Uart\<close>.
\<close>

section \<open>Operations\<close>

text \<open>The arbitration loop over sources 1 to 31, with its two loop variables.\<close>

fun plic_scan :: "plic \<Rightarrow> nat list \<Rightarrow> nat \<Rightarrow> u32 \<Rightarrow> nat" where
  "plic_scan p [] best best_priority = best"
| "plic_scan p (n # ns) best best_priority =
     (if pl_pending p AND push_bit n 1 = 0 then plic_scan p ns best best_priority
      else if pl_enable p AND push_bit n 1 = 0 then plic_scan p ns best best_priority
      else if pl_claimed p AND push_bit n 1 \<noteq> 0 then plic_scan p ns best best_priority
      else if pl_priority p n \<le> best_priority then plic_scan p ns best best_priority
      else plic_scan p ns n (pl_priority p n))"

text \<open>\<open>for (n = 1; n <= PLIC_MAX_SOURCE; n++)\<close>\<close>

definition sources :: "nat list" where
  "sources = [1..<Suc PLIC_MAX_SOURCE]"

definition plic_peek :: "plic \<Rightarrow> u32" where
  "plic_peek p = of_nat (plic_scan p sources 0 (pl_threshold p))"

definition meip_pending :: "plic \<Rightarrow> bool" where
  "meip_pending p = (plic_peek p \<noteq> 0)"

definition plic_set_pending :: "u32 \<Rightarrow> bool \<Rightarrow> plic \<Rightarrow> plic" where
  "plic_set_pending source asserted p =
     (if asserted then p\<lparr>pl_pending := pl_pending p OR push_bit (unat source) 1\<rparr>
      else p\<lparr>pl_pending := pl_pending p AND NOT (push_bit (unat source) 1)\<rparr>)"

definition plic_read :: "u32 \<Rightarrow> u32 \<Rightarrow> plic \<Rightarrow> u32 \<times> plic" where
  "plic_read offset width p =
     (if offset < 0x1000 then
        (let n = unat (offset div 4) in
         (if n \<le> PLIC_MAX_SOURCE then pl_priority p n else 0, p))
      else if offset \<ge> 0x1000 \<and> offset < 0x2000 then
        (if offset = 0x1000 then pl_pending p else 0, p)
      else if offset \<ge> 0x2000 \<and> offset < 0x200000 then
        (if offset = 0x2000 then pl_enable p else 0, p)
      else if offset \<ge> 0x200000 \<and> offset < 0x201000 then
        (if offset = 0x200000 then (pl_threshold p, p)
         else if offset = 0x200004 then
           (let source = plic_peek p in
            (source,
             if source \<noteq> 0 then
               p\<lparr>pl_pending := pl_pending p AND NOT (push_bit (unat source) 1),
                 pl_claimed := pl_claimed p OR push_bit (unat source) 1\<rparr>
             else p))
         else (0, p))
      else (0, p))"

section \<open>Specification of the arbitration\<close>

text \<open>A source the controller may hand to the guest.\<close>

definition eligible :: "plic \<Rightarrow> nat \<Rightarrow> bool" where
  "eligible p n \<longleftrightarrow> 1 \<le> n \<and> n \<le> PLIC_MAX_SOURCE \<and> bit (pl_pending p) n \<and> bit (pl_enable p) n \<and>
     \<not> bit (pl_claimed p) n \<and> pl_priority p n > pl_threshold p"

text \<open>Highest priority first, ties to the lowest identifier.\<close>

definition outranks :: "plic \<Rightarrow> nat \<Rightarrow> nat \<Rightarrow> bool" where
  "outranks p m n \<longleftrightarrow>
     pl_priority p m > pl_priority p n \<or> pl_priority p m = pl_priority p n \<and> m \<le> n"

definition candidate :: "plic \<Rightarrow> nat \<Rightarrow> bool" where
  "candidate p n \<longleftrightarrow> bit (pl_pending p) n \<and> bit (pl_enable p) n \<and> \<not> bit (pl_claimed p) n"

lemma plic_scan_step:
  "plic_scan p (n # ns) best bp =
     (if candidate p n \<and> pl_priority p n > bp then plic_scan p ns n (pl_priority p n)
      else plic_scan p ns best bp)"
  by (auto simp: candidate_def flag_simps)

declare plic_scan.simps(2) [simp del]

text \<open>The loop invariant: the result beats every candidate seen, the first of equals wins.\<close>

lemma plic_scan_spec:
  assumes "sorted ns" "distinct ns"
  shows "(plic_scan p ns best bp = best \<and> (\<forall>n\<in>set ns. candidate p n \<longrightarrow> pl_priority p n \<le> bp)) \<or>
     (let r = plic_scan p ns best bp in
        r \<in> set ns \<and> candidate p r \<and> pl_priority p r > bp \<and>
        (\<forall>n\<in>set ns. candidate p n \<longrightarrow> pl_priority p n > bp \<longrightarrow> outranks p r n))"
  using assms
proof (induction ns arbitrary: best bp)
  case Nil
  then show ?case by simp
next
  case (Cons m ns)
  then have IH: "(plic_scan p ns b q = b \<and> (\<forall>n\<in>set ns. candidate p n \<longrightarrow> pl_priority p n \<le> q)) \<or>
     (let r = plic_scan p ns b q in
        r \<in> set ns \<and> candidate p r \<and> pl_priority p r > q \<and>
        (\<forall>n\<in>set ns. candidate p n \<longrightarrow> pl_priority p n > q \<longrightarrow> outranks p r n))" for b q
    by simp
  have later: "\<forall>n\<in>set ns. m < n"
    using Cons.prems by (auto simp: order.order_iff_strict)
  show ?case
  proof (cases "candidate p m \<and> pl_priority p m > bp")
    case True
    then show ?thesis
      using IH [of m "pl_priority p m"] later
      by (auto simp: plic_scan_step Let_def outranks_def)
  next
    case False
    then show ?thesis
      using IH [of best bp] by (auto simp: plic_scan_step Let_def)
  qed
qed


lemma plic_scan_range: "plic_scan p ns best bp \<in> insert best (set ns)"
  by (induction ns arbitrary: best bp) (auto simp: plic_scan_step)

lemma sources_facts: "sorted sources" "distinct sources" "n \<in> set sources \<longleftrightarrow> 1 \<le> n \<and> n \<le> 31"
  by (simp_all add: sources_def del: upt.simps upt_Suc) auto

lemma unat_plic_peek: "unat (plic_peek p) = plic_scan p sources 0 (pl_threshold p)"
  using plic_scan_range [of p sources 0 "pl_threshold p"]
  by (auto simp: plic_peek_def unat_of_nat sources_facts)

lemma plic_peek_eq_0: "plic_peek p = 0 \<longleftrightarrow> plic_scan p sources 0 (pl_threshold p) = 0"
  using unat_plic_peek [of p] by (metis unat_eq_zero)

lemma eligible_iff:
  "eligible p n \<longleftrightarrow> n \<in> set sources \<and> candidate p n \<and> pl_priority p n > pl_threshold p"
  by (auto simp: eligible_def candidate_def sources_facts)

lemma plic_peek_cases:
  "(plic_peek p = 0 \<and> (\<forall>n. \<not> eligible p n)) \<or>
   (plic_peek p \<noteq> 0 \<and> eligible p (unat (plic_peek p)) \<and>
     (\<forall>n. eligible p n \<longrightarrow> outranks p (unat (plic_peek p)) n))"
  using plic_scan_spec [OF sources_facts(1,2), of p 0 "pl_threshold p"]
  unfolding unat_plic_peek eligible_iff Let_def plic_peek_eq_0
  by (auto simp: not_less sources_facts)

text \<open>
  C18. Arbitration. \<open>plic_peek\<close> is 0 exactly when no source is pending, enabled, not in service and
  above the threshold; otherwise it is such a source, and it outranks every other one: higher
  priority first, ties to the lowest identifier.
\<close>

theorem plic_peek_arbitrates:
  "(plic_peek p = 0 \<longleftrightarrow> (\<forall>n. \<not> eligible p n)) \<and>
   (plic_peek p \<noteq> 0 \<longrightarrow> eligible p (unat (plic_peek p))) \<and>
   (\<forall>n. eligible p n \<longrightarrow> outranks p (unat (plic_peek p)) n)"
  using plic_peek_cases [of p] by auto

definition demo_plic :: plic where
  "demo_plic = \<lparr>pl_priority = (\<lambda>_. 1), pl_enable = 0xC00, pl_pending = 0xC00,
                pl_claimed = 0, pl_threshold = 0\<rparr>"

theorem plic_peek_arbitrates_witness:
  "eligible demo_plic 11 \<and> outranks demo_plic (unat (plic_peek demo_plic)) 11"
proof -
  have "eligible demo_plic 11"
    by (simp add: eligible_def demo_plic_def)
  then show ?thesis using plic_peek_arbitrates [of demo_plic] by blast
qed

section \<open>Claiming\<close>

definition plic_claim :: "plic \<Rightarrow> u32 \<times> plic" where
  "plic_claim p = plic_read 0x200004 4 p"

lemma plic_claim_eq:
  "plic_claim p =
     (plic_peek p,
      if plic_peek p \<noteq> 0 then
        p\<lparr>pl_pending := pl_pending p AND NOT (2 ^ unat (plic_peek p)),
          pl_claimed := pl_claimed p OR 2 ^ unat (plic_peek p)\<rparr>
      else p)"
  by (simp add: plic_claim_def plic_read_def Let_def)

lemma plic_set_pending_bits:
  "bit (pl_pending (plic_set_pending s a p)) n =
     (if n = unat s \<and> n < 32 then a else bit (pl_pending p) n)"
  "pl_claimed (plic_set_pending s a p) = pl_claimed p"
  "pl_enable (plic_set_pending s a p) = pl_enable p"
  "pl_priority (plic_set_pending s a p) = pl_priority p"
  "pl_threshold (plic_set_pending s a p) = pl_threshold p"
  by (auto simp: plic_set_pending_def flag_simps dest: bit_imp_le_length)

lemma peek_not_claimed:
  "plic_peek p \<noteq> 0 \<Longrightarrow> \<not> bit (pl_claimed p) (unat (plic_peek p)) \<and> unat (plic_peek p) < 32"
  using plic_peek_cases [of p] by (auto simp: eligible_def)

text \<open>
  A guest's claim loop, interleaved in any way with devices raising and dropping their lines.
\<close>

datatype gateway_event = Claim | Line u32 bool

fun gateway_run :: "gateway_event list \<Rightarrow> plic \<Rightarrow> u32 list \<times> plic" where
  "gateway_run [] p = ([], p)"
| "gateway_run (Claim # es) p =
     (let (s, p') = plic_claim p; (ss, p'') = gateway_run es p'
      in (if s \<noteq> 0 then s # ss else ss, p''))"
| "gateway_run (Line s a # es) p = gateway_run es (plic_set_pending s a p)"

lemma gateway_run_claimed:
  "gateway_run es p = (ss, p') \<Longrightarrow>
     distinct ss \<and> (\<forall>s\<in>set ss. \<not> bit (pl_claimed p) (unat s) \<and> unat s < 32 \<and> s \<noteq> 0)"
proof (induction es p arbitrary: ss p' rule: gateway_run.induct)
  case (2 es p)
  obtain ss' p'' where run: "gateway_run es (snd (plic_claim p)) = (ss', p'')"
    by (cases "gateway_run es (snd (plic_claim p))")
  note IH = "2.IH" [OF refl prod.collapse run]
  have ss: "ss = (if plic_peek p \<noteq> 0 then plic_peek p # ss' else ss')"
    using "2.prems" run by (simp add: plic_claim_eq)
  show ?case
    using IH peek_not_claimed [of p] unfolding ss
    by (auto simp: plic_claim_eq flag_simps split: if_splits)
qed (auto simp: plic_set_pending_bits split: prod.splits)

text \<open>
  C33. No source is handed out twice before it is completed, whatever the devices do to their
  lines in between, so a claim loop sees at most 31 interrupts and then reads 0: a level source
  whose condition is still true cannot spin the guest's handler.
\<close>

theorem plic_claims_distinct:
  "distinct (fst (gateway_run es p)) \<and> length (fst (gateway_run es p)) \<le> 31"
proof -
  obtain ss p' where run: "gateway_run es p = (ss, p')" by (cases "gateway_run es p")
  note facts = gateway_run_claimed [OF run]
  have "unat ` set ss \<subseteq> {1..31}"
    using facts by (force simp: Suc_le_eq unat_gt_0)
  then have "card (unat ` set ss) \<le> 31"
    using card_mono [of "{1..31::nat}"] by fastforce
  moreover have "card (unat ` set ss) = length ss"
    using facts by (simp add: card_image inj_on_def word_unat_eq_iff distinct_card)
  ultimately show ?thesis using facts run by simp
qed

end
