(* ===== verification/Hyp_Fifo.thy ===== *)
theory Hyp_Fifo
  imports Hyp_Prelude
begin

text \<open>
  The contract of a bounded byte queue, which both the 16550's receive ring and the keyboard ring
  provide, and the arithmetic of head/tail rings that discharges it. A full queue drops the new
  byte and counts it; nothing else is ever lost or reordered.
\<close>

section \<open>The interface\<close>

locale byte_fifo =
  fixes push :: "u8 \<Rightarrow> 's \<Rightarrow> 's"
    and pop :: "'s \<Rightarrow> u8 option \<times> 's"
    and contents :: "'s \<Rightarrow> u8 list"
    and dropped :: "'s \<Rightarrow> u32"
    and wf :: "'s \<Rightarrow> bool"
    and cap :: nat
  assumes wf_push: "wf s \<Longrightarrow> wf (push c s)"
    and wf_pop: "wf s \<Longrightarrow> wf (snd (pop s))"
    and contents_push:
      "wf s \<Longrightarrow> contents (push c s) =
        (if length (contents s) < cap then contents s @ [c] else contents s)"
    and dropped_push:
      "wf s \<Longrightarrow> dropped (push c s) =
        (if length (contents s) < cap then dropped s else dropped s + 1)"
    and pop_empty: "wf s \<Longrightarrow> contents s = [] \<Longrightarrow> fst (pop s) = None \<and> contents (snd (pop s)) = []"
    and pop_head:
      "wf s \<Longrightarrow> contents s = c # cs \<Longrightarrow> fst (pop s) = Some c \<and> contents (snd (pop s)) = cs"
    and pop_keeps_count: "wf s \<Longrightarrow> dropped (snd (pop s)) = dropped s"
    and bounded: "wf s \<Longrightarrow> length (contents s) \<le> cap"
begin

text \<open>Pushing a burst keeps the queued bytes and takes as much of the burst as fits, in order.\<close>

lemma wf_push_all: "wf s \<Longrightarrow> wf (fold push cs s)"
  by (induction cs arbitrary: s) (auto intro: wf_push)

lemma contents_push_all: "wf s \<Longrightarrow> contents (fold push cs s) = take cap (contents s @ cs)"
proof (induction cs arbitrary: s)
  case Nil
  then show ?case using bounded by simp
next
  case (Cons c cs)
  have "contents (fold push (c # cs) s) = take cap (contents (push c s) @ cs)"
    using Cons by (simp add: wf_push)
  also have "\<dots> = take cap (contents s @ c # cs)"
    using Cons.prems bounded [of s] by (auto simp: contents_push take_Cons')
  finally show ?case .
qed

lemma dropped_push_all:
  "wf s \<Longrightarrow> dropped (fold push cs s) = dropped s + of_nat (length (contents s) + length cs - cap)"
proof (induction cs arbitrary: s)
  case Nil
  then show ?case using bounded [of s] by simp
next
  case (Cons c cs)
  then have "dropped (fold push (c # cs) s) =
      dropped (push c s) + of_nat (length (contents (push c s)) + length cs - cap)"
    by (simp add: wf_push)
  then show ?case
    using Cons.prems bounded [of s]
    by (auto simp: contents_push dropped_push Suc_diff_le not_less le_antisym)
qed

text \<open>Popping \<open>n\<close> times.\<close>

fun pop_all :: "nat \<Rightarrow> 's \<Rightarrow> u8 list \<times> 's" where
  "pop_all 0 s = ([], s)"
| "pop_all (Suc n) s =
     (case pop s of (None, s') \<Rightarrow> ([], s')
      | (Some c, s') \<Rightarrow> (let (cs, s'') = pop_all n s' in (c # cs, s'')))"

lemma pop_all_contents:
  "wf s \<Longrightarrow> fst (pop_all n s) = take n (contents s) \<and>
     contents (snd (pop_all n s)) = drop n (contents s) \<and> wf (snd (pop_all n s))"
proof (induction n arbitrary: s)
  case 0
  then show ?case by simp
next
  case (Suc n)
  show ?case
  proof (cases "contents s")
    case Nil
    with Suc.prems show ?thesis
      using pop_empty [of s] wf_pop [of s] by (auto split: prod.splits option.splits)
  next
    case (Cons c cs)
    with Suc.prems have "fst (pop s) = Some c" "contents (snd (pop s)) = cs" "wf (snd (pop s))"
      using pop_head wf_pop by auto
    with Suc.IH [of "snd (pop s)"] Cons show ?thesis
      by (cases "pop s") (auto split: prod.splits)
  qed
qed

lemma fifo_order:
  assumes "wf s" "length (contents s) + length cs \<le> cap"
  shows "fst (pop_all (length (contents s) + length cs) (fold push cs s)) = contents s @ cs"
  using assms by (simp add: pop_all_contents wf_push_all contents_push_all)

end

section \<open>Head/tail rings\<close>

text \<open>The index after \<open>i\<close>, the number of queued bytes, and the slot of the \<open>k\<close>-th of them.\<close>

definition ring_next :: "nat \<Rightarrow> nat \<Rightarrow> nat" where
  "ring_next N i = (if i + 1 = N then 0 else i + 1)"

definition ring_len :: "nat \<Rightarrow> nat \<Rightarrow> nat \<Rightarrow> nat" where
  "ring_len N h t = (if t \<le> h then h - t else h + N - t)"

definition ring_ix :: "nat \<Rightarrow> nat \<Rightarrow> nat \<Rightarrow> nat" where
  "ring_ix N t k = (if t + k < N then t + k else t + k - N)"

definition ring_contents :: "nat \<Rightarrow> (nat \<Rightarrow> 'a) \<Rightarrow> nat \<Rightarrow> nat \<Rightarrow> 'a list" where
  "ring_contents N r h t = map (\<lambda>k. r (ring_ix N t k)) [0..<ring_len N h t]"

lemma length_ring_contents [simp]: "length (ring_contents N r h t) = ring_len N h t"
  by (simp add: ring_contents_def)

lemma ring_next_less: "i < N \<Longrightarrow> ring_next N i < N"
  by (auto simp: ring_next_def)

lemma ring_len_bound: "h < N \<Longrightarrow> t < N \<Longrightarrow> ring_len N h t \<le> N - 1"
  by (auto simp: ring_len_def)

lemma ring_full_iff: "h < N \<Longrightarrow> t < N \<Longrightarrow> ring_next N h = t \<longleftrightarrow> ring_len N h t = N - 1"
  by (auto simp: ring_len_def ring_next_def)

lemma ring_empty_iff: "h < N \<Longrightarrow> t < N \<Longrightarrow> ring_contents N r h t = [] \<longleftrightarrow> h = t"
  by (auto simp: ring_contents_def ring_len_def)

lemma ring_push:
  assumes "h < N" "t < N" "ring_next N h \<noteq> t"
  shows "ring_contents N (r(h := c)) (ring_next N h) t = ring_contents N r h t @ [c]"
proof -
  have "ring_len N (ring_next N h) t = Suc (ring_len N h t)"
    using assms by (auto simp: ring_len_def ring_next_def split: if_splits)
  moreover have "ring_ix N t (ring_len N h t) = h"
    using assms by (auto simp: ring_len_def ring_ix_def)
  moreover have "ring_ix N t k \<noteq> h" if "k < ring_len N h t" for k
    using assms that by (auto simp: ring_len_def ring_ix_def split: if_splits)
  ultimately show ?thesis by (simp add: ring_contents_def)
qed

lemma ring_pop:
  assumes "h < N" "t < N" "h \<noteq> t"
  shows "ring_contents N r h t = r t # ring_contents N r h (ring_next N t)"
proof (rule nth_equalityI)
  show "length (ring_contents N r h t) = length (r t # ring_contents N r h (ring_next N t))"
    using assms by (auto simp: ring_len_def ring_next_def)
  fix k assume "k < length (ring_contents N r h t)"
  then have "ring_ix N t 0 = t" and "k = Suc j \<Longrightarrow> ring_ix N t k = ring_ix N (ring_next N t) j"
    and "k = Suc j \<Longrightarrow> j < ring_len N h (ring_next N t)" for j
    using assms by (auto simp: ring_len_def ring_ix_def ring_next_def split: if_splits)
  with \<open>k < _\<close> show "ring_contents N r h t ! k = (r t # ring_contents N r h (ring_next N t)) ! k"
    by (cases k) (simp_all add: ring_contents_def)
qed

end
