(* ===== verification/Hyp_Uart.thy ===== *)
theory Hyp_Uart
  imports Hyp_Plic Hyp_Fifo
begin

text \<open>
  \<open>main/hyp_uart.c\<close>: the emulated 16550, its receive ring and its interrupt line into the PLIC,
  and the write side of \<open>main/hyp_plic.c\<close>, whose completion recomputes that line.
\<close>

section \<open>The receive ring\<close>

definition UART_RX_RING_SIZE :: u32 where
  "UART_RX_RING_SIZE = 512"

definition uart_rx_empty :: "uart \<Rightarrow> bool" where
  "uart_rx_empty u = (ua_head u = ua_tail u)"

definition uart_rx_push :: "u8 \<Rightarrow> uart \<Rightarrow> uart" where
  "uart_rx_push c u =
     (let nxt = (ua_head u + 1) mod UART_RX_RING_SIZE in
      if nxt = ua_tail u then u\<lparr>ua_overruns := ua_overruns u + 1\<rparr>
      else u\<lparr>ua_ring := (ua_ring u)(unat (ua_head u) := c), ua_head := nxt\<rparr>)"

definition uart_rx_pop :: "uart \<Rightarrow> u8 \<times> uart" where
  "uart_rx_pop u =
     (if uart_rx_empty u then (0, u)
      else (ua_ring u (unat (ua_tail u)),
            u\<lparr>ua_tail := (ua_tail u + 1) mod UART_RX_RING_SIZE\<rparr>))"

section \<open>The interrupt line\<close>

definition uart_line :: "uart \<Rightarrow> bool" where
  "uart_line u =
     (let rx_int = (ua_ier u AND 0x01 \<noteq> 0) \<and> \<not> uart_rx_empty u;
          tx_int = (ua_ier u AND 0x02 \<noteq> 0)
      in rx_int \<or> tx_int)"

definition v16550_reeval :: "hyp \<Rightarrow> hyp" where
  "v16550_reeval h = on_plic (plic_set_pending PLIC_UART_SOURCE (uart_line (hv_uart h))) h"

section \<open>Registers\<close>

definition uart_reg_read :: "u32 \<Rightarrow> hyp \<Rightarrow> u8 \<times> hyp" where
  "uart_reg_read offset h =
     (let u = hv_uart h in
      if ua_lcr u AND 0x80 \<noteq> 0 \<and> offset = 0 then (ua_dll u, h)
      else if ua_lcr u AND 0x80 \<noteq> 0 \<and> offset = 1 then (ua_dlm u, h)
      else if offset = 0 then
        (let (c, u') = uart_rx_pop u in (c, v16550_reeval (h\<lparr>hv_uart := u'\<rparr>)))
      else if offset = 1 then (ua_ier u, h)
      else if offset = 2 then
        (let iir = (if ua_ier u AND 0x01 \<noteq> 0 \<and> \<not> uart_rx_empty u then 0x04
                    else if ua_ier u AND 0x02 \<noteq> 0 then 0x02
                    else 0x01)
         in (iir OR (if ua_fcr u AND 0x01 \<noteq> 0 then 0xC0 else 0x00), h))
      else if offset = 3 then (ua_lcr u, h)
      else if offset = 4 then (ua_mcr u, h)
      else if offset = 5 then (0x60 OR (if uart_rx_empty u then 0x00 else 0x01), h)
      else if offset = 6 then
        (if ua_mcr u AND 0x10 \<noteq> 0 then
           (push_bit 4 (ua_mcr u AND 0x0C) OR push_bit 3 (ua_mcr u AND 0x02) OR
            push_bit 5 (ua_mcr u AND 0x01), h)
         else (0xB0, h))
      else if offset = 7 then (ua_scr u, h)
      else (0, h))"

text \<open>One byte to the wire: straight into the transmit FIFO, dropped when it has no room.\<close>

definition uart_transmit :: "u8 \<Rightarrow> hyp \<Rightarrow> hyp" where
  "uart_transmit v h =
     (let room = shd (in_txroom (hv_host h));
          h = h\<lparr>hv_host := (hv_host h)\<lparr>in_txroom := stl (in_txroom (hv_host h))\<rparr>\<rparr>
      in if room > 0 then hw (Uart_write_txfifo v) h
         else on_uart (\<lambda>u. u\<lparr>ua_tx_dropped := ua_tx_dropped u + 1\<rparr>) h)"

definition uart_reg_write :: "u32 \<Rightarrow> u8 \<Rightarrow> hyp \<Rightarrow> hyp" where
  "uart_reg_write offset v h =
     (let u = hv_uart h in
      if ua_lcr u AND 0x80 \<noteq> 0 \<and> offset = 0 then on_uart (\<lambda>u. u\<lparr>ua_dll := v\<rparr>) h
      else if ua_lcr u AND 0x80 \<noteq> 0 \<and> offset = 1 then on_uart (\<lambda>u. u\<lparr>ua_dlm := v\<rparr>) h
      else if offset = 0 then
        v16550_reeval
          (if ua_mcr u AND 0x10 \<noteq> 0 then on_uart (uart_rx_push v) h
           else uart_transmit v h)
      else if offset = 1 then v16550_reeval (on_uart (\<lambda>u. u\<lparr>ua_ier := v\<rparr>) h)
      else if offset = 2 then on_uart (\<lambda>u. u\<lparr>ua_fcr := v\<rparr>) h
      else if offset = 3 then on_uart (\<lambda>u. u\<lparr>ua_lcr := v\<rparr>) h
      else if offset = 4 then on_uart (\<lambda>u. u\<lparr>ua_mcr := v\<rparr>) h
      else if offset = 7 then on_uart (\<lambda>u. u\<lparr>ua_scr := v\<rparr>) h
      else h)"

text \<open>Wider accesses go byte by byte, low byte first; \<open>i\<close> is the loop counter, \<open>n\<close> what is left.\<close>

fun uart_read_loop :: "u32 \<Rightarrow> nat \<Rightarrow> nat \<Rightarrow> u32 \<Rightarrow> hyp \<Rightarrow> u32 \<times> hyp" where
  "uart_read_loop offset i 0 acc h = (acc, h)"
| "uart_read_loop offset i (Suc n) acc h =
     (let (b, h') = uart_reg_read (offset + of_nat i) h
      in uart_read_loop offset (Suc i) n (acc OR push_bit (8 * i) (ucast b)) h')"

definition uart_read :: "u32 \<Rightarrow> u32 \<Rightarrow> hyp \<Rightarrow> u32 \<times> hyp" where
  "uart_read offset width h = uart_read_loop offset 0 (unat width) 0 h"

fun uart_write_loop :: "u32 \<Rightarrow> u32 \<Rightarrow> nat \<Rightarrow> nat \<Rightarrow> hyp \<Rightarrow> hyp" where
  "uart_write_loop offset v i 0 h = h"
| "uart_write_loop offset v i (Suc n) h =
     uart_write_loop offset v (Suc i) n
       (uart_reg_write (offset + of_nat i) (ucast (drop_bit (8 * i) v)) h)"

definition uart_write :: "u32 \<Rightarrow> u32 \<Rightarrow> u32 \<Rightarrow> hyp \<Rightarrow> hyp" where
  "uart_write offset v width h = uart_write_loop offset v 0 (unat width) h"

definition hyp_uart_overruns :: "hyp \<Rightarrow> u32" where
  "hyp_uart_overruns h = ua_overruns (hv_uart h)"

definition hyp_uart_tx_dropped :: "hyp \<Rightarrow> u32" where
  "hyp_uart_tx_dropped h = ua_tx_dropped (hv_uart h)"

section \<open>The PLIC's registers, write side\<close>

definition plic_write :: "u32 \<Rightarrow> u32 \<Rightarrow> u32 \<Rightarrow> hyp \<Rightarrow> hyp" where
  "plic_write offset v width h =
     (if offset < 0x1000 then
        (let n = unat (offset div 4) in
         if n \<le> PLIC_MAX_SOURCE then
           on_plic (\<lambda>p. p\<lparr>pl_priority := (pl_priority p)(n := v)\<rparr>) h
         else h)
      else if offset \<ge> 0x2000 \<and> offset < 0x200000 then
        (if offset = 0x2000 then on_plic (\<lambda>p. p\<lparr>pl_enable := v\<rparr>) h else h)
      else if offset \<ge> 0x200000 \<and> offset < 0x201000 then
        (if offset = 0x200000 then on_plic (\<lambda>p. p\<lparr>pl_threshold := v\<rparr>) h
         else if offset = 0x200004 then
           (let source = v in
            if source \<noteq> 0 \<and> source \<le> of_nat PLIC_MAX_SOURCE \<and>
               pl_claimed (hv_plic h) AND push_bit (unat source) 1 \<noteq> 0 then
              (let h = on_plic (\<lambda>p. p\<lparr>pl_claimed :=
                         pl_claimed p AND NOT (push_bit (unat source) 1)\<rparr>) h
               in if source = PLIC_UART_SOURCE then v16550_reeval h else h)
            else h)
         else h)
      else h)"

section \<open>The ring is a bounded FIFO\<close>

definition uart_wf :: "uart \<Rightarrow> bool" where
  "uart_wf u \<longleftrightarrow> ua_head u < UART_RX_RING_SIZE \<and> ua_tail u < UART_RX_RING_SIZE"

definition rx_contents :: "uart \<Rightarrow> u8 list" where
  "rx_contents u = ring_contents 512 (ua_ring u) (unat (ua_head u)) (unat (ua_tail u))"

text \<open>The pop of the interface reports emptiness instead of returning the byte 0.\<close>

definition rx_take :: "uart \<Rightarrow> u8 option \<times> uart" where
  "rx_take u = (if uart_rx_empty u then (None, u) else apfst Some (uart_rx_pop u))"

lemma uart_wf_nat: "uart_wf u \<longleftrightarrow> unat (ua_head u) < 512 \<and> unat (ua_tail u) < 512"
  by (simp add: uart_wf_def UART_RX_RING_SIZE_def word_less_nat_alt)

lemma unat_next_512: "unat x < 512 \<Longrightarrow> unat ((x + 1) mod (512 :: u32)) = ring_next 512 (unat x)"
  by (auto simp: ring_next_def unat_mod unat_word_ariths mod_Suc)

lemma rx_empty_iff: "uart_wf u \<Longrightarrow> uart_rx_empty u \<longleftrightarrow> rx_contents u = []"
  by (simp add: uart_rx_empty_def rx_contents_def uart_wf_nat ring_empty_iff word_unat_eq_iff)

lemma rx_push_full:
  assumes "uart_wf u"
  shows "(ua_head u + 1) mod UART_RX_RING_SIZE = ua_tail u \<longleftrightarrow> length (rx_contents u) = 511"
  using assms
  by (simp add: UART_RX_RING_SIZE_def word_unat_eq_iff unat_next_512 uart_wf_nat rx_contents_def
      ring_full_iff)

lemma rx_length: "uart_wf u \<Longrightarrow> length (rx_contents u) \<le> 511"
  using ring_len_bound [of "unat (ua_head u)" 512 "unat (ua_tail u)"]
  by (simp add: uart_wf_nat rx_contents_def)

lemma rx_push_contents:
  assumes "uart_wf u"
  shows "uart_wf (uart_rx_push c u)" (is ?wf)
    and "rx_contents (uart_rx_push c u) =
      (if length (rx_contents u) < 511 then rx_contents u @ [c] else rx_contents u)" (is ?c)
    and "ua_overruns (uart_rx_push c u) =
      (if length (rx_contents u) < 511 then ua_overruns u else ua_overruns u + 1)" (is ?d)
proof -
  note full = rx_push_full [OF assms] and len = rx_length [OF assms]
  have next_lt: "unat ((ua_head u + 1) mod 512) < 512"
    using assms by (simp add: unat_next_512 uart_wf_nat ring_next_less)
  show ?wf
    using assms next_lt by (auto simp: uart_rx_push_def Let_def uart_wf_nat UART_RX_RING_SIZE_def)
  show ?d
    using full len by (auto simp: uart_rx_push_def Let_def)
  show ?c
  proof (cases "length (rx_contents u) = 511")
    case True
    with full show ?thesis by (simp add: uart_rx_push_def Let_def rx_contents_def)
  next
    case False
    with full len assms show ?thesis
      by (simp add: uart_rx_push_def Let_def rx_contents_def UART_RX_RING_SIZE_def unat_next_512
          uart_wf_nat ring_push ring_full_iff)
  qed
qed

lemma rx_take_contents:
  assumes "uart_wf u"
  shows "uart_wf (snd (rx_take u))" (is ?wf)
    and "rx_contents u = [] \<Longrightarrow> rx_take u = (None, u)"
    and "rx_contents u = c # cs \<Longrightarrow> fst (rx_take u) = Some c \<and> rx_contents (snd (rx_take u)) = cs"
    and "ua_overruns (snd (rx_take u)) = ua_overruns u" (is ?d)
proof -
  show ?wf
    using assms
    by (auto simp: rx_take_def uart_rx_pop_def uart_wf_nat UART_RX_RING_SIZE_def unat_next_512
        ring_next_less)
  show ?d
    by (simp add: rx_take_def uart_rx_pop_def)
  show "rx_take u = (None, u)" if "rx_contents u = []"
    using that assms by (simp add: rx_take_def rx_empty_iff)
  show "fst (rx_take u) = Some c \<and> rx_contents (snd (rx_take u)) = cs" if "rx_contents u = c # cs"
    using that assms rx_empty_iff [OF assms]
      ring_pop [of "unat (ua_head u)" 512 "unat (ua_tail u)" "ua_ring u"]
    by (auto simp: rx_take_def uart_rx_pop_def rx_contents_def uart_wf_nat uart_rx_empty_def
        UART_RX_RING_SIZE_def unat_next_512 word_unat_eq_iff)
qed

interpretation rx: byte_fifo uart_rx_push rx_take rx_contents ua_overruns uart_wf 511
  by unfold_locales
     (simp_all add: rx_push_contents rx_take_contents rx_length)

section \<open>The console as a queue\<close>

text \<open>The guest reading its receive buffer register \<open>n\<close> times, with divisor access off.\<close>

fun read_rbr :: "nat \<Rightarrow> hyp \<Rightarrow> u8 list \<times> hyp" where
  "read_rbr 0 h = ([], h)"
| "read_rbr (Suc n) h =
     (let (c, h') = uart_reg_read 0 h; (cs, h'') = read_rbr n h' in (c # cs, h''))"

lemma uart_rbr:
  "\<not> bit (ua_lcr (hv_uart h)) 7 \<Longrightarrow>
     uart_reg_read 0 h = (fst (uart_rx_pop (hv_uart h)),
                          v16550_reeval (h\<lparr>hv_uart := snd (uart_rx_pop (hv_uart h))\<rparr>))"
  by (simp add: uart_reg_read_def flag_simps Let_def case_prod_beta)

lemma uart_rx_pop_take:
  "uart_rx_pop u = (case fst (rx_take u) of None \<Rightarrow> 0 | Some c \<Rightarrow> c, snd (rx_take u))"
  by (auto simp: rx_take_def uart_rx_pop_def)

lemma reeval_uart [simp, frame_simps]: "hv_uart (v16550_reeval h) = hv_uart h"
  by (simp add: v16550_reeval_def)

lemma uart_lcr_kept [simp]:
  "ua_lcr (snd (uart_rx_pop u)) = ua_lcr u" "ua_lcr (snd (rx_take u)) = ua_lcr u"
  "ua_lcr (uart_rx_push c u) = ua_lcr u"
  by (simp_all add: rx_take_def uart_rx_pop_def uart_rx_push_def Let_def)

lemma read_rbr_contents:
  assumes "uart_wf (hv_uart h)" and "\<not> bit (ua_lcr (hv_uart h)) 7"
  shows "fst (read_rbr n h) =
           take n (rx_contents (hv_uart h)) @ replicate (n - length (rx_contents (hv_uart h))) 0 \<and>
         rx_contents (hv_uart (snd (read_rbr n h))) = drop n (rx_contents (hv_uart h))"
  using assms
proof (induction n arbitrary: h)
  case 0
  then show ?case by simp
next
  case (Suc n)
  let ?h' = "v16550_reeval (h\<lparr>hv_uart := snd (uart_rx_pop (hv_uart h))\<rparr>)"
  have "uart_wf (hv_uart ?h')" "\<not> bit (ua_lcr (hv_uart ?h')) 7"
    using Suc.prems rx.wf_pop by (simp_all add: uart_rx_pop_take [of "hv_uart h"])
  note IH = Suc.IH [OF this]
  show ?case
  proof (cases "rx_contents (hv_uart h)")
    case Nil
    with Suc.prems IH rx.pop_empty [of "hv_uart h"] show ?thesis
      by (simp add: uart_rbr uart_rx_pop_take Let_def case_prod_beta)
  next
    case (Cons c cs)
    with Suc.prems IH rx.pop_head [of "hv_uart h"] show ?thesis
      by (simp add: uart_rbr uart_rx_pop_take Let_def case_prod_beta)
  qed
qed

text \<open>
  C24. The receive ring is a FIFO of 511 bytes. After a burst arrives, the guest's reads of the
  receive buffer give the bytes that were queued followed by as much of the burst as fits, in
  order, then zeros; every byte that did not fit, and none else, is counted as an overrun.
\<close>

theorem uart_fifo:
  assumes "uart_wf (hv_uart h)" and "\<not> bit (ua_lcr (hv_uart h)) 7"
  shows "fst (read_rbr n (on_uart (fold uart_rx_push cs) h)) =
           take n (take 511 (rx_contents (hv_uart h) @ cs)) @
           replicate (n - min 511 (length (rx_contents (hv_uart h)) + length cs)) 0 \<and>
         hyp_uart_overruns (on_uart (fold uart_rx_push cs) h) =
           hyp_uart_overruns h + of_nat (length (rx_contents (hv_uart h)) + length cs - 511)"
proof -
  have "ua_lcr (fold uart_rx_push cs u) = ua_lcr u" for u
    by (induction cs arbitrary: u) simp_all
  moreover have "uart_wf (hv_uart (on_uart (fold uart_rx_push cs) h))"
    using assms by (simp add: rx.wf_push_all)
  ultimately show ?thesis
    using read_rbr_contents [of "on_uart (fold uart_rx_push cs) h" n] assms
    by (simp add: rx.contents_push_all rx.dropped_push_all hyp_uart_overruns_def min.commute)
qed

definition demo_uart :: uart where
  "demo_uart = \<lparr>ua_ier = 1, ua_lcr = 3, ua_mcr = 0, ua_scr = 0, ua_fcr = 0, ua_dll = 0, ua_dlm = 0,
                ua_ring = (\<lambda>_. 0), ua_head = 511, ua_tail = 511, ua_overruns = 0,
                ua_tx_dropped = 0\<rparr>"

text \<open>Two bytes pushed across the end of the array come back in order.\<close>

theorem uart_fifo_witness:
  "fst (read_rbr 3 (on_uart (fold uart_rx_push [104, 105]) (demo_hyp\<lparr>hv_uart := demo_uart\<rparr>))) = [104, 105, 0]"
proof -
  have q: "rx_contents demo_uart = []"
    by (simp add: demo_uart_def rx_contents_def ring_contents_def ring_len_def)
  have "uart_wf (hv_uart (demo_hyp\<lparr>hv_uart := demo_uart\<rparr>))" "\<not> bit (ua_lcr (hv_uart (demo_hyp\<lparr>hv_uart := demo_uart\<rparr>))) 7"
    by (simp_all add: demo_uart_def uart_wf_def UART_RX_RING_SIZE_def)
  from uart_fifo [OF this, of 3 "[104, 105]"] q show ?thesis
    by (simp add: eval_nat_numeral)
qed

section \<open>Registers against the line\<close>

text \<open>
  What the 8250 driver relies on: the interrupt identification register says "none pending"
  exactly when the line is low, receive data outranks transmitter empty, the line status register
  always reports room to send and reports data exactly when the ring is not empty, and none of
  these reads changes anything. Divisor access does not shadow these registers.
\<close>

theorem uart_status_registers:
  "(bit (fst (uart_reg_read 2 h)) 0 \<longleftrightarrow> \<not> uart_line (hv_uart h)) \<and>
   (bit (fst (uart_reg_read 2 h)) 2 \<longleftrightarrow> bit (ua_ier (hv_uart h)) 0 \<and> bit (fst (uart_reg_read 5 h)) 0) \<and>
   fst (uart_reg_read 5 h) AND 0x60 = 0x60 \<and>
   (bit (fst (uart_reg_read 5 h)) 0 \<longleftrightarrow> ua_head (hv_uart h) \<noteq> ua_tail (hv_uart h)) \<and>
   snd (uart_reg_read 2 h) = h \<and> snd (uart_reg_read 5 h) = h"
  by (auto simp: uart_reg_read_def uart_line_def Let_def flag_simps uart_rx_empty_def)

lemma u8_single_bits:
  fixes x :: u8
  shows "x AND 1 = of_bool (bit x 0)" "x AND 2 = push_bit 1 (of_bool (bit x 1))"
    "x AND 12 = push_bit 2 (of_bool (bit x 2)) OR push_bit 3 (of_bool (bit x 3))"
proof -
  have twelve: "(12::u8) = 2 ^ 2 OR 2 ^ 3"
    by simp
  have one: "x AND 2 ^ n = push_bit n (of_bool (bit x n))" for n
    by (rule bit_word_eqI) (auto simp: bit_simps)
  show "x AND 1 = of_bool (bit x 0)" "x AND 2 = push_bit 1 (of_bool (bit x 1))"
    using one [of 0] one [of 1] by (simp_all only: power_0 power_one_right push_bit_0_id id_apply)
  show "x AND 12 = push_bit 2 (of_bool (bit x 2)) OR push_bit 3 (of_bool (bit x 3))"
    by (simp only: twelve one bit.conj_disj_distrib)
qed

text \<open>
  In loopback the modem status register reflects the modem control register: RTS to CTS, DTR
  to DSR, OUT1 to RI and OUT2 to DCD, the other bits zero; out of loopback it is the constant
  that never blocks flow control.
\<close>

theorem uart_modem_loopback:
  "fst (uart_reg_read 6 h) =
     (if bit (ua_mcr (hv_uart h)) 4 then
        push_bit 4 (of_bool (bit (ua_mcr (hv_uart h)) 1)) OR
        push_bit 5 (of_bool (bit (ua_mcr (hv_uart h)) 0)) OR
        push_bit 6 (of_bool (bit (ua_mcr (hv_uart h)) 2)) OR
        push_bit 7 (of_bool (bit (ua_mcr (hv_uart h)) 3))
      else 0xB0)"
  by (simp add: uart_reg_read_def Let_def flag_simps u8_single_bits push_bit_or)

end
