(* ===== verification/Hyp_Virtio.thy ===== *)
theory Hyp_Virtio
  imports Hyp_Plic
begin

text \<open>
  \<open>main/hyp_virtio_blk.c\<close>, the half that runs on core 1: the legacy virtio-mmio registers, the
  byte-addressable configuration space, and the poll that turns core 0's completion flag into a
  guest interrupt. The request side, which runs on core 0, is in \<open>Hyp_Blk\<close>.
\<close>

section \<open>The card, as the registers see it (main/hyp\_sd.c)\<close>

definition hyp_sd_ready :: "hyp \<Rightarrow> bool" where
  "hyp_sd_ready h = hv_sd_ready h"

definition hyp_sd_sector_count :: "hyp \<Rightarrow> u32" where
  "hyp_sd_sector_count h = (if hv_sd_ready h then hv_sd_capacity h else 0)"

section \<open>Registers\<close>

text \<open>Register offsets and identification values.\<close>

definition VIRTIO_MMIO_MAGIC_VALUE :: u32 where [simp]: "VIRTIO_MMIO_MAGIC_VALUE = 0x000"
definition VIRTIO_MMIO_VERSION :: u32 where [simp]: "VIRTIO_MMIO_VERSION = 0x004"
definition VIRTIO_MMIO_DEVICE_ID :: u32 where [simp]: "VIRTIO_MMIO_DEVICE_ID = 0x008"
definition VIRTIO_MMIO_VENDOR_ID :: u32 where [simp]: "VIRTIO_MMIO_VENDOR_ID = 0x00c"
definition VIRTIO_MMIO_DEVICE_FEATURES :: u32 where [simp]: "VIRTIO_MMIO_DEVICE_FEATURES = 0x010"
definition VIRTIO_MMIO_DEVICE_FEATURES_SEL :: u32 where [simp]: "VIRTIO_MMIO_DEVICE_FEATURES_SEL = 0x014"
definition VIRTIO_MMIO_DRIVER_FEATURES :: u32 where [simp]: "VIRTIO_MMIO_DRIVER_FEATURES = 0x020"
definition VIRTIO_MMIO_DRIVER_FEATURES_SEL :: u32 where [simp]: "VIRTIO_MMIO_DRIVER_FEATURES_SEL = 0x024"
definition VIRTIO_MMIO_GUEST_PAGE_SIZE :: u32 where [simp]: "VIRTIO_MMIO_GUEST_PAGE_SIZE = 0x028"
definition VIRTIO_MMIO_QUEUE_SEL :: u32 where [simp]: "VIRTIO_MMIO_QUEUE_SEL = 0x030"
definition VIRTIO_MMIO_QUEUE_NUM_MAX :: u32 where [simp]: "VIRTIO_MMIO_QUEUE_NUM_MAX = 0x034"
definition VIRTIO_MMIO_QUEUE_NUM :: u32 where [simp]: "VIRTIO_MMIO_QUEUE_NUM = 0x038"
definition VIRTIO_MMIO_QUEUE_ALIGN :: u32 where [simp]: "VIRTIO_MMIO_QUEUE_ALIGN = 0x03c"
definition VIRTIO_MMIO_QUEUE_PFN :: u32 where [simp]: "VIRTIO_MMIO_QUEUE_PFN = 0x040"
definition VIRTIO_MMIO_QUEUE_NOTIFY :: u32 where [simp]: "VIRTIO_MMIO_QUEUE_NOTIFY = 0x050"
definition VIRTIO_MMIO_INTERRUPT_STATUS :: u32 where [simp]: "VIRTIO_MMIO_INTERRUPT_STATUS = 0x060"
definition VIRTIO_MMIO_INTERRUPT_ACK :: u32 where [simp]: "VIRTIO_MMIO_INTERRUPT_ACK = 0x064"
definition VIRTIO_MMIO_STATUS :: u32 where [simp]: "VIRTIO_MMIO_STATUS = 0x070"
definition VIRTIO_MMIO_CONFIG :: u32 where [simp]: "VIRTIO_MMIO_CONFIG = 0x100"
definition VIRTIO_MMIO_MAGIC :: u32 where [simp]: "VIRTIO_MMIO_MAGIC = 0x74726976"
definition VIRTIO_ID_BLOCK :: u32 where [simp]: "VIRTIO_ID_BLOCK = 2"
definition HYP_VIRTIO_VENDOR :: u32 where [simp]: "HYP_VIRTIO_VENDOR = 0x50345052"
definition HYP_VQ_SIZE :: u32 where [simp]: "HYP_VQ_SIZE = 128"

text \<open>
  \<open>cfg[16]\<close>: the capacity in its first eight bytes, little endian, then zeros; and the loop that
  collects up to \<open>width\<close> of its bytes.
\<close>

definition blk_config_byte :: "hyp \<Rightarrow> u32 \<Rightarrow> u8" where
  "blk_config_byte h i =
     (if i < 8 then ucast (drop_bit (8 * unat i) (ucast (hyp_sd_sector_count h) :: u64)) else 0)"

fun blk_config_loop :: "hyp \<Rightarrow> u32 \<Rightarrow> nat \<Rightarrow> nat \<Rightarrow> u32 \<Rightarrow> u32" where
  "blk_config_loop h base i 0 acc = acc"
| "blk_config_loop h base i (Suc n) acc =
     (if base + of_nat i < 16 then
        blk_config_loop h base (Suc i) n
          (acc OR push_bit (8 * i) (ucast (blk_config_byte h (base + of_nat i))))
      else acc)"

definition hyp_virtio_blk_read :: "u32 \<Rightarrow> u32 \<Rightarrow> hyp \<Rightarrow> u32 \<times> hyp" where
  "hyp_virtio_blk_read offset width h =
     (if offset \<ge> VIRTIO_MMIO_CONFIG then
        (blk_config_loop h (offset - VIRTIO_MMIO_CONFIG) 0 (unat width) 0, h)
      else if offset = VIRTIO_MMIO_MAGIC_VALUE then (VIRTIO_MMIO_MAGIC, h)
      else if offset = VIRTIO_MMIO_VERSION then (1, h)
      else if offset = VIRTIO_MMIO_DEVICE_ID then (VIRTIO_ID_BLOCK, h)
      else if offset = VIRTIO_MMIO_VENDOR_ID then (HYP_VIRTIO_VENDOR, h)
      else if offset = VIRTIO_MMIO_DEVICE_FEATURES then (0, h)
      else if offset = VIRTIO_MMIO_QUEUE_NUM_MAX then (HYP_VQ_SIZE, h)
      else if offset = VIRTIO_MMIO_QUEUE_PFN then (bk_queue_pfn (hv_blk h), h)
      else if offset = VIRTIO_MMIO_INTERRUPT_STATUS then (bk_interrupt_status (hv_blk h), h)
      else if offset = VIRTIO_MMIO_STATUS then (bk_status (hv_blk h), h)
      else (0, h))"

definition blk_line :: "bool \<Rightarrow> hyp \<Rightarrow> hyp" where
  "blk_line asserted h = on_plic (plic_set_pending PLIC_VIRTIO_BLK_SOURCE asserted) h"

definition hyp_virtio_blk_write :: "u32 \<Rightarrow> u32 \<Rightarrow> u32 \<Rightarrow> hyp \<Rightarrow> hyp" where
  "hyp_virtio_blk_write offset v width h =
     (if offset = VIRTIO_MMIO_DEVICE_FEATURES_SEL then on_blk (\<lambda>b. b\<lparr>bk_device_features_sel := v\<rparr>) h
      else if offset = VIRTIO_MMIO_DRIVER_FEATURES then on_blk (\<lambda>b. b\<lparr>bk_driver_features := v\<rparr>) h
      else if offset = VIRTIO_MMIO_DRIVER_FEATURES_SEL then h
      else if offset = VIRTIO_MMIO_GUEST_PAGE_SIZE then on_blk (\<lambda>b. b\<lparr>bk_guest_page_size := v\<rparr>) h
      else if offset = VIRTIO_MMIO_QUEUE_SEL then on_blk (\<lambda>b. b\<lparr>bk_queue_sel := v\<rparr>) h
      else if offset = VIRTIO_MMIO_QUEUE_NUM then on_blk (\<lambda>b. b\<lparr>bk_queue_num := v\<rparr>) h
      else if offset = VIRTIO_MMIO_QUEUE_ALIGN then on_blk (\<lambda>b. b\<lparr>bk_queue_align := v\<rparr>) h
      else if offset = VIRTIO_MMIO_QUEUE_PFN then
        on_blk (\<lambda>b. b\<lparr>bk_queue_pfn := v,
                       bk_live := (v \<noteq> 0 \<and> bk_queue_num b \<noteq> 0 \<and> bk_guest_page_size b \<noteq> 0 \<and>
                                   hyp_sd_ready h),
                       bk_last_avail := 0\<rparr>) h
      else if offset = VIRTIO_MMIO_QUEUE_NOTIFY then on_blk (\<lambda>b. b\<lparr>bk_kick := True\<rparr>) h
      else if offset = VIRTIO_MMIO_INTERRUPT_ACK then
        (let h = on_blk (\<lambda>b. b\<lparr>bk_interrupt_status := bk_interrupt_status b AND NOT v\<rparr>) h
         in if bk_interrupt_status (hv_blk h) = 0 then blk_line False h else h)
      else if offset = VIRTIO_MMIO_STATUS then
        (let h = on_blk (\<lambda>b. b\<lparr>bk_status := v\<rparr>) h
         in if v = 0 then
              blk_line False
                (on_blk (\<lambda>b. b\<lparr>bk_live := False, bk_interrupt_status := 0,
                               bk_last_avail := 0\<rparr>) h)
            else h)
      else h)"

definition hyp_virtio_blk_poll :: "hyp \<Rightarrow> hyp" where
  "hyp_virtio_blk_poll h =
     (if bk_irq (hv_blk h) then
        blk_line True
          (on_blk (\<lambda>b. b\<lparr>bk_irq := False,
                         bk_interrupt_status := bk_interrupt_status b OR 1\<rparr>) h)
      else h)"

section \<open>Configuration space\<close>

lemma bytes_of_word:
  "ucast (ucast (ucast (x :: u32) :: u64) :: u8) OR
   push_bit 8 (ucast (ucast (drop_bit 8 (ucast x :: u64)) :: u8)) OR
   push_bit 16 (ucast (ucast (drop_bit 16 (ucast x :: u64)) :: u8)) OR
   push_bit 24 (ucast (ucast (drop_bit 24 (ucast x :: u64)) :: u8)) = x" (is "?l = x")
proof (rule u32_eqI)
  fix n :: nat assume "n < 32"
  then consider "n < 8" | "8 \<le> n" "n < 16" | "16 \<le> n" "n < 24" | "24 \<le> n" "n < 32" by linarith
  then show "bit ?l n = bit x n"
    by cases (auto simp: bit_simps)
qed

lemma high_bytes_zero: "32 \<le> k \<Longrightarrow> (ucast (drop_bit k (ucast (x :: u32) :: u64)) :: u8) = 0"
  by (intro bit_word_eqI) (auto simp: bit_simps dest: bit_imp_le_length)

lemma blk_config_word:
  "blk_config_loop h b 0 4 acc = blk_config_loop h b 0 (Suc (Suc (Suc (Suc 0)))) acc"
  by (simp add: eval_nat_numeral)

lemma blk_config_one_byte:
  assumes "i < 8"
  shows "fst (hyp_virtio_blk_read (0x100 + of_nat i) 1 h) =
    ucast (ucast (drop_bit (8 * i) (ucast (hyp_sd_sector_count h) :: u64)) :: u8)"
proof -
  from assms have "of_nat i < (8::u32)" "unat (of_nat i :: u32) = i"
      "\<not> (0x100 + of_nat i < (0x100::u32))"
    by (auto simp: word_less_nat_alt unat_of_nat unat_word_ariths)
  then show ?thesis
    by (simp add: hyp_virtio_blk_read_def blk_config_byte_def word_less_nat_alt word_le_nat_alt)
qed

text \<open>
  The capacity is readable at any width. Eight one-byte reads, which is how the legacy driver
  fetches a 64-bit field, give the eight bytes of the sector count in little-endian order, and two
  word reads give its low and high halves (the high half is zero because the count is 32 bits).
\<close>

theorem virtio_config_capacity:
  "map (\<lambda>i. fst (hyp_virtio_blk_read (0x100 + of_nat i) 1 h)) [0..<8] =
     map (\<lambda>i. ucast (ucast (drop_bit (8 * i) (ucast (hyp_sd_sector_count h) :: u64)) :: u8)) [0..<8] \<and>
   fst (hyp_virtio_blk_read 0x100 4 h) = hyp_sd_sector_count h \<and>
   fst (hyp_virtio_blk_read 0x104 4 h) = 0"
proof (intro conjI map_cong refl)
  show "fst (hyp_virtio_blk_read 0x100 4 h) = hyp_sd_sector_count h"
    by (simp add: hyp_virtio_blk_read_def blk_config_word blk_config_byte_def bytes_of_word or.assoc)
  show "fst (hyp_virtio_blk_read 0x104 4 h) = 0"
    by (simp add: hyp_virtio_blk_read_def blk_config_word blk_config_byte_def high_bytes_zero)
qed (simp add: blk_config_one_byte)

end
