(* ===== verification/Hyp_Devices.thy ===== *)
theory Hyp_Devices
  imports Hyp_Clint Hyp_Uart Hyp_Virtio
begin

text \<open>
  The contract between the trap handler and the four emulated devices. A device is a pair of
  accessors, as a row of \<open>mmio_devices[]\<close> is; the locale \<open>mmio_device\<close> says what every pair
  promises: it keeps the wiring invariant between the devices and the interrupt controller, and
  it leaves the processor's share of the state alone. The CLINT, the 16550, the PLIC and the
  virtio block device are its four interpretations.
\<close>

section \<open>The PLIC's read accessor, on the monitor's state\<close>

definition plic_mmio_read :: "u32 \<Rightarrow> u32 \<Rightarrow> hyp \<Rightarrow> u32 \<times> hyp" where
  "plic_mmio_read offset width h =
     (let (v, p) = plic_read offset width (hv_plic h) in (v, h\<lparr>hv_plic := p\<rparr>))"

section \<open>The wiring invariant\<close>

text \<open>
  Only the two wired sources are ever pending or in service; the receive ring's indices are in
  range; the interrupt status of the block device has only its used-ring bit; its queue is live
  only when there is a card.
\<close>

definition wiring :: "plic \<Rightarrow> u32 \<Rightarrow> bool" where
  "wiring p i \<longleftrightarrow>
     (\<forall>n. bit (pl_pending p) n \<longrightarrow> n = 10 \<or> n = 11) \<and>
     (\<forall>n. bit (pl_claimed p) n \<longrightarrow> n = 10 \<or> n = 11) \<and>
     (bit (pl_pending p) 11 \<longrightarrow> i \<noteq> 0) \<and> (\<forall>n. bit i n \<longrightarrow> n = 0)"

text \<open>
  The UART's line is level triggered: whenever it is high its source is pending or already in
  service (nothing is lost), and when it is low the source is not pending (nothing is spurious).
\<close>

definition uart_wired :: "uart \<Rightarrow> plic \<Rightarrow> bool" where
  "uart_wired u p \<longleftrightarrow>
     (bit (pl_pending p) 10 \<longrightarrow> uart_line u) \<and>
     (uart_line u \<longrightarrow> bit (pl_pending p) 10 \<or> bit (pl_claimed p) 10)"

definition dev_inv :: "hyp \<Rightarrow> bool" where
  "dev_inv h \<longleftrightarrow>
     uart_wf (hv_uart h) \<and> wiring (hv_plic h) (bk_interrupt_status (hv_blk h)) \<and>
     uart_wired (hv_uart h) (hv_plic h) \<and> (bk_live (hv_blk h) \<longrightarrow> hv_sd_ready h)"

text \<open>Core 1 only ever raises the flag that wakes the block task; it never takes it back.\<close>

definition kick_kept :: "hyp \<Rightarrow> hyp \<Rightarrow> bool" where
  "kick_kept h h' \<longleftrightarrow> (bk_kick (hv_blk h) \<longrightarrow> bk_kick (hv_blk h'))"

lemma kick_kept_refl [simp]: "kick_kept h h"
  by (simp add: kick_kept_def)

lemma kick_kept_trans [trans]: "kick_kept h h1 \<Longrightarrow> kick_kept h1 h2 \<Longrightarrow> kick_kept h h2"
  by (simp add: kick_kept_def)

lemma kick_kept_frame [simp]:
  "kick_kept h (h'\<lparr>hv_stats := s\<rparr>) = kick_kept h h'" "kick_kept (h\<lparr>hv_stats := s\<rparr>) h' = kick_kept h h'"
  by (simp_all add: kick_kept_def)

lemma kick_kept_same: "bk_kick (hv_blk h') = bk_kick (hv_blk h) \<Longrightarrow> kick_kept h h'"
  by (simp add: kick_kept_def)

section \<open>The contract\<close>

locale mmio_device =
  fixes rd :: "u32 \<Rightarrow> u32 \<Rightarrow> hyp \<Rightarrow> u32 \<times> hyp"
    and wr :: "u32 \<Rightarrow> u32 \<Rightarrow> u32 \<Rightarrow> hyp \<Rightarrow> hyp"
  assumes rd_cpu: "cpu_view (snd (rd off w h)) = cpu_view h"
    and wr_cpu: "cpu_view (wr off v w h) = cpu_view h"
    and rd_inv: "dev_inv h \<Longrightarrow> dev_inv (snd (rd off w h))"
    and wr_inv: "dev_inv h \<Longrightarrow> dev_inv (wr off v w h)"
    and rd_kick: "kick_kept h (snd (rd off w h))"
    and wr_kick: "kick_kept h (wr off v w h)"

section \<open>How the parts move\<close>

lemma dev_inv_frame [simp, frame_simps]:
  "dev_inv (hw c h) = dev_inv h" "dev_inv (tick h) = dev_inv h"
  "dev_inv (hyp_arm_timer h) = dev_inv h" "dev_inv (h\<lparr>hv_mtimecmp := x\<rparr>) = dev_inv h"
  "dev_inv (h\<lparr>hv_host := y\<rparr>) = dev_inv h" "dev_inv (snd (rv_utils_get_cycle_count h)) = dev_inv h"
  by (simp_all add: dev_inv_def hyp_arm_timer_eq)

lemma cpu_view_tick [simp, frame_simps]:
  "cpu_view (tick h) = cpu_view h" "cpu_view (hyp_arm_timer h) = cpu_view h"
  "cpu_view (v16550_reeval h) = cpu_view h" "cpu_view (blk_line a h) = cpu_view h"
  by (simp_all add: tick_def hyp_arm_timer_eq v16550_reeval_def blk_line_def)

lemma dev_inv_cpu [simp, frame_simps]:
  "dev_inv (h\<lparr>hv_shadow := a\<rparr>) = dev_inv h" "dev_inv (h\<lparr>hv_stats := b\<rparr>) = dev_inv h"
  "dev_inv (h\<lparr>hv_trace := c\<rparr>) = dev_inv h" "dev_inv (h\<lparr>hv_priv := d\<rparr>) = dev_inv h"
  "dev_inv (h\<lparr>hv_pmpcfg := e\<rparr>) = dev_inv h" "dev_inv (h\<lparr>hv_pmpaddr := f\<rparr>) = dev_inv h"
  "dev_inv (h\<lparr>hv_idle_cycles := g\<rparr>) = dev_inv h" "dev_inv (h\<lparr>hv_in_wfi := i\<rparr>) = dev_inv h"
  "dev_inv (h\<lparr>hv_stats_wanted := j\<rparr>) = dev_inv h" "dev_inv (h\<lparr>hv_mem := k\<rparr>) = dev_inv h"
  "dev_inv (h\<lparr>hv_running := l\<rparr>) = dev_inv h"
  by (simp_all add: dev_inv_def)

text \<open>Re-evaluating the line re-establishes the UART half, whatever happened to the UART.\<close>

lemma wiring_uart_line:
  "wiring p i \<Longrightarrow> wiring (plic_set_pending 10 a p) i"
  by (auto simp: wiring_def plic_set_pending_bits split: if_splits)

lemma dev_inv_reeval:
  assumes "uart_wf (hv_uart h)" "wiring (hv_plic h) (bk_interrupt_status (hv_blk h))"
    "bk_live (hv_blk h) \<longrightarrow> hv_sd_ready h"
  shows "dev_inv (v16550_reeval h)"
  using assms
  by (auto simp: dev_inv_def v16550_reeval_def wiring_uart_line uart_wired_def plic_set_pending_bits)

lemma uart_line_depends:
  "ua_ier u = ua_ier u' \<Longrightarrow> ua_head u = ua_head u' \<Longrightarrow> ua_tail u = ua_tail u' \<Longrightarrow>
     uart_line u = uart_line u'"
  by (simp add: uart_line_def uart_rx_empty_def)

text \<open>Register writes that touch neither the ring nor the interrupt enables.\<close>

lemma dev_inv_uart_keep:
  assumes "dev_inv h" "ua_ier (g (hv_uart h)) = ua_ier (hv_uart h)"
    "ua_head (g (hv_uart h)) = ua_head (hv_uart h)" "ua_tail (g (hv_uart h)) = ua_tail (hv_uart h)"
  shows "dev_inv (on_uart g h)"
proof -
  have "uart_line (g (hv_uart h)) = uart_line (hv_uart h)"
    using assms by (intro uart_line_depends)
  with assms show ?thesis by (simp add: dev_inv_def uart_wf_def uart_wired_def)
qed

section \<open>The CLINT\<close>

interpretation clint: mmio_device clint_read clint_write
proof
  show "cpu_view (snd (clint_read off w h)) = cpu_view h" for off w h
    by (simp add: clint_read_def hyp_mtime_eq)
  show "cpu_view (clint_write off v w h) = cpu_view h" for off v w h
    by (simp add: clint_write_def)
  show "dev_inv (snd (clint_read off w h))" if "dev_inv h" for off w h
    using that by (simp add: clint_read_def hyp_mtime_eq)
  show "dev_inv (clint_write off v w h)" if "dev_inv h" for off v w h
    using that by (simp add: clint_write_def)
  show "kick_kept h (snd (clint_read off w h))" for off w h
    by (simp add: clint_read_def hyp_mtime_eq kick_kept_same)
  show "kick_kept h (clint_write off v w h)" for off v w h
    by (simp add: clint_write_def hyp_arm_timer_def Let_def hw_def kick_kept_same)
qed

section \<open>The 16550\<close>

lemma uart_reg_read_cpu: "cpu_view (snd (uart_reg_read off h)) = cpu_view h"
  by (simp add: uart_reg_read_def Let_def case_prod_beta)

lemma uart_transmit_facts:
  "cpu_view (uart_transmit v h) = cpu_view h" "dev_inv h \<Longrightarrow> dev_inv (uart_transmit v h)"
  by (auto simp: uart_transmit_def Let_def intro: dev_inv_uart_keep)

lemma uart_reg_write_cpu: "cpu_view (uart_reg_write off v h) = cpu_view h"
  by (simp add: uart_reg_write_def Let_def uart_transmit_facts)

lemma uart_reg_read_inv:
  assumes "dev_inv h"
  shows "dev_inv (snd (uart_reg_read off h))"
proof -
  have "dev_inv (v16550_reeval (h\<lparr>hv_uart := snd (rx_take (hv_uart h))\<rparr>))"
    using assms rx.wf_pop [of "hv_uart h"] by (intro dev_inv_reeval) (simp_all add: dev_inv_def)
  with assms show ?thesis
    by (simp add: uart_reg_read_def Let_def case_prod_beta uart_rx_pop_take)
qed

lemma uart_reg_write_inv:
  assumes "dev_inv h"
  shows "dev_inv (uart_reg_write off v h)"
proof -
  have parts: "uart_wf (hv_uart h)" "wiring (hv_plic h) (bk_interrupt_status (hv_blk h))"
    "bk_live (hv_blk h) \<longrightarrow> hv_sd_ready h"
    using assms by (simp_all add: dev_inv_def)
  have "dev_inv (v16550_reeval (on_uart (uart_rx_push v) h))"
    using parts by (intro dev_inv_reeval) (simp_all add: rx.wf_push)
  moreover have "dev_inv (v16550_reeval (uart_transmit v h))"
    using uart_transmit_facts(2) [OF assms, of v] by (intro dev_inv_reeval) (simp_all add: dev_inv_def)
  moreover have "dev_inv (v16550_reeval (on_uart (\<lambda>u. u\<lparr>ua_ier := v\<rparr>) h))"
    using parts by (intro dev_inv_reeval) (simp_all add: uart_wf_def)
  moreover note keep = dev_inv_uart_keep [OF assms]
  ultimately show ?thesis
    by (simp add: uart_reg_write_def Let_def keep [where g = "\<lambda>u. u\<lparr>ua_dll := v\<rparr>"]
        keep [where g = "\<lambda>u. u\<lparr>ua_dlm := v\<rparr>"] keep [where g = "\<lambda>u. u\<lparr>ua_fcr := v\<rparr>"]
        keep [where g = "\<lambda>u. u\<lparr>ua_lcr := v\<rparr>"] keep [where g = "\<lambda>u. u\<lparr>ua_mcr := v\<rparr>"]
        keep [where g = "\<lambda>u. u\<lparr>ua_scr := v\<rparr>"] assms)
qed

lemma uart_read_loop_facts:
  "cpu_view (snd (uart_read_loop off i n acc h)) = cpu_view h"
  "dev_inv h \<Longrightarrow> dev_inv (snd (uart_read_loop off i n acc h))"
  by (induction off i n acc h rule: uart_read_loop.induct)
     (auto simp: uart_reg_read_cpu uart_reg_read_inv Let_def case_prod_beta)

lemma uart_write_loop_facts:
  "cpu_view (uart_write_loop off v i n h) = cpu_view h"
  "dev_inv h \<Longrightarrow> dev_inv (uart_write_loop off v i n h)"
  by (induction off v i n h rule: uart_write_loop.induct)
     (auto simp: uart_reg_write_cpu uart_reg_write_inv)

lemma uart_loop_blk:
  "hv_blk (snd (uart_read_loop off i n acc h)) = hv_blk h"
  "hv_blk (uart_write_loop off v i n h) = hv_blk h"
proof -
  have "hv_blk (snd (uart_reg_read off h)) = hv_blk h" "hv_blk (uart_reg_write off v h) = hv_blk h" for off v h
    by (simp_all add: uart_reg_read_def uart_reg_write_def uart_transmit_def v16550_reeval_def hw_def Let_def
        case_prod_beta)
  then show "hv_blk (snd (uart_read_loop off i n acc h)) = hv_blk h"
    "hv_blk (uart_write_loop off v i n h) = hv_blk h"
    by (induction n arbitrary: i acc h) (simp_all add: Let_def case_prod_beta)
qed

interpretation uart: mmio_device uart_read uart_write
  by unfold_locales
     (simp_all add: uart_read_def uart_write_def uart_read_loop_facts uart_write_loop_facts uart_loop_blk kick_kept_same)

section \<open>The PLIC\<close>

lemma dev_inv_plic_regs:
  assumes "dev_inv h" "pl_pending (g (hv_plic h)) = pl_pending (hv_plic h)"
    "pl_claimed (g (hv_plic h)) = pl_claimed (hv_plic h)"
  shows "dev_inv (on_plic g h)"
  using assms by (simp add: dev_inv_def wiring_def uart_wired_def)

lemma plic_claim_wired:
  assumes "wiring p i" "uart_wired u p" "plic_peek p \<noteq> 0"
  defines "p' \<equiv> p\<lparr>pl_pending := pl_pending p AND NOT (2 ^ unat (plic_peek p)),
                   pl_claimed := pl_claimed p OR 2 ^ unat (plic_peek p)\<rparr>"
  shows "wiring p' i \<and> uart_wired u p'"
proof -
  have "bit (pl_pending p) (unat (plic_peek p))" "unat (plic_peek p) < 32"
    using plic_peek_cases [of p] assms(3) by (auto simp: eligible_def)
  with assms show ?thesis
    by (auto simp: wiring_def uart_wired_def flag_simps)
qed

lemma plic_read_inv: "dev_inv h \<Longrightarrow> dev_inv (snd (plic_mmio_read off w h))"
  using plic_claim_wired [of "hv_plic h" "bk_interrupt_status (hv_blk h)" "hv_uart h"]
  by (auto simp: plic_mmio_read_def plic_read_def Let_def dev_inv_def)

text \<open>Completion takes a source out of service; for the UART the line is sampled again.\<close>

lemma wiring_complete:
  "wiring p i \<Longrightarrow> wiring (p\<lparr>pl_claimed := pl_claimed p AND NOT (2 ^ s)\<rparr>) i"
  by (auto simp: wiring_def flag_simps)

lemma dev_inv_complete:
  fixes s :: u32
  assumes "dev_inv h"
    and "h' = on_plic (\<lambda>p. p\<lparr>pl_claimed := pl_claimed p AND NOT (2 ^ unat s)\<rparr>) h"
  shows "dev_inv (if s = 10 then v16550_reeval h' else h')"
proof (cases "s = 10")
  case True
  have "dev_inv (v16550_reeval h')"
    using assms by (intro dev_inv_reeval) (simp_all add: dev_inv_def wiring_complete)
  with True show ?thesis by simp
next
  case False
  then have "unat s \<noteq> 10" by (simp add: word_unat_eq_iff)
  with assms False show ?thesis
    by (auto simp: dev_inv_def wiring_complete uart_wired_def flag_simps)
qed

lemma plic_write_inv:
  assumes "dev_inv h"
  shows "dev_inv (plic_write off v w h)"
proof -
  note regs = dev_inv_plic_regs [OF assms]
  show ?thesis
    using assms dev_inv_complete [OF assms refl, of v]
    by (simp add: plic_write_def Let_def regs [where g = "\<lambda>p. p\<lparr>pl_enable := v\<rparr>"]
        regs [where g = "\<lambda>p. p\<lparr>pl_threshold := v\<rparr>"]
        regs [where g = "\<lambda>p. p\<lparr>pl_priority := (pl_priority p)(n := v)\<rparr>" for n])
qed

interpretation plic: mmio_device plic_mmio_read plic_write
proof
  show "cpu_view (snd (plic_mmio_read off w h)) = cpu_view h" for off w h
    by (simp add: plic_mmio_read_def case_prod_beta)
  show "cpu_view (plic_write off v w h) = cpu_view h" for off v w h
    by (simp add: plic_write_def Let_def)
  show "kick_kept h (snd (plic_mmio_read off w h))" for off w h
    by (simp add: plic_mmio_read_def case_prod_beta kick_kept_same)
  show "kick_kept h (plic_write off v w h)" for off v w h
    by (simp add: plic_write_def v16550_reeval_def Let_def kick_kept_same)
qed (simp_all add: plic_read_inv plic_write_inv)

section \<open>The virtio block device\<close>

lemma dev_inv_blk_keep:
  assumes "dev_inv h" "bk_interrupt_status (g (hv_blk h)) = bk_interrupt_status (hv_blk h)"
    "bk_live (g (hv_blk h)) \<Longrightarrow> bk_live (hv_blk h) \<or> hv_sd_ready h"
  shows "dev_inv (on_blk g h)"
  using assms by (auto simp: dev_inv_def)

lemma blk_line_uart_wired:
  "uart_wired u (plic_set_pending 11 a p) = uart_wired u p"
  by (simp add: uart_wired_def plic_set_pending_bits)

text \<open>The line drops exactly when the status is cleared.\<close>

lemma dev_inv_blk_ack:
  assumes "dev_inv h" "\<And>n. bit (bk_interrupt_status (g (hv_blk h))) n \<Longrightarrow> n = 0"
    "bk_live (g (hv_blk h)) \<Longrightarrow> bk_live (hv_blk h)"
  shows "dev_inv (if bk_interrupt_status (g (hv_blk h)) = 0 then blk_line False (on_blk g h)
                  else on_blk g h)"
  using assms
  by (auto simp: dev_inv_def blk_line_def wiring_def plic_set_pending_bits blk_line_uart_wired)

lemma blk_write_inv:
  assumes "dev_inv h"
  shows "dev_inv (hyp_virtio_blk_write off v w h)"
proof -
  have st: "bit (bk_interrupt_status (hv_blk h)) n \<Longrightarrow> n = 0" for n
    using assms by (simp add: dev_inv_def wiring_def)
  note keep = dev_inv_blk_keep [OF assms]
  have ack: "dev_inv (if bk_interrupt_status (hv_blk h) AND NOT v = 0
        then blk_line False (on_blk (\<lambda>b. b\<lparr>bk_interrupt_status := bk_interrupt_status b AND NOT v\<rparr>) h)
        else on_blk (\<lambda>b. b\<lparr>bk_interrupt_status := bk_interrupt_status b AND NOT v\<rparr>) h)"
    using dev_inv_blk_ack [OF assms,
        of "\<lambda>b. b\<lparr>bk_interrupt_status := bk_interrupt_status b AND NOT v\<rparr>"] st
    by (auto simp: bit_and_iff)
  have reset: "dev_inv (blk_line False (on_blk (\<lambda>b. b\<lparr>bk_status := 0, bk_live := False,
        bk_interrupt_status := 0, bk_last_avail := 0\<rparr>) h))"
    using dev_inv_blk_ack [OF assms, of "\<lambda>b. b\<lparr>bk_status := 0, bk_live := False,
        bk_interrupt_status := 0, bk_last_avail := 0\<rparr>"] by simp
  show ?thesis
    unfolding hyp_virtio_blk_write_def Let_def
    using ack reset by (auto intro!: keep assms simp: hyp_sd_ready_def)
qed

interpretation vblk: mmio_device hyp_virtio_blk_read hyp_virtio_blk_write
proof
  show "cpu_view (snd (hyp_virtio_blk_read off w h)) = cpu_view h" for off w h
    by (simp add: hyp_virtio_blk_read_def)
  show "cpu_view (hyp_virtio_blk_write off v w h) = cpu_view h" for off v w h
    by (simp add: hyp_virtio_blk_write_def Let_def)
  show "dev_inv (snd (hyp_virtio_blk_read off w h))" if "dev_inv h" for off w h
    using that by (simp add: hyp_virtio_blk_read_def)
  show "kick_kept h (snd (hyp_virtio_blk_read off w h))" for off w h
    by (simp add: hyp_virtio_blk_read_def)
  show "kick_kept h (hyp_virtio_blk_write off v w h)" for off v w h
    by (simp add: hyp_virtio_blk_write_def blk_line_def Let_def kick_kept_def)
qed (rule blk_write_inv)

lemma or_one_nonzero: "(x :: u32) OR 1 \<noteq> 0"
  by (metis bit_or_iff bit_1_0 bit_0_eq bot_apply bot_bool_def)

lemma blk_poll_facts:
  "cpu_view (hyp_virtio_blk_poll h) = cpu_view h"
  "dev_inv h \<Longrightarrow> dev_inv (hyp_virtio_blk_poll h)"
proof -
  show "cpu_view (hyp_virtio_blk_poll h) = cpu_view h"
    by (simp add: hyp_virtio_blk_poll_def)
  assume "dev_inv h"
  then show "dev_inv (hyp_virtio_blk_poll h)"
    by (auto simp: hyp_virtio_blk_poll_def blk_line_def dev_inv_def blk_line_uart_wired wiring_def
        plic_set_pending_bits bit_or_iff bit_1_iff or_one_nonzero)
qed

lemma dev_inv_reset: "dev_inv (reset_hyp hst m)"
  by (simp add: dev_inv_def reset_defs uart_wf_def UART_RX_RING_SIZE_def wiring_def uart_wired_def
      uart_line_def)

section \<open>Level and edge\<close>

text \<open>The guest's end of an interrupt: claim, and completion of what was claimed.\<close>

definition guest_claim :: "hyp \<Rightarrow> u32 \<times> hyp" where
  "guest_claim h = plic_mmio_read 0x200004 4 h"

definition guest_complete :: "u32 \<Rightarrow> hyp \<Rightarrow> hyp" where
  "guest_complete s h = plic_write 0x200004 s 4 h"

lemma guest_claim_eq:
  "guest_claim h = (plic_peek (hv_plic h), h\<lparr>hv_plic := snd (plic_claim (hv_plic h))\<rparr>)"
  by (simp add: guest_claim_def plic_mmio_read_def case_prod_beta plic_claim_def [symmetric]
      plic_claim_eq)

lemma guest_complete_pending:
  "bit (pl_pending (hv_plic (guest_complete s h))) n =
     (if n = 10 \<and> s = 10 \<and> bit (pl_claimed (hv_plic h)) 10 then uart_line (hv_uart h)
      else bit (pl_pending (hv_plic h)) n)"
  by (auto simp: guest_complete_def plic_write_def Let_def v16550_reeval_def plic_set_pending_bits
      flag_simps)

lemma guest_complete_claimed:
  "s \<noteq> 0 \<Longrightarrow> bit (pl_claimed (hv_plic (guest_complete s h))) n =
     (bit (pl_claimed (hv_plic h)) n \<and> n \<noteq> unat s)"
  by (auto simp: guest_complete_def plic_write_def Let_def v16550_reeval_def plic_set_pending_bits
      flag_simps word_le_nat_alt dest: bit_imp_le_length)

lemma guest_complete_frame:
  "pl_enable (hv_plic (guest_complete s h)) = pl_enable (hv_plic h)"
  "pl_priority (hv_plic (guest_complete s h)) = pl_priority (hv_plic h)"
  "pl_threshold (hv_plic (guest_complete s h)) = pl_threshold (hv_plic h)"
  "hv_blk (guest_complete s h) = hv_blk h"
  by (simp_all add: guest_complete_def plic_write_def Let_def v16550_reeval_def
      plic_set_pending_bits)

text \<open>
  C25. No console interrupt is lost. While the wiring invariant holds, a UART whose line is high
  and whose source the guest has enabled above its threshold is presented to the guest unless it
  is already in service, and completing it while the line is still high presents it again.
\<close>

theorem uart_interrupt_not_lost:
  assumes "dev_inv h" and "uart_line (hv_uart h)" and "bit (pl_enable (hv_plic h)) 10"
    and "pl_priority (hv_plic h) 10 > pl_threshold (hv_plic h)"
  shows "(\<not> bit (pl_claimed (hv_plic h)) 10 \<longrightarrow> meip_pending (hv_plic h)) \<and>
         meip_pending (hv_plic (guest_complete 10 h))"
proof -
  have eligible: "eligible p 10 \<Longrightarrow> meip_pending p" for p
    using plic_peek_cases [of p] by (auto simp: meip_pending_def)
  have "eligible (hv_plic h) 10" if "\<not> bit (pl_claimed (hv_plic h)) 10"
    using assms that by (auto simp: eligible_def dev_inv_def uart_wired_def)
  moreover have "eligible (hv_plic (guest_complete 10 h)) 10"
    using assms
    by (auto simp: eligible_def guest_complete_pending guest_complete_claimed guest_complete_frame
        dev_inv_def uart_wired_def)
  ultimately show ?thesis using eligible by blast
qed

definition demo_console :: hyp where
  "demo_console = demo_hyp\<lparr>
     hv_uart := reset_uart\<lparr>ua_ier := 2\<rparr>,
     hv_plic := reset_plic\<lparr>pl_priority := (\<lambda>_. 1), pl_enable := 0xC00, pl_claimed := 0x400\<rparr>\<rparr>"

text \<open>The transmit interrupt, in service: completing it presents it again at once.\<close>

theorem uart_interrupt_not_lost_witness:
  "\<not> meip_pending (hv_plic demo_console) \<and> meip_pending (hv_plic (guest_complete 10 demo_console))"
proof -
  have "\<not> eligible (hv_plic demo_console) n" for n
    by (simp add: demo_console_def reset_defs eligible_def)
  then have "\<not> meip_pending (hv_plic demo_console)"
    using plic_peek_cases [of "hv_plic demo_console"] by (auto simp: meip_pending_def)
  moreover have "bit (0x400 :: int) n = (n = 10)" for n
    by (rule bit_numeral_masks)
  then have "dev_inv demo_console"
    by (simp add: demo_console_def demo_hyp_def reset_defs dev_inv_def uart_wf_def UART_RX_RING_SIZE_def
        wiring_def uart_wired_def uart_line_def)
  then have "meip_pending (hv_plic (guest_complete 10 demo_console))"
    using uart_interrupt_not_lost [of demo_console]
    by (simp add: demo_console_def reset_defs uart_line_def)
  ultimately show ?thesis by blast
qed

text \<open>
  The block device's source, unlike the UART's, is not sampled again on completion: a driver
  that claims its interrupt and completes it without acknowledging it at the device is not
  interrupted again, although the device's interrupt status is still set (a level-triggered
  source would still be pending). The same holds however often core 0's completion was polled.
\<close>

theorem vblk_completion_not_resampled:
  assumes "fst (guest_claim h) = 11" and "wiring (hv_plic h) (bk_interrupt_status (hv_blk h))"
  shows "bk_interrupt_status (hv_blk (guest_complete 11 (snd (guest_claim h)))) \<noteq> 0 \<and>
         \<not> bit (pl_pending (hv_plic (guest_complete 11 (snd (guest_claim h))))) 11 \<and>
         \<not> bit (pl_claimed (hv_plic (guest_complete 11 (snd (guest_claim h))))) 11"
proof -
  have peek: "plic_peek (hv_plic h) = 11"
    using assms by (simp add: guest_claim_eq)
  then have "bit (pl_pending (hv_plic h)) 11"
    using plic_peek_cases [of "hv_plic h"] by (simp add: eligible_def)
  with assms(2) have "bk_interrupt_status (hv_blk h) \<noteq> 0"
    by (simp add: wiring_def)
  then show ?thesis
    using peek
    by (simp add: guest_complete_pending guest_complete_claimed guest_complete_frame guest_claim_eq
        plic_claim_eq) (simp add: bit_and_iff bit_not_iff)
qed

definition demo_disk :: hyp where
  "demo_disk = hyp_virtio_blk_poll
     (demo_hyp\<lparr>hv_blk := reset_blk\<lparr>bk_irq := True\<rparr>,
               hv_plic := reset_plic\<lparr>pl_priority := (\<lambda>_. 1), pl_enable := 0xC00\<rparr>\<rparr>)"

theorem vblk_completion_not_resampled_witness:
  "bk_interrupt_status (hv_blk (guest_complete 11 (snd (guest_claim demo_disk)))) \<noteq> 0 \<and>
   \<not> bit (pl_pending (hv_plic (guest_complete 11 (snd (guest_claim demo_disk))))) 11"
proof -
  have "eligible (hv_plic demo_disk) n \<longleftrightarrow> n = 11" for n
    by (auto simp: demo_disk_def hyp_virtio_blk_poll_def blk_line_def reset_defs demo_hyp_def
        eligible_def plic_set_pending_bits)
  then have "unat (plic_peek (hv_plic demo_disk)) = 11"
    using plic_peek_cases [of "hv_plic demo_disk"] by auto
  then have "fst (guest_claim demo_disk) = 11"
    by (simp add: guest_claim_eq word_unat_eq_iff)
  moreover have "dev_inv demo_disk"
    unfolding demo_disk_def
    by (rule blk_poll_facts)
       (simp add: demo_hyp_def reset_defs dev_inv_def uart_wf_def UART_RX_RING_SIZE_def wiring_def
         uart_wired_def uart_line_def)
  ultimately show ?thesis
    using vblk_completion_not_resampled [of demo_disk] by (simp add: dev_inv_def)
qed

end
