(* ===== verification/Hyp_Intr.thy ===== *)
theory Hyp_Intr
  imports Hyp_Decode Hyp_Devices
begin

text \<open>
  \<open>main/hyp_intr.c\<close>: the \<open>mip\<close> register the guest sees, the choice of the interrupt to deliver,
  the injection of a trap into the guest, and the servicing of the host's own devices.
\<close>

section \<open>Operations\<close>

definition shadow_mip_read :: "hyp \<Rightarrow> u32 \<times> hyp" where
  "shadow_mip_read h =
     (let mip = cs_mip (hv_shadow h) AND NOT (MIP_MTIP OR MIP_MEIP);
          (timer, h) = mtip_pending h;
          mip = (if timer then mip OR MIP_MTIP else mip);
          mip = (if meip_pending (hv_plic h) then mip OR MIP_MEIP else mip)
      in (mip, h))"

text \<open>The clock is only read when the earlier, higher-priority tests have failed.\<close>

definition hyp_pending_cause :: "hyp \<Rightarrow> int \<times> hyp" where
  "hyp_pending_cause h =
     (let s = hv_shadow h in
      if cs_mstatus s AND MSTATUS_MIE = 0 then (-1, h)
      else if cs_mie s AND MIP_MEIP \<noteq> 0 \<and> meip_pending (hv_plic h) then (11, h)
      else if cs_mie s AND MIP_MSIP \<noteq> 0 \<and> cs_mip s AND MIP_MSIP \<noteq> 0 then (3, h)
      else if cs_mie s AND MIP_MTIP \<noteq> 0 then
        (let (timer, h) = mtip_pending h in (if timer then 7 else -1, h))
      else (-1, h))"

definition hyp_inject :: "frame \<Rightarrow> u32 \<Rightarrow> u32 \<Rightarrow> hyp \<Rightarrow> frame \<times> hyp" where
  "hyp_inject f cause tval h =
     (let status = cs_mstatus (hv_shadow h);
          status = (status AND NOT MSTATUS_MPIE) OR
                   (if status AND MSTATUS_MIE \<noteq> 0 then MSTATUS_MPIE else 0);
          status = status AND NOT MSTATUS_MIE;
          status = (status AND NOT MSTATUS_MPP) OR push_bit 11 (hv_priv h);
          h = on_shadow (\<lambda>s. s\<lparr>cs_mstatus := status, cs_mepc := fr_mepc f, cs_mcause := cause,
                               cs_mtval := tval\<rparr>) h;
          h = h\<lparr>hv_priv := PRIV_M\<rparr>;
          f = set_mepc (cs_mtvec (hv_shadow h) AND NOT 0x3) f
      in (f, on_stats (\<lambda>t. t\<lparr>st_injections := st_injections t + 1\<rparr>) h))"

definition hyp_deliver_pending :: "frame \<Rightarrow> hyp \<Rightarrow> frame \<times> hyp" where
  "hyp_deliver_pending f h =
     (let (cause, h) = hyp_pending_cause h in
      if cause < 0 \<or> cs_mtvec (hv_shadow h) = 0 then (f, h)
      else hyp_inject f (0x80000000 OR word_of_int cause) 0 h)"

text \<open>The bytes drained from the physical UART; Ctrl-^ asks for the statistics instead.\<close>

definition HYP_KEY_STATS_DUMP :: u8 where [simp]: "HYP_KEY_STATS_DUMP = 0x1e"

fun uart_drain :: "u8 list \<Rightarrow> hyp \<Rightarrow> hyp" where
  "uart_drain [] h = h"
| "uart_drain (c # cs) h =
     uart_drain cs
       (if c = HYP_KEY_STATS_DUMP then h\<lparr>hv_stats_wanted := True\<rparr> else on_uart (uart_rx_push c) h)"

definition hyp_poll_host_devices :: "hyp \<Rightarrow> hyp" where
  "hyp_poll_host_devices h =
     (let p = shd (in_poll (hv_host h));
          h = h\<lparr>hv_host := (hv_host h)\<lparr>in_poll := stl (in_poll (hv_host h))\<rparr>\<rparr>;
          h = (if hp_alarm p then hw Systimer_clear_alarm_int (hw (Systimer_enable_alarm False) h)
               else h);
          h = (if hp_rxfifo_full p \<or> hp_rxfifo_tout p \<or> hp_rxfifo_ovf p then
                 hw Uart_clr_rx_intsts (uart_drain (hp_rx p) h)
               else h);
          h = on_blk (\<lambda>b. b\<lparr>bk_irq := bk_irq b \<or> hp_completed p\<rparr>) h;
          h = hyp_virtio_blk_poll h
      in v16550_reeval h)"

section \<open>Interrupts by priority\<close>

text \<open>
  The three machine interrupts, ordered by the privileged architecture: external over software
  over timer.
\<close>

datatype guest_irq = MTI | MSI | MEI

fun irq_code :: "guest_irq \<Rightarrow> nat" where
  "irq_code MTI = 7"
| "irq_code MSI = 3"
| "irq_code MEI = 11"

fun irq_rank :: "guest_irq \<Rightarrow> nat" where
  "irq_rank MTI = 0"
| "irq_rank MSI = 1"
| "irq_rank MEI = 2"

instantiation guest_irq :: linorder
begin

definition less_eq_guest_irq :: "guest_irq \<Rightarrow> guest_irq \<Rightarrow> bool" where
  "less_eq_guest_irq a b \<longleftrightarrow> irq_rank a \<le> irq_rank b"

definition less_guest_irq :: "guest_irq \<Rightarrow> guest_irq \<Rightarrow> bool" where
  "less_guest_irq a b \<longleftrightarrow> irq_rank a < irq_rank b"

instance
proof
  fix x y z :: guest_irq
  show "(x < y) = (x \<le> y \<and> \<not> y \<le> x)"
    by (auto simp: less_eq_guest_irq_def less_guest_irq_def)
  show "x \<le> x" "x \<le> y \<or> y \<le> x"
    by (auto simp: less_eq_guest_irq_def)
  show "x \<le> z" if "x \<le> y" "y \<le> z"
    using that by (simp add: less_eq_guest_irq_def)
  show "x = y" if "x \<le> y" "y \<le> x"
    using that by (cases x; cases y) (simp_all add: less_eq_guest_irq_def)
qed

end

lemmas irq_order = less_eq_guest_irq_def less_guest_irq_def

text \<open>What the guest enabled in \<open>mie\<close> and what is pending, the clock and the PLIC included.\<close>

fun irq_pending :: "hyp \<Rightarrow> guest_irq \<Rightarrow> bool" where
  "irq_pending h MEI = meip_pending (hv_plic h)"
| "irq_pending h MSI = bit (cs_mip (hv_shadow h)) 3"
| "irq_pending h MTI = (now_is h \<ge> hv_mtimecmp h)"

definition deliverable :: "hyp \<Rightarrow> guest_irq set" where
  "deliverable h = {i. bit (cs_mie (hv_shadow h)) (irq_code i) \<and> irq_pending h i}"

lemma guest_irq_cases: "(\<forall>i. P i) \<longleftrightarrow> P MTI \<and> P MSI \<and> P MEI"
  by (metis guest_irq.exhaust)

lemma finite_irqs [simp]: "finite (S :: guest_irq set)"
proof (rule finite_subset)
  show "S \<subseteq> {MTI, MSI, MEI}" using guest_irq.exhaust by blast
qed simp

lemma Max_irqs:
  "MEI \<in> S \<Longrightarrow> Max S = MEI"
  "MEI \<notin> S \<Longrightarrow> MSI \<in> S \<Longrightarrow> Max S = MSI"
  "MEI \<notin> S \<Longrightarrow> MSI \<notin> S \<Longrightarrow> MTI \<in> S \<Longrightarrow> Max S = MTI"
proof -
  have le: "i \<le> MEI" "i \<noteq> MEI \<Longrightarrow> i \<le> MSI" for i
    by (cases i; simp add: irq_order)+
  show "MEI \<in> S \<Longrightarrow> Max S = MEI"
    by (rule Max_eqI) (auto intro: le)
  show "MEI \<notin> S \<Longrightarrow> MSI \<in> S \<Longrightarrow> Max S = MSI"
    by (rule Max_eqI) (auto intro: le)
  assume "MEI \<notin> S" "MSI \<notin> S" "MTI \<in> S"
  then have "S = {MTI}" using guest_irq.exhaust by blast
  then show "Max S = MTI" by simp
qed

lemma deliverable_mem:
  "MEI \<in> deliverable h \<longleftrightarrow> bit (cs_mie (hv_shadow h)) 11 \<and> meip_pending (hv_plic h)"
  "MSI \<in> deliverable h \<longleftrightarrow> bit (cs_mie (hv_shadow h)) 3 \<and> bit (cs_mip (hv_shadow h)) 3"
  "MTI \<in> deliverable h \<longleftrightarrow> bit (cs_mie (hv_shadow h)) 7 \<and> now_is h \<ge> hv_mtimecmp h"
  by (simp_all add: deliverable_def)

lemma deliverable_empty:
  "deliverable h = {} \<longleftrightarrow> MEI \<notin> deliverable h \<and> MSI \<notin> deliverable h \<and> MTI \<notin> deliverable h"
  using guest_irq_cases [of "\<lambda>i. i \<notin> deliverable h"] by blast

lemma pending_cause_highest:
  "fst (hyp_pending_cause h) =
     (if \<not> bit (cs_mstatus (hv_shadow h)) 3 \<or> deliverable h = {} then -1
      else int (irq_code (Max (deliverable h))))"
  unfolding deliverable_empty
  by (auto simp: hyp_pending_cause_def Let_def flag_simps mtip_pending_eq Max_irqs deliverable_mem)

text \<open>
  The interrupt that is delivered: none while the guest's global enable is off or nothing
  enabled is pending, and otherwise the highest-priority one of those that are both pending and
  enabled, in the order external, software, timer.
\<close>

theorem hyp_pending_cause_highest:
  "fst (hyp_pending_cause h) =
     (if bit (cs_mstatus (hv_shadow h)) 3 \<and> deliverable h \<noteq> {}
      then int (irq_code (Max (deliverable h))) else -1)"
  by (simp add: pending_cause_highest)

lemma hyp_pending_cause_state:
  "snd (hyp_pending_cause h) = h \<or> snd (hyp_pending_cause h) = tick h"
  by (simp add: hyp_pending_cause_def Let_def mtip_pending_eq)

lemma hyp_pending_cause_range: "fst (hyp_pending_cause h) \<in> {-1, 3, 7, 11}"
  by (simp add: hyp_pending_cause_def Let_def mtip_pending_eq)

section \<open>Injection\<close>

text \<open>
  The state change of a trap into the guest, as the privileged architecture defines it for
  hardware: \<open>MPIE\<close> takes \<open>MIE\<close>, \<open>MIE\<close> is cleared, \<open>MPP\<close> takes the privilege, and every other
  bit of \<open>mstatus\<close> is kept.
\<close>

definition trap_entry_bit :: "u32 \<Rightarrow> u32 \<Rightarrow> nat \<Rightarrow> bool" where
  "trap_entry_bit mstatus priv n =
     (if n = 3 then False else if n = 7 then bit mstatus 3
      else if n = 11 then bit priv 0 else if n = 12 then bit priv 1 else bit mstatus n)"

lemma small_priv_bits: "(p :: u32) \<le> 3 \<Longrightarrow> bit p n \<Longrightarrow> n = 0 \<or> n = 1"
proof -
  assume "p \<le> 3" and b: "bit p n"
  then have "take_bit 2 p = p"
    by (simp add: take_bit_eq_mod word_le_nat_alt word_unat_eq_iff unat_mod)
  with b have "n < 2" by (metis bit_take_bit_iff)
  then show ?thesis by auto
qed

lemma bit_priv_field:
  "(p :: u32) \<le> 3 \<Longrightarrow> bit (push_bit 11 p) n = (n = 11 \<and> bit p 0 \<or> n = 12 \<and> bit p 1)"
proof (cases "n < 11")
  case False
  assume "p \<le> 3"
  from False obtain k where "n = 11 + k" using le_Suc_ex not_less by blast
  with small_priv_bits [OF \<open>p \<le> 3\<close>, of k] show ?thesis
    by (auto simp: bit_push_bit_iff)
qed (auto simp: bit_push_bit_iff)

lemma hyp_inject_mstatus:
  assumes "hv_priv h \<le> 3"
  shows "bit (cs_mstatus (hv_shadow (snd (hyp_inject f c t h)))) n =
           trap_entry_bit (cs_mstatus (hv_shadow h)) (hv_priv h) n"
  by (auto simp: hyp_inject_def Let_def trap_entry_bit_def flag_simps bit_or_iff
      bit_priv_field [OF assms])

lemma hyp_inject_rest:
  "fst (hyp_inject f c t h) = set_mepc (cs_mtvec (hv_shadow h) AND NOT 0x3) f"
  "cs_mepc (hv_shadow (snd (hyp_inject f c t h))) = fr_mepc f"
  "cs_mcause (hv_shadow (snd (hyp_inject f c t h))) = c"
  "cs_mtval (hv_shadow (snd (hyp_inject f c t h))) = t"
  "cs_mie (hv_shadow (snd (hyp_inject f c t h))) = cs_mie (hv_shadow h)"
  "cs_mip (hv_shadow (snd (hyp_inject f c t h))) = cs_mip (hv_shadow h)"
  "cs_mtvec (hv_shadow (snd (hyp_inject f c t h))) = cs_mtvec (hv_shadow h)"
  "cs_mscratch (hv_shadow (snd (hyp_inject f c t h))) = cs_mscratch (hv_shadow h)"
  "hv_priv (snd (hyp_inject f c t h)) = PRIV_M"
  "st_injections (hv_stats (snd (hyp_inject f c t h))) = st_injections (hv_stats h) + 1"
  by (simp_all add: hyp_inject_def Let_def)

lemma hyp_inject_frame [simp, frame_simps]:
  "hv_host (snd (hyp_inject f c t h)) = hv_host h" "hv_mem (snd (hyp_inject f c t h)) = hv_mem h"
  "hv_running (snd (hyp_inject f c t h)) = hv_running h"
  "hv_mtimecmp (snd (hyp_inject f c t h)) = hv_mtimecmp h"
  "hv_plic (snd (hyp_inject f c t h)) = hv_plic h" "hv_uart (snd (hyp_inject f c t h)) = hv_uart h"
  "hv_blk (snd (hyp_inject f c t h)) = hv_blk h"
  "hv_trace (snd (hyp_inject f c t h)) = hv_trace h"
  "hv_in_wfi (snd (hyp_inject f c t h)) = hv_in_wfi h"
  "hv_idle_cycles (snd (hyp_inject f c t h)) = hv_idle_cycles h"
  "dev_inv (snd (hyp_inject f c t h)) = dev_inv h"
  by (simp_all add: hyp_inject_def Let_def)

text \<open>
  Injection is the architecture's trap entry, in software: \<open>mstatus\<close> changes exactly as
  hardware would change it, the interrupted pc, the cause and the trap value are parked in the
  guest's CSRs, the guest is in machine mode with interrupts off, and execution continues at the
  base of its trap vector. No general register of the guest and no other CSR changes.
\<close>

theorem hyp_inject_is_trap_entry:
  assumes "hv_priv h \<le> 3"
  shows "(\<forall>n. bit (cs_mstatus (hv_shadow (snd (hyp_inject f c t h)))) n =
                trap_entry_bit (cs_mstatus (hv_shadow h)) (hv_priv h) n) \<and>
         hv_shadow (snd (hyp_inject f c t h)) =
           (hv_shadow h)\<lparr>cs_mstatus := cs_mstatus (hv_shadow (snd (hyp_inject f c t h))),
                         cs_mepc := fr_mepc f, cs_mcause := c, cs_mtval := t\<rparr> \<and>
         hv_priv (snd (hyp_inject f c t h)) = PRIV_M \<and>
         fst (hyp_inject f c t h) = set_mepc (cs_mtvec (hv_shadow h) AND NOT 0x3) f"
  using hyp_inject_mstatus [OF assms] by (simp add: hyp_inject_def Let_def)

text \<open>A system call out of user mode, with interrupts on.\<close>

definition demo_guest :: hyp where
  "demo_guest = demo_hyp\<lparr>hv_priv := PRIV_U,
     hv_shadow := reset_shadow\<lparr>cs_mstatus := 0x8, cs_mtvec := 0x48100001\<rparr>\<rparr>"

theorem hyp_inject_is_trap_entry_witness:
  "hv_priv (snd (hyp_inject demo_frame 8 0 demo_guest)) = 3 \<and>
   fr_mepc (fst (hyp_inject demo_frame 8 0 demo_guest)) = 0x48100000 \<and>
   (\<forall>n. bit (cs_mstatus (hv_shadow (snd (hyp_inject demo_frame 8 0 demo_guest)))) n = (n = 7))"
proof -
  have "hv_priv demo_guest \<le> 3" by (simp add: demo_guest_def)
  note entry = hyp_inject_is_trap_entry [OF this, of demo_frame 8 0]
  have "trap_entry_bit (cs_mstatus (hv_shadow demo_guest)) (hv_priv demo_guest) n = (n = 7)" for n
    by (auto simp: trap_entry_bit_def demo_guest_def flag_simps)
  with entry show ?thesis by (simp add: demo_guest_def)
qed

section \<open>Delivery\<close>

lemma tick_shadow_updates:
  "snd (hyp_inject f c t (tick h)) = tick (snd (hyp_inject f c t h))"
  by (simp add: hyp_inject_def Let_def tick_def)

text \<open>Delivery either does nothing or injects the pending interrupt; the clock may be read.\<close>

lemma hyp_deliver_pending_cases:
  obtains (none) h' where "hyp_deliver_pending f h = (f, h')" "h' = h \<or> h' = tick h"
      "fst (hyp_pending_cause h) < 0 \<or> cs_mtvec (hv_shadow h) = 0"
    | (inject) h' c where "hyp_deliver_pending f h = hyp_inject f (0x80000000 OR c) 0 h'"
      "h' = h \<or> h' = tick h" "c \<in> {3, 7, 11}" "cs_mtvec (hv_shadow h) \<noteq> 0"
      "bit (cs_mstatus (hv_shadow h)) 3" "word_of_int (fst (hyp_pending_cause h)) = c"
proof (cases "fst (hyp_pending_cause h) < 0 \<or> cs_mtvec (hv_shadow h) = 0")
  case True
  moreover have "hv_shadow (snd (hyp_pending_cause h)) = hv_shadow h"
    using hyp_pending_cause_state [of h] by auto
  ultimately have "hyp_deliver_pending f h = (f, snd (hyp_pending_cause h))"
    by (auto simp: hyp_deliver_pending_def case_prod_beta)
  with True none hyp_pending_cause_state [of h] show ?thesis by blast
next
  case False
  have sh: "hv_shadow (snd (hyp_pending_cause h)) = hv_shadow h"
    using hyp_pending_cause_state [of h] by auto
  have "bit (cs_mstatus (hv_shadow h)) 3"
    using False by (auto simp: hyp_pending_cause_def Let_def flag_simps split: if_splits)
  moreover have "word_of_int (fst (hyp_pending_cause h)) \<in> {3, 7, 11 :: u32}"
    using False hyp_pending_cause_range [of h] by auto
  ultimately show ?thesis
    using False sh hyp_pending_cause_state [of h]
    by (intro inject [of "word_of_int (fst (hyp_pending_cause h))" "snd (hyp_pending_cause h)"])
       (auto simp: hyp_deliver_pending_def case_prod_beta)
qed

lemma hyp_inject_gate_shut: "hv_priv h \<le> 3 \<Longrightarrow> \<not> bit (cs_mstatus (hv_shadow (snd (hyp_inject f c t h)))) 3"
  by (simp add: hyp_inject_mstatus trap_entry_bit_def)

lemma gate_shut_pending: "\<not> bit (cs_mstatus (hv_shadow h)) 3 \<Longrightarrow> hyp_pending_cause h = (-1, h)"
  by (simp add: hyp_pending_cause_def Let_def flag_simps)

lemma hyp_deliver_shut: "\<not> bit (cs_mstatus (hv_shadow h)) 3 \<Longrightarrow> hyp_deliver_pending f h = (f, h)"
  by (simp add: hyp_deliver_pending_def gate_shut_pending)

text \<open>
  Delivery injects at most one interrupt, only with the guest's interrupts on and a trap
  vector set, with the interrupt bit set in the cause, and it cannot nest: right after a delivery
  the gate is shut, so delivering again is the identity until the guest opens it.
\<close>

theorem hyp_deliver_pending_once:
  assumes "hv_priv h \<le> 3" and "hyp_deliver_pending f h = (f', h')"
    and "st_injections (hv_stats h') \<noteq> st_injections (hv_stats h)"
  shows "st_injections (hv_stats h') = st_injections (hv_stats h) + 1 \<and>
         bit (cs_mstatus (hv_shadow h)) 3 \<and> cs_mtvec (hv_shadow h) \<noteq> 0 \<and>
         cs_mcause (hv_shadow h') \<in> {0x80000003, 0x80000007, 0x8000000B} \<and>
         cs_mepc (hv_shadow h') = fr_mepc f \<and>
         hyp_deliver_pending f' h' = (f', h')"
proof (cases rule: hyp_deliver_pending_cases [of f h])
  case (none h1)
  with assms show ?thesis by auto
next
  case (inject h1 c)
  then have h': "h' = snd (hyp_inject f (0x80000000 OR c) 0 h1)" and "hv_priv h1 \<le> 3"
    using assms(1,2) by (metis snd_conv, auto)
  then have "hyp_deliver_pending f' h' = (f', h')"
    by (simp add: hyp_deliver_shut hyp_inject_gate_shut)
  moreover have "hv_stats h1 = hv_stats h" using inject by auto
  ultimately show ?thesis
    using inject unfolding h' by (auto simp: hyp_inject_rest)
qed

text \<open>The timer of \<open>demo_guest\<close> fires: cause 0x80000007.\<close>

definition demo_timer :: hyp where
  "demo_timer = demo_guest\<lparr>hv_mtimecmp := 0,
     hv_shadow := (hv_shadow demo_guest)\<lparr>cs_mie := 0x80\<rparr>\<rparr>"

theorem hyp_deliver_pending_once_witness:
  "st_injections (hv_stats (snd (hyp_deliver_pending demo_frame demo_timer))) = 1 \<and>
   cs_mcause (hv_shadow (snd (hyp_deliver_pending demo_frame demo_timer)))
     \<in> {0x80000003, 0x80000007, 0x8000000B}"
proof -
  have pend: "hyp_pending_cause demo_timer = (7, tick demo_timer)"
    by (simp add: demo_timer_def demo_guest_def hyp_pending_cause_def Let_def mtip_pending_eq)
  have del: "hyp_deliver_pending demo_frame demo_timer =
      hyp_inject demo_frame (0x80000000 OR word_of_int 7) 0 (tick demo_timer)"
    by (simp add: hyp_deliver_pending_def pend) (simp add: demo_timer_def demo_guest_def)
  have one: "st_injections (hv_stats (snd (hyp_deliver_pending demo_frame demo_timer))) = 1"
    unfolding del by (simp add: hyp_inject_rest demo_timer_def demo_guest_def demo_hyp_def reset_defs)
  have "hv_priv demo_timer \<le> 3" "st_injections (hv_stats demo_timer) = 0"
    by (simp_all add: demo_timer_def demo_guest_def demo_hyp_def reset_defs)
  with one hyp_deliver_pending_once [OF _ prod.collapse [symmetric], of demo_timer demo_frame]
  show ?thesis by simp
qed

section \<open>Host devices\<close>

lemma uart_drain_eq:
  "uart_drain cs h =
     h\<lparr>hv_uart := fold uart_rx_push (filter (\<lambda>c. c \<noteq> 0x1e) cs) (hv_uart h),
       hv_stats_wanted := hv_stats_wanted h \<or> 0x1e \<in> set cs\<rparr>"
  by (induction cs arbitrary: h) auto

text \<open>Whether a poll finds something to receive.\<close>

definition rx_event :: "host_poll \<Rightarrow> bool" where
  "rx_event p \<longleftrightarrow> hp_rxfifo_full p \<or> hp_rxfifo_tout p \<or> hp_rxfifo_ovf p"

lemma poll_decompose:
  "hyp_poll_host_devices h =
     v16550_reeval (hyp_virtio_blk_poll (on_blk (\<lambda>b. b\<lparr>bk_irq := bk_irq b \<or> hp_completed p\<rparr>)
       (if rx_event p then hw Uart_clr_rx_intsts (uart_drain (hp_rx p) h1) else h1)))"
  if "p = shd (in_poll (hv_host h))"
    "h1 = (if hp_alarm p
           then hw Systimer_clear_alarm_int (hw (Systimer_enable_alarm False)
                 (h\<lparr>hv_host := (hv_host h)\<lparr>in_poll := stl (in_poll (hv_host h))\<rparr>\<rparr>))
           else h\<lparr>hv_host := (hv_host h)\<lparr>in_poll := stl (in_poll (hv_host h))\<rparr>\<rparr>)"
  unfolding that by (simp add: hyp_poll_host_devices_def Let_def rx_event_def)

lemma hyp_poll_cpu:
  "cpu_view (hyp_poll_host_devices h) =
     cpu_view (h\<lparr>hv_stats_wanted := hv_stats_wanted (hyp_poll_host_devices h)\<rparr>)"
  unfolding poll_decompose [OF refl refl]
  by (simp add: uart_drain_eq cpu_view_def v16550_reeval_def hyp_virtio_blk_poll_def blk_line_def)

lemma hyp_poll_frame [simp, frame_simps]:
  "hv_mem (hyp_poll_host_devices h) = hv_mem h"
  "hv_running (hyp_poll_host_devices h) = hv_running h"
  "hv_shadow (hyp_poll_host_devices h) = hv_shadow h"
  "hv_priv (hyp_poll_host_devices h) = hv_priv h"
  "hv_stats (hyp_poll_host_devices h) = hv_stats h"
  "hv_trace (hyp_poll_host_devices h) = hv_trace h"
  "hv_idle_cycles (hyp_poll_host_devices h) = hv_idle_cycles h"
  "hv_in_wfi (hyp_poll_host_devices h) = hv_in_wfi h"
  "hv_mtimecmp (hyp_poll_host_devices h) = hv_mtimecmp h"
  "hv_pmpcfg (hyp_poll_host_devices h) = hv_pmpcfg h"
  "hv_pmpaddr (hyp_poll_host_devices h) = hv_pmpaddr h"
  by (simp_all add: hyp_poll_host_devices_def Let_def uart_drain_eq v16550_reeval_def
      hyp_virtio_blk_poll_def blk_line_def)

lemma hyp_poll_kick [simp]: "bk_kick (hv_blk (hyp_poll_host_devices h)) = bk_kick (hv_blk h)"
  by (simp add: hyp_poll_host_devices_def Let_def uart_drain_eq v16550_reeval_def
      hyp_virtio_blk_poll_def blk_line_def)

lemma hyp_poll_inv [inv_intros]:
  assumes "dev_inv h"
  shows "dev_inv (hyp_poll_host_devices h)"
proof -
  define p where "p = shd (in_poll (hv_host h))"
  define h1 where "h1 = (if hp_alarm p
           then hw Systimer_clear_alarm_int (hw (Systimer_enable_alarm False)
                 (h\<lparr>hv_host := (hv_host h)\<lparr>in_poll := stl (in_poll (hv_host h))\<rparr>\<rparr>))
           else h\<lparr>hv_host := (hv_host h)\<lparr>in_poll := stl (in_poll (hv_host h))\<rparr>\<rparr>)"
  define h2 where "h2 = on_blk (\<lambda>b. b\<lparr>bk_irq := bk_irq b \<or> hp_completed p\<rparr>)
       (if rx_event p then hw Uart_clr_rx_intsts (uart_drain (hp_rx p) h1) else h1)"
  have wf: "uart_wf (hv_uart h2)"
    using assms by (simp add: h2_def h1_def uart_drain_eq dev_inv_def rx.wf_push_all)
  have wired: "wiring (hv_plic h2) (bk_interrupt_status (hv_blk h2))"
    using assms by (simp add: h2_def h1_def uart_drain_eq dev_inv_def)
  have "uart_wf (hv_uart (hyp_virtio_blk_poll h2))"
    using wf by (simp add: hyp_virtio_blk_poll_def blk_line_def)
  moreover have "wiring (hv_plic (hyp_virtio_blk_poll h2))
      (bk_interrupt_status (hv_blk (hyp_virtio_blk_poll h2)))"
    using wired by (auto simp: hyp_virtio_blk_poll_def blk_line_def wiring_def bit_or_iff bit_1_iff
        plic_set_pending_bits or_one_nonzero)
  moreover have "bk_live (hv_blk (hyp_virtio_blk_poll h2)) \<longrightarrow> hv_sd_ready (hyp_virtio_blk_poll h2)"
    using assms by (simp add: h2_def h1_def hyp_virtio_blk_poll_def blk_line_def uart_drain_eq dev_inv_def)
  ultimately show ?thesis
    unfolding poll_decompose [OF p_def h1_def] h2_def [symmetric] by (rule dev_inv_reeval)
qed

text \<open>
  Servicing the host is storm-proof and loses nothing: exactly the sources found asserted are
  acknowledged, in the order alarm (disarm, then clear) and receive interrupt; the drained bytes
  enter the guest's ring in order, except that Ctrl-^ is taken out and asks for the statistics
  instead; a completion by core 0 becomes a pending block-device interrupt; and the state of the
  guest's processor is untouched.
\<close>

theorem hyp_poll_host_devices_effect:
  "hv_uart (hyp_poll_host_devices h) =
     (if rx_event (shd (in_poll (hv_host h)))
      then fold uart_rx_push (filter (\<lambda>c. c \<noteq> 0x1e) (hp_rx (shd (in_poll (hv_host h))))) (hv_uart h)
      else hv_uart h) \<and>
   (hv_stats_wanted (hyp_poll_host_devices h) \<longleftrightarrow>
      hv_stats_wanted h \<or>
      rx_event (shd (in_poll (hv_host h))) \<and> 0x1e \<in> set (hp_rx (shd (in_poll (hv_host h))))) \<and>
   out_calls (hv_host (hyp_poll_host_devices h)) = out_calls (hv_host h) @
     (if hp_alarm (shd (in_poll (hv_host h)))
      then [Systimer_enable_alarm False, Systimer_clear_alarm_int] else []) @
     (if rx_event (shd (in_poll (hv_host h))) then [Uart_clr_rx_intsts] else []) \<and>
   \<not> bk_irq (hv_blk (hyp_poll_host_devices h)) \<and>
   (bit (pl_pending (hv_plic (hyp_poll_host_devices h))) 11 \<longleftrightarrow>
      bit (pl_pending (hv_plic h)) 11 \<or> bk_irq (hv_blk h) \<or>
      hp_completed (shd (in_poll (hv_host h)))) \<and>
   (bit (pl_pending (hv_plic (hyp_poll_host_devices h))) 10 \<longleftrightarrow>
      uart_line (hv_uart (hyp_poll_host_devices h))) \<and>
   hv_shadow (hyp_poll_host_devices h) = hv_shadow h \<and>
   hv_mem (hyp_poll_host_devices h) = hv_mem h"
  unfolding hyp_poll_frame
  by (auto simp: hyp_poll_host_devices_def Let_def rx_event_def uart_drain_eq v16550_reeval_def
      hyp_virtio_blk_poll_def blk_line_def plic_set_pending_bits)

end
