(* ===== verification/Hyp_Handler.thy ===== *)
theory Hyp_Handler
  imports Hyp_Intr
begin

text \<open>
  The contract between the dispatcher (\<open>main/hyp_core.c\<close>) and the handlers it routes to
  (\<open>hypervisor_csr\<close> and \<open>hypervisor_mmio\<close>), and the tail of \<open>hypervisor()\<close> that ends every
  handled exception: advance or resume, then deliver a pending interrupt. Handlers are partial:
  \<open>None\<close> is a handler that never returns (a \<open>wfi\<close> that nothing wakes).
\<close>

section \<open>The invariant of the monitor\<close>

text \<open>
  The devices are wired as \<open>Hyp_Devices\<close> says, the privilege is a real privilege level, and the
  stored \<open>mip\<close> never contains its two wires.
\<close>

definition hyp_inv :: "hyp \<Rightarrow> bool" where
  "hyp_inv h \<longleftrightarrow>
     dev_inv h \<and> hv_priv h \<le> 3 \<and>
     \<not> bit (cs_mip (hv_shadow h)) 7 \<and> \<not> bit (cs_mip (hv_shadow h)) 11"

lemma hyp_inv_reset: "hyp_inv (reset_hyp hst m)"
  by (simp add: hyp_inv_def dev_inv_reset) (simp add: reset_defs)

lemma hyp_inv_frame [simp, frame_simps]:
  "hyp_inv (tick h) = hyp_inv h" "hyp_inv (hw c h) = hyp_inv h"
  "hyp_inv (h\<lparr>hv_stats := a\<rparr>) = hyp_inv h" "hyp_inv (h\<lparr>hv_trace := b\<rparr>) = hyp_inv h"
  "hyp_inv (h\<lparr>hv_idle_cycles := d\<rparr>) = hyp_inv h" "hyp_inv (h\<lparr>hv_running := e\<rparr>) = hyp_inv h"
  "hyp_inv (h\<lparr>hv_mem := m\<rparr>) = hyp_inv h"
  "hyp_inv (snd (rv_utils_get_cycle_count h)) = hyp_inv h"
  by (simp_all add: hyp_inv_def)

lemma hyp_inv_inject: "hyp_inv h \<Longrightarrow> hyp_inv (snd (hyp_inject f c t h))"
  by (simp add: hyp_inv_def hyp_inject_rest)

lemma hyp_inv_poll: "hyp_inv h \<Longrightarrow> hyp_inv (hyp_poll_host_devices h)"
  by (simp add: hyp_inv_def hyp_poll_inv)

text \<open>An operation that keeps the processor's state and the wiring keeps the invariant.\<close>

lemma hyp_inv_device:
  assumes "hyp_inv h" "cpu_view h' = cpu_view h" "dev_inv h \<Longrightarrow> dev_inv h'"
  shows "hyp_inv h'"
  using assms cpu_viewD(3,6) [OF assms(2)] by (simp add: hyp_inv_def)

section \<open>Delivery, as the tail needs it\<close>

lemma deliver_facts:
  assumes "hyp_deliver_pending f h = (f', h')"
  shows "hv_mem h' = hv_mem h" "hv_running h' = hv_running h" "hv_trace h' = hv_trace h"
    "hyp_inv h \<Longrightarrow> hyp_inv h'"
    "st_injections (hv_stats h') = st_injections (hv_stats h) \<or>
     st_injections (hv_stats h') = st_injections (hv_stats h) + 1"
    "n \<noteq> 0 \<Longrightarrow> slots f' n = slots f n"
    "f' = f \<and> hv_shadow h' = hv_shadow h \<and> hv_priv h' = hv_priv h \<or>
     cs_mepc (hv_shadow h') = fr_mepc f \<and> hv_priv h' = PRIV_M \<and>
       fr_mepc f' = cs_mtvec (hv_shadow h) AND NOT 0x3"
    "hv_blk h' = hv_blk h"
proof -
  have *: "(\<exists>h1. f' = f \<and> h' = h1 \<and> (h1 = h \<or> h1 = tick h)) \<or>
      (\<exists>h1 c. f' = fst (hyp_inject f c 0 h1) \<and> h' = snd (hyp_inject f c 0 h1) \<and>
         (h1 = h \<or> h1 = tick h))"
    using assms by (cases rule: hyp_deliver_pending_cases [of f h]) (metis fst_conv snd_conv)+
  show "hv_mem h' = hv_mem h" "hv_running h' = hv_running h" "hv_trace h' = hv_trace h"
    "st_injections (hv_stats h') = st_injections (hv_stats h) \<or>
     st_injections (hv_stats h') = st_injections (hv_stats h) + 1"
    using * by (auto simp: hyp_inject_rest)
  show "hv_blk h' = hv_blk h"
    using * by (auto simp: hyp_inject_rest)
  show "hyp_inv h \<Longrightarrow> hyp_inv h'"
    using * by (auto intro: hyp_inv_inject)
  show "n \<noteq> 0 \<Longrightarrow> slots f' n = slots f n"
    using * by (auto simp: hyp_inject_rest)
  show "f' = f \<and> hv_shadow h' = hv_shadow h \<and> hv_priv h' = hv_priv h \<or>
     cs_mepc (hv_shadow h') = fr_mepc f \<and> hv_priv h' = PRIV_M \<and>
       fr_mepc f' = cs_mtvec (hv_shadow h) AND NOT 0x3"
    using * by (auto simp: hyp_inject_rest)
qed

section \<open>The tail of hypervisor()\<close>

text \<open>
  The switch on the outcome and the delivery behind it. The second branch is the monitor's own
  check for a handler that returned \<open>TRAP_ADVANCE\<close> without decoding.
\<close>

definition trap_finish :: "TrapResult \<Rightarrow> GuestTrap \<Rightarrow> hyp \<Rightarrow> bool \<times> frame \<times> hyp" where
  "trap_finish outcome t h =
     (case outcome of
        TRAP_ADVANCE \<Rightarrow>
          if tr_length t = 0 then (False, tr_frame t, h)
          else
            let f = set_mepc (fr_mepc (tr_frame t) + tr_length t) (tr_frame t)
            in (True, hyp_deliver_pending f h)
      | TRAP_RESUME \<Rightarrow> (True, hyp_deliver_pending (tr_frame t) h)
      | TRAP_UNHANDLED \<Rightarrow> (False, tr_frame t, h))"

section \<open>The contract of a handler\<close>

locale trap_route =
  fixes handle :: "GuestTrap \<Rightarrow> hyp \<Rightarrow> (TrapResult \<times> GuestTrap \<times> hyp) option"
  assumes keeps_mem: "handle t h = Some (r, t', h') \<Longrightarrow> hv_mem h' = hv_mem h"
    and keeps_running: "handle t h = Some (r, t', h') \<Longrightarrow> hv_running h' = hv_running h"
    and keeps_inv: "handle t h = Some (r, t', h') \<Longrightarrow> hyp_inv h \<Longrightarrow> hyp_inv h'"
    and keeps_kick: "handle t h = Some (r, t', h') \<Longrightarrow> kick_kept h h'"
    and decoded: "handle t h = Some (TRAP_ADVANCE, t', h') \<Longrightarrow> tr_length t' = insn_length (insn_of (hv_mem h) t)"
    and keeps_mepc:
      "handle t h = Some (TRAP_ADVANCE, t', h') \<Longrightarrow> fr_mepc (tr_frame t') = fr_mepc (tr_frame t)"
begin

text \<open>The zero-length check of the tail is never taken: every \<open>TRAP_ADVANCE\<close> is decoded.\<close>

lemma finish_handled:
  assumes "handle t h = Some (r, t', h')"
  shows "fst (trap_finish r t' g) \<longleftrightarrow> r \<noteq> TRAP_UNHANDLED"
  using decoded [of t h t' h'] assms by (cases r) (auto simp: trap_finish_def Let_def)

text \<open>The tail runs on the handler's state with only the accounting changed.\<close>

lemma finish_keeps:
  assumes "handle t h = Some (r, t', h')" and "trap_finish r t' g = (b, f, h'')"
    and "hv_mem g = hv_mem h'" "hv_running g = hv_running h'" "hyp_inv g = hyp_inv h'" "hv_blk g = hv_blk h'"
  shows "hv_mem h'' = hv_mem h" "hv_running h'' = hv_running h" "hyp_inv h \<Longrightarrow> hyp_inv h''" "kick_kept h h''"
proof -
  note facts = keeps_mem [OF assms(1)] keeps_running [OF assms(1)] keeps_inv [OF assms(1)]
  have "h'' = g \<or> (\<exists>x. hyp_deliver_pending x g = (f, h''))"
    using assms(2) by (cases r) (auto simp: trap_finish_def Let_def split: if_splits)
  then show "hv_mem h'' = hv_mem h" "hv_running h'' = hv_running h" "hyp_inv h \<Longrightarrow> hyp_inv h''" "kick_kept h h''"
    using facts assms(3-6) keeps_kick [OF assms(1)] by (auto simp: kick_kept_def dest: deliver_facts)
qed

text \<open>
  After an emulated instruction the guest continues behind it, or its trap handler runs with the
  address behind it saved: neither it nor its successor is executed twice or skipped.
\<close>

lemma finish_advance:
  assumes "handle t h = Some (TRAP_ADVANCE, t', h')" and "trap_finish TRAP_ADVANCE t' g = (b, f, h'')"
  shows "b \<and> (fr_mepc f = fr_mepc (tr_frame t) + insn_length (insn_of (hv_mem h) t) \<and> hv_priv h'' = hv_priv g \<and>
                hv_shadow h'' = hv_shadow g \<or>
              cs_mepc (hv_shadow h'') = fr_mepc (tr_frame t) + insn_length (insn_of (hv_mem h) t) \<and> hv_priv h'' = PRIV_M \<and>
                fr_mepc f = cs_mtvec (hv_shadow g) AND NOT 0x3) \<and>
         (\<forall>n. n \<noteq> 0 \<longrightarrow> slots f n = slots (tr_frame t') n)"
proof -
  note len = decoded [OF assms(1)]
  define f1 where "f1 = set_mepc (fr_mepc (tr_frame t') + tr_length t') (tr_frame t')"
  from assms(2) len have del: "b" "hyp_deliver_pending f1 g = (f, h'')"
    by (simp_all add: trap_finish_def Let_def f1_def)
  have pc: "fr_mepc f1 = fr_mepc (tr_frame t) + insn_length (insn_of (hv_mem h) t)"
    using keeps_mepc [OF assms(1)] len by (simp add: f1_def)
  moreover have "slots f1 n = slots (tr_frame t') n" if "n \<noteq> 0" for n
    using that by (simp add: f1_def)
  ultimately show ?thesis
    using del(1) deliver_facts(6,7) [OF del(2)] by auto
qed

end

text \<open>A handler proper emulates: it injects nothing itself and leaves the trap history alone.\<close>

locale trap_handler = trap_route +
  assumes keeps_trace: "handle t h = Some (r, t', h') \<Longrightarrow> hv_trace h' = hv_trace h"
    and injects_nothing:
      "handle t h = Some (r, t', h') \<Longrightarrow> st_injections (hv_stats h') = st_injections (hv_stats h)"
begin

lemma finish_injects_once:
  assumes "handle t h = Some (r, t', h')" and "trap_finish r t' g = (b, f, h'')"
    and "st_injections (hv_stats g) = st_injections (hv_stats h')"
  shows "st_injections (hv_stats h'') = st_injections (hv_stats h) \<or>
         st_injections (hv_stats h'') = st_injections (hv_stats h) + 1"
proof -
  have "h'' = g \<or> (\<exists>x. hyp_deliver_pending x g = (f, h''))"
    using assms(2) by (cases r) (auto simp: trap_finish_def Let_def split: if_splits)
  then show ?thesis
    using injects_nothing [OF assms(1)] assms(3) by (auto dest: deliver_facts)
qed

end

end
