(* ===== verification/Hyp_Csr.thy ===== *)
theory Hyp_Csr
  imports Hyp_Handler
begin

text \<open>
  \<open>main/hyp_csr.c\<close>: the shadow CSR bank, the six CSR instructions, \<open>mret\<close> and \<open>wfi\<close>. A pointer
  into the bank is a \<open>csr_slot\<close>. The wait loop of \<open>wfi\<close> ends only if something wakes it, so it is a
  partial function whose \<open>None\<close> is "never returns".
\<close>

section \<open>The shadow bank\<close>

datatype csr_slot =
    Slot_mstatus | Slot_mie | Slot_mtvec | Slot_mscratch | Slot_mepc | Slot_mcause | Slot_mtval
  | Slot_pmpcfg nat | Slot_pmpaddr nat

definition CSR_MSTATUS :: u32 where [simp]: "CSR_MSTATUS = 0x300"
definition CSR_MIE :: u32 where [simp]: "CSR_MIE = 0x304"
definition CSR_MTVEC :: u32 where [simp]: "CSR_MTVEC = 0x305"
definition CSR_MSCRATCH :: u32 where [simp]: "CSR_MSCRATCH = 0x340"
definition CSR_MEPC :: u32 where [simp]: "CSR_MEPC = 0x341"
definition CSR_MCAUSE :: u32 where [simp]: "CSR_MCAUSE = 0x342"
definition CSR_MTVAL :: u32 where [simp]: "CSR_MTVAL = 0x343"
definition CSR_MIP :: u32 where [simp]: "CSR_MIP = 0x344"
definition CSR_PMPCFG3 :: u32 where [simp]: "CSR_PMPCFG3 = 0x3a0 + 3"
definition CSR_PMPADDR15 :: u32 where [simp]: "CSR_PMPADDR15 = 0x3b0 + 15"

definition shadow_slot :: "u32 \<Rightarrow> csr_slot option" where
  "shadow_slot csr =
     (if csr = CSR_MSTATUS then Some Slot_mstatus
      else if csr = CSR_MIE then Some Slot_mie
      else if csr = CSR_MTVEC then Some Slot_mtvec
      else if csr = CSR_MSCRATCH then Some Slot_mscratch
      else if csr = CSR_MEPC then Some Slot_mepc
      else if csr = CSR_MCAUSE then Some Slot_mcause
      else if csr = CSR_MTVAL then Some Slot_mtval
      else if csr \<ge> 0x3a0 \<and> csr \<le> CSR_PMPCFG3 then Some (Slot_pmpcfg (unat (csr - 0x3a0)))
      else if csr \<ge> 0x3b0 \<and> csr \<le> CSR_PMPADDR15 then Some (Slot_pmpaddr (unat (csr - 0x3b0)))
      else None)"

text \<open>Reading and writing through the pointer.\<close>

fun slot_read :: "csr_slot \<Rightarrow> hyp \<Rightarrow> u32" where
  "slot_read Slot_mstatus h = cs_mstatus (hv_shadow h)"
| "slot_read Slot_mie h = cs_mie (hv_shadow h)"
| "slot_read Slot_mtvec h = cs_mtvec (hv_shadow h)"
| "slot_read Slot_mscratch h = cs_mscratch (hv_shadow h)"
| "slot_read Slot_mepc h = cs_mepc (hv_shadow h)"
| "slot_read Slot_mcause h = cs_mcause (hv_shadow h)"
| "slot_read Slot_mtval h = cs_mtval (hv_shadow h)"
| "slot_read (Slot_pmpcfg i) h = hv_pmpcfg h i"
| "slot_read (Slot_pmpaddr i) h = hv_pmpaddr h i"

fun slot_write :: "csr_slot \<Rightarrow> u32 \<Rightarrow> hyp \<Rightarrow> hyp" where
  "slot_write Slot_mstatus v h = on_shadow (\<lambda>s. s\<lparr>cs_mstatus := v\<rparr>) h"
| "slot_write Slot_mie v h = on_shadow (\<lambda>s. s\<lparr>cs_mie := v\<rparr>) h"
| "slot_write Slot_mtvec v h = on_shadow (\<lambda>s. s\<lparr>cs_mtvec := v\<rparr>) h"
| "slot_write Slot_mscratch v h = on_shadow (\<lambda>s. s\<lparr>cs_mscratch := v\<rparr>) h"
| "slot_write Slot_mepc v h = on_shadow (\<lambda>s. s\<lparr>cs_mepc := v\<rparr>) h"
| "slot_write Slot_mcause v h = on_shadow (\<lambda>s. s\<lparr>cs_mcause := v\<rparr>) h"
| "slot_write Slot_mtval v h = on_shadow (\<lambda>s. s\<lparr>cs_mtval := v\<rparr>) h"
| "slot_write (Slot_pmpcfg i) v h = h\<lparr>hv_pmpcfg := (hv_pmpcfg h)(i := v)\<rparr>"
| "slot_write (Slot_pmpaddr i) v h = h\<lparr>hv_pmpaddr := (hv_pmpaddr h)(i := v)\<rparr>"

definition csr_read_only_zero :: "u32 \<Rightarrow> bool" where
  "csr_read_only_zero csr \<longleftrightarrow>
     csr = 0x001 \<or> csr = 0x002 \<or> csr = 0x003 \<or> csr = 0x301 \<or> csr = 0xf11 \<or> csr = 0xf12 \<or>
     csr = 0xf13 \<or> csr = 0xf14"

section \<open>mret\<close>

definition hyp_sync_icache :: "hyp \<Rightarrow> hyp" where
  "hyp_sync_icache h =
     (let (t0, h) = rv_utils_get_cycle_count h;
          h = hw L1_writeback_dcache_all h;
          h = hw L1_invalidate_icache_all h;
          h = on_stats (\<lambda>t. t\<lparr>st_icache_syncs := st_icache_syncs t + 1\<rparr>) h;
          (t1, h) = rv_utils_get_cycle_count h
      in on_stats (\<lambda>t. t\<lparr>st_icache_sync_cycles := st_icache_sync_cycles t + ucast (t1 - t0)\<rparr>) h)"

definition hypervisor_mret :: "GuestTrap \<Rightarrow> hyp \<Rightarrow> TrapResult \<times> GuestTrap \<times> hyp" where
  "hypervisor_mret t h =
     (let status = cs_mstatus (hv_shadow h);
          h = h\<lparr>hv_priv := drop_bit 11 (status AND MSTATUS_MPP)\<rparr>;
          status = (status AND NOT MSTATUS_MIE) OR
                   (if status AND MSTATUS_MPIE \<noteq> 0 then MSTATUS_MIE else 0);
          status = status OR MSTATUS_MPIE;
          status = status AND NOT MSTATUS_MPP;
          h = on_shadow (\<lambda>s. s\<lparr>cs_mstatus := status\<rparr>) h
      in if cs_mepc (hv_shadow h) = 0 then (TRAP_UNHANDLED, t, h)
         else
           let h = hyp_sync_icache h;
               h = on_stats (\<lambda>s. s\<lparr>st_mrets := st_mrets s + 1\<rparr>) h
           in (TRAP_RESUME, t\<lparr>tr_frame := set_mepc (cs_mepc (hv_shadow h)) (tr_frame t)\<rparr>, h))"

section \<open>wfi\<close>

definition hyp_wfi_wake :: "hyp \<Rightarrow> bool \<times> hyp" where
  "hyp_wfi_wake h =
     (let s = hv_shadow h in
      if cs_mie s AND MIP_MEIP \<noteq> 0 \<and> meip_pending (hv_plic h) then (True, h)
      else if cs_mie s AND MIP_MSIP \<noteq> 0 \<and> cs_mip s AND MIP_MSIP \<noteq> 0 then (True, h)
      else if cs_mie s AND MIP_MTIP \<noteq> 0 then mtip_pending h
      else (False, h))"

text \<open>
  \<open>while (!hyp_wfi_wake()) { wfi; hyp_poll_host_devices(); }\<close>. The instruction itself is a call that
  returns: that the core wakes from \<open>wfi\<close> while \<open>mstatus.MIE\<close> is clear is what the RISC-V
  specification says and what \<open>hyp.h\<close>, at \<open>HYP_WFI_BLOCKS\<close>, calls unverified on this chip. It may also
  return with nothing pending, as the specification allows.
\<close>

partial_function (option) wfi_wait :: "hyp \<Rightarrow> hyp option" where
  "wfi_wait h =
     (if fst (hyp_wfi_wake h) then Some (snd (hyp_wfi_wake h))
      else wfi_wait (hyp_poll_host_devices (hw Wfi (snd (hyp_wfi_wake h)))))"

definition hypervisor_wfi :: "hyp \<Rightarrow> (TrapResult \<times> hyp) option" where
  "hypervisor_wfi h =
     (let timer_armed = cs_mie (hv_shadow h) AND MIP_MTIP \<noteq> 0 \<and> hyp_mtimecmp h < HYP_MTIME_MAX;
          ext_armed = cs_mie (hv_shadow h) AND MIP_MEIP \<noteq> 0
      in if \<not> timer_armed \<and> \<not> ext_armed then
           Some (TRAP_ADVANCE, on_stats (\<lambda>s. s\<lparr>st_wfi_spins := st_wfi_spins s + 1\<rparr>) h)
         else
           let h = on_stats (\<lambda>s. s\<lparr>st_wfi_blocks := st_wfi_blocks s + 1\<rparr>) h;
               h = h\<lparr>hv_in_wfi := True\<rparr>;
               (t0, h) = rv_utils_get_cycle_count h
           in case wfi_wait h of None \<Rightarrow> None
              | Some h \<Rightarrow>
                  let h = h\<lparr>hv_in_wfi := False\<rparr>;
                      (t1, h) = rv_utils_get_cycle_count h;
                      asleep = t1 - t0;
                      h = h\<lparr>hv_idle_cycles := hv_idle_cycles h + asleep\<rparr>
                  in Some (TRAP_ADVANCE,
                           on_stats (\<lambda>s. s\<lparr>st_idle_cycles := st_idle_cycles s + ucast asleep\<rparr>) h))"

section \<open>The CSR instructions\<close>

text \<open>The switch on \<open>funct3 & 3\<close>.\<close>

definition csr_updated :: "u32 \<Rightarrow> u32 \<Rightarrow> u32 \<Rightarrow> u32" where
  "csr_updated op old src =
     (if op = 1 then src else if op = 2 then old OR src else if op = 3 then old AND NOT src
      else old)"

text \<open>The old value and the state after the access; \<open>None\<close> for a CSR that is not implemented.\<close>

definition csr_access :: "u32 \<Rightarrow> u32 \<Rightarrow> u32 \<Rightarrow> u32 \<Rightarrow> hyp \<Rightarrow> (u32 \<times> hyp) option" where
  "csr_access csr funct3 rs1 src h =
     (let op = funct3 AND 0x3; writes = (op = 1 \<or> rs1 \<noteq> 0) in
      if csr = CSR_MIP then
        (let (old, h) = shadow_mip_read h
         in Some (old,
              if writes then
                on_shadow (\<lambda>s. s\<lparr>cs_mip :=
                  csr_updated op old src AND NOT (MIP_MTIP OR MIP_MEIP)\<rparr>) h
              else h))
      else (case shadow_slot csr of
          Some slot \<Rightarrow>
            (let old = slot_read slot h
             in Some (old, if writes then slot_write slot (csr_updated op old src) h else h))
        | None \<Rightarrow> if csr_read_only_zero csr then Some (0, h) else None))"

definition hypervisor_csr :: "GuestTrap \<Rightarrow> hyp \<Rightarrow> (TrapResult \<times> GuestTrap \<times> hyp) option" where
  "hypervisor_csr t h =
     (case trap_decode (hv_mem h) t of
        None \<Rightarrow> Some (TRAP_UNHANDLED, t, h)
      | Some t \<Rightarrow>
          let instruction = tr_encoding t in
          if instruction AND 0x7f \<noteq> 0x73 then Some (TRAP_UNHANDLED, t, h)
          else
            let funct3 = drop_bit 12 instruction AND 0x7 in
            if funct3 = 0 then
              (if instruction = 0x30200073 then Some (hypervisor_mret t h)
               else if instruction = 0x10500073 then
                 (case hypervisor_wfi h of None \<Rightarrow> None | Some (r, h) \<Rightarrow> Some (r, t, h))
               else Some (TRAP_UNHANDLED, t, h))
            else if funct3 = 4 then Some (TRAP_UNHANDLED, t, h)
            else
              let csr = drop_bit 20 instruction;
                  rd = drop_bit 7 instruction AND 0x1f;
                  rs1 = drop_bit 15 instruction AND 0x1f;
                  src = (if funct3 AND 0x4 \<noteq> 0 then rs1 else reg_read (tr_frame t) rs1)
              in case csr_access csr funct3 rs1 src h of
                   None \<Rightarrow> Some (TRAP_UNHANDLED, t, h)
                 | Some (old, h) \<Rightarrow>
                     let h = (if funct3 AND 0x3 = 1 \<or> rs1 \<noteq> 0
                              then on_stats (\<lambda>s. s\<lparr>st_csr_write := st_csr_write s + 1\<rparr>) h
                              else on_stats (\<lambda>s. s\<lparr>st_csr_read_only := st_csr_read_only s + 1\<rparr>) h)
                     in Some (TRAP_ADVANCE, t\<lparr>tr_frame := reg_write (tr_frame t) rd old\<rparr>, h))"

section \<open>Reference semantics\<close>

text \<open>
  The Zicsr instructions as the ISA manual defines them: a decoder from the encoding, the new
  value of each operation, and the rule for when a CSR is written at all.
\<close>

datatype csr_op = CSRRW | CSRRS | CSRRC
datatype csr_operand = Reg u32 | Imm u32
datatype csr_insn = Csr_insn csr_op u32 csr_operand u32

definition decode_csr :: "u32 \<Rightarrow> csr_insn option" where
  "decode_csr i =
     (let f3 = take_bit 3 (drop_bit 12 i); field = take_bit 5 (drop_bit 15 i);
          insn = (\<lambda>op src. Some (Csr_insn op (take_bit 5 (drop_bit 7 i)) src (drop_bit 20 i)))
      in if take_bit 7 i \<noteq> 0x73 then None
         else if f3 = 1 then insn CSRRW (Reg field)
         else if f3 = 2 then insn CSRRS (Reg field)
         else if f3 = 3 then insn CSRRC (Reg field)
         else if f3 = 5 then insn CSRRW (Imm field)
         else if f3 = 6 then insn CSRRS (Imm field)
         else if f3 = 7 then insn CSRRC (Imm field)
         else None)"

fun operand_value :: "frame \<Rightarrow> csr_operand \<Rightarrow> u32" where
  "operand_value f (Reg r) = reg_read f r"
| "operand_value f (Imm u) = u"

fun csr_result :: "csr_op \<Rightarrow> u32 \<Rightarrow> u32 \<Rightarrow> u32" where
  "csr_result CSRRW old v = v"
| "csr_result CSRRS old v = old OR v"
| "csr_result CSRRC old v = old AND NOT v"

fun csr_writes :: "csr_op \<Rightarrow> csr_operand \<Rightarrow> bool" where
  "csr_writes CSRRW src = True"
| "csr_writes op src = (src \<noteq> Reg 0 \<and> src \<noteq> Imm 0)"

text \<open>
  The guest's CSR file by the numbers of the privileged ISA: what is stored under each, and what a read
  of it gives. They differ only for \<open>mip\<close>, whose timer and external bits are wires. The numbers of
  \<open>csr_zeros\<close> (the floating-point CSRs, \<open>misa\<close> and the four machine identification CSRs) are hard-wired
  to zero here, as the ISA allows.
\<close>

definition csr_zeros :: "u32 set" where
  "csr_zeros = {0x001, 0x002, 0x003, 0x301, 0xf11, 0xf12, 0xf13, 0xf14}"

definition csr_file :: "hyp \<Rightarrow> u32 \<Rightarrow> u32 option" where
  "csr_file h c =
     (let s = hv_shadow h in
      if c = 0x300 then Some (cs_mstatus s)
      else if c = 0x304 then Some (cs_mie s)
      else if c = 0x305 then Some (cs_mtvec s)
      else if c = 0x340 then Some (cs_mscratch s)
      else if c = 0x341 then Some (cs_mepc s)
      else if c = 0x342 then Some (cs_mcause s)
      else if c = 0x343 then Some (cs_mtval s)
      else if c = 0x344 then Some (cs_mip s)
      else if 0x3a0 \<le> c \<and> c < 0x3a4 then Some (hv_pmpcfg h (unat (c - 0x3a0)))
      else if 0x3b0 \<le> c \<and> c < 0x3c0 then Some (hv_pmpaddr h (unat (c - 0x3b0)))
      else if c \<in> csr_zeros then Some 0
      else None)"

definition mip_wires :: "hyp \<Rightarrow> u32" where
  "mip_wires h =
     (if now_is h \<ge> hv_mtimecmp h then MIP_MTIP else 0) OR
     (if meip_pending (hv_plic h) then MIP_MEIP else 0)"

definition csr_value :: "hyp \<Rightarrow> u32 \<Rightarrow> u32 option" where
  "csr_value h c =
     (if c = 0x344 then Some ((cs_mip (hv_shadow h) AND NOT (MIP_MTIP OR MIP_MEIP)) OR mip_wires h)
      else csr_file h c)"

text \<open>What a write leaves stored: wires and hard-wired zeros are dropped.\<close>

definition csr_legal :: "u32 \<Rightarrow> u32 \<Rightarrow> u32" where
  "csr_legal c v =
     (if c = 0x344 then v AND NOT (MIP_MTIP OR MIP_MEIP)
      else if c \<in> csr_zeros then 0 else v)"

text \<open>How the code's table of slots realises that file.\<close>

lemma csr_zeros_iff: "c \<in> csr_zeros \<longleftrightarrow> csr_read_only_zero c"
  by (simp add: csr_zeros_def csr_read_only_zero_def)

lemma csr_file_slots:
  "csr_file h c =
     (if c = 0x344 then Some (cs_mip (hv_shadow h))
      else case shadow_slot c of
          Some s \<Rightarrow> Some (slot_read s h)
        | None \<Rightarrow> if csr_read_only_zero c then Some 0 else None)"
proof -
  have "c < 0x3a4 \<longleftrightarrow> c \<le> 0x3a3" "c < 0x3c0 \<longleftrightarrow> c \<le> 0x3bf"
    by (simp_all add: word_less_nat_alt word_le_nat_alt less_Suc_eq_le [symmetric])
  then show ?thesis
    by (simp add: csr_file_def shadow_slot_def csr_zeros_iff Let_def)
qed

lemma slot_read_write: "slot_read s (slot_write s' v h) = (if s = s' then v else slot_read s h)"
  by (cases s; cases s') auto

lemma slot_write_frame [simp, frame_simps]:
  "cs_mip (hv_shadow (slot_write s v h)) = cs_mip (hv_shadow h)"
  "hv_mem (slot_write s v h) = hv_mem h" "hv_running (slot_write s v h) = hv_running h"
  "hv_priv (slot_write s v h) = hv_priv h" "hv_stats (slot_write s v h) = hv_stats h"
  "hv_trace (slot_write s v h) = hv_trace h" "dev_inv (slot_write s v h) = dev_inv h"
  "hv_blk (slot_write s v h) = hv_blk h"
  by (cases s; simp)+

lemma shadow_slot_inj: "shadow_slot c = Some s \<Longrightarrow> shadow_slot c' = Some s \<Longrightarrow> c = c'"
  by (auto simp: shadow_slot_def split: if_splits dest!: word_unat_eq_iff [THEN iffD2])

lemma shadow_slot_not_zero: "csr_read_only_zero c \<Longrightarrow> shadow_slot c = None"
  by (auto simp: csr_read_only_zero_def shadow_slot_def word_le_nat_alt)

lemma csr_file_slot_write:
  assumes "shadow_slot c = Some s" "c \<noteq> 0x344"
  shows "csr_file (slot_write s v h) = (csr_file h)(c \<mapsto> v)"
proof
  fix c'
  show "csr_file (slot_write s v h) c' = ((csr_file h)(c \<mapsto> v)) c'"
  proof (cases "shadow_slot c'")
    case None
    with assms have "c' \<noteq> c" by auto
    with None show ?thesis by (simp add: csr_file_slots)
  next
    case (Some s')
    then have "s' = s \<longleftrightarrow> c' = c" using assms shadow_slot_inj by auto
    with Some assms show ?thesis by (simp add: csr_file_slots slot_read_write)
  qed
qed

lemma slot_read_frame [simp]:
  "slot_read s (tick h) = slot_read s h" "slot_read s (h\<lparr>hv_stats := x\<rparr>) = slot_read s h"
  "slot_read s (on_shadow (\<lambda>r. r\<lparr>cs_mip := y\<rparr>) h) = slot_read s h"
  by (cases s; simp)+

lemma csr_file_frame [simp]:
  "csr_file (tick h) = csr_file h" "csr_file (h\<lparr>hv_stats := x\<rparr>) = csr_file h"
  by (rule ext, simp add: csr_file_slots split: option.split)+

lemma csr_file_mip_write:
  "hv_shadow h = s \<Longrightarrow>
     csr_file (h\<lparr>hv_shadow := s\<lparr>cs_mip := v\<rparr>\<rparr>) = (csr_file h)(0x344 \<mapsto> v)"
  by (rule ext) (auto simp: csr_file_slots split: option.split)

lemma shadow_mip_read_eq:
  "shadow_mip_read h =
     ((cs_mip (hv_shadow h) AND NOT (MIP_MTIP OR MIP_MEIP)) OR mip_wires h, tick h)"
  by (simp add: shadow_mip_read_def Let_def mtip_pending_eq mip_wires_def or.assoc)

lemma csr_access_spec:
  "csr_access c f3 rs1 src h =
     map_option (\<lambda>old.
       (old, (if f3 AND 3 = 1 \<or> rs1 \<noteq> 0
              then (if c = 0x344
                    then on_shadow (\<lambda>s. s\<lparr>cs_mip := csr_legal c (csr_updated (f3 AND 3) old src)\<rparr>)
                    else case shadow_slot c of None \<Rightarrow> id
                         | Some s \<Rightarrow> slot_write s (csr_updated (f3 AND 3) old src))
              else id) (if c = 0x344 then tick h else h)))
       (csr_value h c)"
  by (auto simp: csr_access_def Let_def shadow_mip_read_eq csr_value_def csr_file_slots csr_legal_def csr_zeros_iff
      split: option.splits)

lemma csr_access_file:
  assumes "csr_access c f3 rs1 src h = Some (old, h')"
  shows "csr_value h c = Some old \<and>
    csr_file h' = (if f3 AND 3 = 1 \<or> rs1 \<noteq> 0
       then (csr_file h)(c \<mapsto> csr_legal c (csr_updated (f3 AND 3) old src)) else csr_file h)"
proof (cases "shadow_slot c")
  case None
  have "csr_file h c = Some 0" if "c \<noteq> 0x344" "csr_read_only_zero c"
    using that None by (simp add: csr_file_slots)
  with None assms show ?thesis
    by (auto simp: csr_access_spec csr_file_mip_write csr_value_def csr_file_slots csr_legal_def csr_zeros_iff
        fun_upd_idem split: if_splits)
next
  case (Some s)
  then have "\<not> csr_read_only_zero c" using shadow_slot_not_zero by fastforce
  moreover have "c \<noteq> 0x344" using Some by (auto simp: shadow_slot_def)
  ultimately show ?thesis
    using Some assms
    by (auto simp: csr_access_spec csr_file_slot_write csr_legal_def csr_zeros_iff split: if_splits)
qed

section \<open>The CSR instructions are the ISA's\<close>

text \<open>How the encoding fields the code extracts determine the decoded instruction.\<close>

lemma decode_csr_fields:
  assumes "decode_csr i = Some (Csr_insn op rd src c)"
  shows "take_bit 7 i = 0x73" "take_bit 3 (drop_bit 12 i) \<notin> {0, 4}"
    "rd = take_bit 5 (drop_bit 7 i)" "c = drop_bit 20 i"
    "operand_value f src = (if take_bit 3 (drop_bit 12 i) AND 4 \<noteq> 0 then take_bit 5 (drop_bit 15 i)
                            else reg_read f (take_bit 5 (drop_bit 15 i)))"
    "csr_writes op src \<longleftrightarrow>
       take_bit 3 (drop_bit 12 i) AND 3 = 1 \<or> take_bit 5 (drop_bit 15 i) \<noteq> 0"
    "csr_result op old v = csr_updated (take_bit 3 (drop_bit 12 i) AND 3) old v"
  using assms by (auto simp: decode_csr_def Let_def csr_updated_def split: if_splits)

lemma hypervisor_csr_decoded:
  assumes "tr_cause t = 2" and "decode_csr (tr_tval t) = Some (Csr_insn op rd src c)"
  shows "hypervisor_csr t h =
    (let t' = t\<lparr>tr_encoding := tr_tval t, tr_length := 4\<rparr>;
         f3 = take_bit 3 (drop_bit 12 (tr_tval t)); rs1 = take_bit 5 (drop_bit 15 (tr_tval t))
     in case csr_access c f3 rs1 (operand_value (tr_frame t) src) h of
          None \<Rightarrow> Some (TRAP_UNHANDLED, t', h)
        | Some (old, h1) \<Rightarrow>
            Some (TRAP_ADVANCE, t'\<lparr>tr_frame := reg_write (tr_frame t) rd old\<rparr>,
              if csr_writes op src
              then on_stats (\<lambda>s. s\<lparr>st_csr_write := st_csr_write s + 1\<rparr>) h1
              else on_stats (\<lambda>s. s\<lparr>st_csr_read_only := st_csr_read_only s + 1\<rparr>) h1))"
proof -
  note fields = decode_csr_fields [OF assms(2)]
  have low: "take_bit 2 (tr_tval t) = 3"
  proof -
    have "take_bit 2 (take_bit 7 (tr_tval t)) = take_bit 2 0x73" using fields(1) by simp
    then show ?thesis by simp
  qed
  have dec: "trap_decode (hv_mem h) t = Some (t\<lparr>tr_encoding := tr_tval t, tr_length := 4\<rparr>)"
    using assms(1) low by (simp add: trap_decode_def and_low_mask)
  show ?thesis
    using fields(1,2)
    unfolding hypervisor_csr_def dec Let_def and_low_mask fields(3-6)
    by (auto split: option.splits)
qed

text \<open>
  C10. The six CSR instructions act on the guest's CSR file as the ISA manual says. An instruction that
  decodes to operation \<open>op\<close> on CSR number \<open>c\<close> with destination \<open>rd\<close> panics exactly when the monitor does
  not implement \<open>c\<close>; otherwise the guest's instruction is skipped, \<open>rd\<close> (unless it is x0) gets the
  value of that CSR, the operand is taken from the registers as they were before, no other register
  changes, and \<open>c\<close> and only \<open>c\<close> is updated, unless the instruction is a pure read (a set or clear with
  operand x0 or immediate 0). Writes to the wires of \<open>mip\<close> and to hard-wired zeros are dropped; this
  includes the identification CSRs 0xF11 to 0xF14, where the ISA would have an illegal-instruction
  exception.
\<close>

theorem hypervisor_csr_isa:
  assumes "tr_cause t = 2" and "decode_csr (tr_tval t) = Some (Csr_insn op rd src c)"
  shows "case csr_value h c of
           None \<Rightarrow> \<exists>t'. hypervisor_csr t h = Some (TRAP_UNHANDLED, t', h)
         | Some old \<Rightarrow> \<exists>t' h'. hypervisor_csr t h = Some (TRAP_ADVANCE, t', h') \<and>
             tr_length t' = 4 \<and> tr_frame t' = reg_write (tr_frame t) rd old \<and>
             csr_file h' =
               (if csr_writes op src
                then (csr_file h)(c \<mapsto>
                  csr_legal c (csr_result op old (operand_value (tr_frame t) src)))
                else csr_file h)"
proof (cases "csr_value h c")
  case None
  then show ?thesis
    by (simp add: hypervisor_csr_decoded [OF assms] csr_access_spec)
next
  case (Some old)
  define f3 where "f3 = take_bit 3 (drop_bit 12 (tr_tval t))"
  define rs1 where "rs1 = take_bit 5 (drop_bit 15 (tr_tval t))"
  obtain h1 where acc: "csr_access c f3 rs1 (operand_value (tr_frame t) src) h = Some (old, h1)"
    using Some by (simp add: csr_access_spec)
  note fields = decode_csr_fields [OF assms(2), folded f3_def rs1_def]
  show ?thesis
    using Some csr_access_file [OF acc]
    by (simp add: hypervisor_csr_decoded [OF assms] f3_def [symmetric] rs1_def [symmetric] acc
        fields(6,7))
qed

text \<open>\<open>csrrw tp, mscratch, tp\<close>, the first instruction of Linux's trap entry.\<close>

definition demo_csr_trap :: GuestTrap where
  "demo_csr_trap = \<lparr>tr_frame = demo_frame\<lparr>slots := (\<lambda>_. 0)(4 := 7)\<rparr>, tr_cause = 2,
                    tr_tval = 0x34021273, tr_encoding = 0, tr_length = 0\<rparr>"

theorem hypervisor_csr_isa_witness:
  "\<exists>t' h'. hypervisor_csr demo_csr_trap demo_hyp = Some (TRAP_ADVANCE, t', h') \<and>
     reg_read (tr_frame t') 4 = 0 \<and> csr_file h' 0x340 = Some 7"
proof -
  have dec: "decode_csr (tr_tval demo_csr_trap) = Some (Csr_insn CSRRW 4 (Reg 4) 0x340)"
    by (simp add: demo_csr_trap_def decode_csr_def)
  have old: "csr_value demo_hyp 0x340 = Some 0"
    by (simp add: csr_value_def csr_file_def demo_hyp_def reset_defs)
  have "tr_cause demo_csr_trap = 2" by (simp add: demo_csr_trap_def)
  from hypervisor_csr_isa [OF this dec, of demo_hyp] old show ?thesis
    by (auto simp: reg_read_write csr_legal_def csr_zeros_def demo_csr_trap_def
        reg_read_def reg_write_def)
qed

section \<open>mret is the architecture's\<close>

definition trap_exit_bit :: "u32 \<Rightarrow> nat \<Rightarrow> bool" where
  "trap_exit_bit mstatus n =
     (if n = 3 then bit mstatus 7 else if n = 7 then True
      else if n = 11 \<or> n = 12 then False else bit mstatus n)"

lemma sync_icache_frame [simp, frame_simps]:
  "hv_mem (hyp_sync_icache h) = hv_mem h" "hv_running (hyp_sync_icache h) = hv_running h"
  "hv_shadow (hyp_sync_icache h) = hv_shadow h" "hv_priv (hyp_sync_icache h) = hv_priv h"
  "hv_plic (hyp_sync_icache h) = hv_plic h" "hv_uart (hyp_sync_icache h) = hv_uart h"
  "hv_blk (hyp_sync_icache h) = hv_blk h" "hv_mtimecmp (hyp_sync_icache h) = hv_mtimecmp h"
  "hv_trace (hyp_sync_icache h) = hv_trace h" "hv_in_wfi (hyp_sync_icache h) = hv_in_wfi h"
  "hv_idle_cycles (hyp_sync_icache h) = hv_idle_cycles h"
  "dev_inv (hyp_sync_icache h) = dev_inv h"
  "out_calls (hv_host (hyp_sync_icache h)) =
     out_calls (hv_host h) @ [L1_writeback_dcache_all, L1_invalidate_icache_all]"
  by (simp_all add: hyp_sync_icache_def Let_def rv_utils_get_cycle_count_def)

lemma mret_mstatus:
  "bit (cs_mstatus (hv_shadow (snd (snd (hypervisor_mret t h))))) n =
     (n < 32 \<and> trap_exit_bit (cs_mstatus (hv_shadow h)) n)"
  by (auto simp: hypervisor_mret_def Let_def trap_exit_bit_def flag_simps bit_or_iff
      dest: bit_imp_le_length)

lemma mret_priv:
  "bit (hv_priv (snd (snd (hypervisor_mret t h)))) n =
     (n = 0 \<and> bit (cs_mstatus (hv_shadow h)) 11 \<or> n = 1 \<and> bit (cs_mstatus (hv_shadow h)) 12)"
proof -
  have "n < 2 \<longleftrightarrow> n = 0 \<or> n = 1" by linarith
  then show ?thesis
    by (auto simp: hypervisor_mret_def Let_def bit_drop_bit_eq bit_take_bit_iff flag_simps)
qed

lemma mret_rest:
  "fst (hypervisor_mret t h) = (if cs_mepc (hv_shadow h) = 0 then TRAP_UNHANDLED else TRAP_RESUME)"
  "fst (snd (hypervisor_mret t h)) =
     (if cs_mepc (hv_shadow h) = 0 then t
      else t\<lparr>tr_frame := set_mepc (cs_mepc (hv_shadow h)) (tr_frame t)\<rparr>)"
  "hv_shadow (snd (snd (hypervisor_mret t h))) =
     (hv_shadow h)\<lparr>cs_mstatus := cs_mstatus (hv_shadow (snd (snd (hypervisor_mret t h))))\<rparr>"
  "dev_inv (snd (snd (hypervisor_mret t h))) = dev_inv h"
  "hv_mem (snd (snd (hypervisor_mret t h))) = hv_mem h"
  "hv_running (snd (snd (hypervisor_mret t h))) = hv_running h"
  "hv_trace (snd (snd (hypervisor_mret t h))) = hv_trace h"
  "hv_in_wfi (snd (snd (hypervisor_mret t h))) = hv_in_wfi h"
  "hv_blk (snd (snd (hypervisor_mret t h))) = hv_blk h"
  by (simp_all add: hypervisor_mret_def Let_def)

lemma priv_le_3: "(\<And>n. bit (p :: u32) n \<Longrightarrow> n = 0 \<or> n = 1) \<Longrightarrow> p \<le> 3"
proof -
  assume "\<And>n. bit p n \<Longrightarrow> n = 0 \<or> n = 1"
  then have "take_bit 2 p = p"
    by (intro u32_eqI) (fastforce simp: bit_take_bit_iff)
  then show "p \<le> 3"
    using take_bit_word_beyond_length_eq take_bit_eq_mod [of 2 p]
    by (metis and_low_mask(1) word_and_le1)
qed

lemma mret_priv_le: "hv_priv (snd (snd (hypervisor_mret t h))) \<le> 3"
  by (rule priv_le_3) (auto simp: mret_priv)

text \<open>
  C14. \<open>mret\<close> is the architecture's, with the cache maintenance a guest needs: \<open>MIE\<close> takes \<open>MPIE\<close>, \<open>MPIE\<close>
  is set, \<open>MPP\<close> becomes U, the privilege is what \<open>MPP\<close> was, every other bit of \<open>mstatus\<close> and every other
  CSR is kept, and the guest continues at \<open>mepc\<close> with its general registers unchanged. On the way the data
  cache is written back and then the instruction cache invalidated, in this order and nothing else, so
  that code the guest has just written is visible. Memory and devices are untouched. A zero \<open>mepc\<close> is
  refused, and the frame is then left as it was.
\<close>

theorem hypervisor_mret_isa:
  "(\<forall>n. bit (cs_mstatus (hv_shadow (snd (snd (hypervisor_mret t h))))) n =
      (n < 32 \<and> trap_exit_bit (cs_mstatus (hv_shadow h)) n)) \<and>
   (\<forall>n. bit (hv_priv (snd (snd (hypervisor_mret t h)))) n =
      (n = 0 \<and> bit (cs_mstatus (hv_shadow h)) 11 \<or> n = 1 \<and> bit (cs_mstatus (hv_shadow h)) 12)) \<and>
   hv_shadow (snd (snd (hypervisor_mret t h))) =
     (hv_shadow h)\<lparr>cs_mstatus := cs_mstatus (hv_shadow (snd (snd (hypervisor_mret t h))))\<rparr> \<and>
   hv_mem (snd (snd (hypervisor_mret t h))) = hv_mem h \<and>
   hv_plic (snd (snd (hypervisor_mret t h))) = hv_plic h \<and>
   hv_uart (snd (snd (hypervisor_mret t h))) = hv_uart h \<and>
   hv_blk (snd (snd (hypervisor_mret t h))) = hv_blk h \<and>
   (if cs_mepc (hv_shadow h) = 0
    then fst (hypervisor_mret t h) = TRAP_UNHANDLED \<and> fst (snd (hypervisor_mret t h)) = t \<and>
         out_calls (hv_host (snd (snd (hypervisor_mret t h)))) = out_calls (hv_host h)
    else out_calls (hv_host (snd (snd (hypervisor_mret t h)))) =
           out_calls (hv_host h) @ [L1_writeback_dcache_all, L1_invalidate_icache_all] \<and>
          fst (hypervisor_mret t h) = TRAP_RESUME \<and>
         tr_frame (fst (snd (hypervisor_mret t h))) =
           set_mepc (cs_mepc (hv_shadow h)) (tr_frame t))"
proof (intro conjI allI)
  fix n
  show "bit (cs_mstatus (hv_shadow (snd (snd (hypervisor_mret t h))))) n =
      (n < 32 \<and> trap_exit_bit (cs_mstatus (hv_shadow h)) n)"
    by (rule mret_mstatus)
  show "bit (hv_priv (snd (snd (hypervisor_mret t h)))) n =
      (n = 0 \<and> bit (cs_mstatus (hv_shadow h)) 11 \<or> n = 1 \<and> bit (cs_mstatus (hv_shadow h)) 12)"
    by (rule mret_priv)
  show "if cs_mepc (hv_shadow h) = 0
    then fst (hypervisor_mret t h) = TRAP_UNHANDLED \<and> fst (snd (hypervisor_mret t h)) = t \<and>
         out_calls (hv_host (snd (snd (hypervisor_mret t h)))) = out_calls (hv_host h)
    else out_calls (hv_host (snd (snd (hypervisor_mret t h)))) =
           out_calls (hv_host h) @ [L1_writeback_dcache_all, L1_invalidate_icache_all] \<and>
         fst (hypervisor_mret t h) = TRAP_RESUME \<and>
         tr_frame (fst (snd (hypervisor_mret t h))) =
           set_mepc (cs_mepc (hv_shadow h)) (tr_frame t)"
    by (simp add: mret_rest(1,2)) (simp add: hypervisor_mret_def Let_def)
qed (rule mret_rest(3), simp_all add: hypervisor_mret_def Let_def)

text \<open>
  C11. Injection and \<open>mret\<close> are inverse. If the guest's handler leaves \<open>mstatus\<close> and \<open>mepc\<close> as the
  injection set them, whatever else it does, \<open>mret\<close> resumes at the interrupted pc with the
  interrupted privilege and interrupt enable, and with the registers the handler left.
\<close>

theorem inject_mret_roundtrip:
  assumes "hv_priv h \<le> 3" and "fr_mepc f \<noteq> 0"
    and "cs_mstatus (hv_shadow h2) = cs_mstatus (hv_shadow (snd (hyp_inject f c tv h)))"
    and "cs_mepc (hv_shadow h2) = cs_mepc (hv_shadow (snd (hyp_inject f c tv h)))"
  shows "fst (hypervisor_mret t h2) = TRAP_RESUME \<and>
         tr_frame (fst (snd (hypervisor_mret t h2))) = set_mepc (fr_mepc f) (tr_frame t) \<and>
         hv_priv (snd (snd (hypervisor_mret t h2))) = hv_priv h \<and>
         (bit (cs_mstatus (hv_shadow (snd (snd (hypervisor_mret t h2))))) 3 \<longleftrightarrow>
            bit (cs_mstatus (hv_shadow h)) 3)"
proof -
  have "hv_priv (snd (snd (hypervisor_mret t h2))) = hv_priv h"
    using small_priv_bits [OF assms(1)]
    by (intro u32_eqI)
       (auto simp: mret_priv assms(3) hyp_inject_mstatus [OF assms(1)] trap_entry_bit_def)
  then show ?thesis
    using assms(2,4)
    by (simp add: mret_rest mret_mstatus trap_exit_bit_def assms(3) hyp_inject_rest
        hyp_inject_mstatus [OF assms(1)] trap_entry_bit_def del: mret_rest(3))
qed

theorem inject_mret_roundtrip_witness:
  "hv_priv (snd (snd (hypervisor_mret demo_trap
     (snd (hyp_inject (set_mepc 0x48000010 demo_frame) 8 0 demo_guest))))) = 0"
  using inject_mret_roundtrip [of demo_guest "set_mepc 0x48000010 demo_frame"
      "snd (hyp_inject (set_mepc 0x48000010 demo_frame) 8 0 demo_guest)" 8 0 demo_trap]
  by (simp add: demo_guest_def)

section \<open>wfi: when it returns\<close>

text \<open>One turn of the wait loop, and its wake condition in terms of the pending interrupts.\<close>

definition wfi_step :: "hyp \<Rightarrow> hyp" where
  "wfi_step h = hyp_poll_host_devices (hw Wfi (snd (hyp_wfi_wake h)))"

lemma hyp_wfi_wake_iff: "fst (hyp_wfi_wake h) \<longleftrightarrow> deliverable h \<noteq> {}"
  unfolding deliverable_empty deliverable_mem
  by (auto simp: hyp_wfi_wake_def Let_def flag_simps mtip_pending_eq)

lemma hyp_wfi_wake_state: "snd (hyp_wfi_wake h) = h \<or> snd (hyp_wfi_wake h) = tick h"
  by (simp add: hyp_wfi_wake_def Let_def mtip_pending_eq)

lemma wfi_wait_step:
  "wfi_wait h = (if deliverable h \<noteq> {} then Some (snd (hyp_wfi_wake h)) else wfi_wait (wfi_step h))"
  by (subst wfi_wait.simps) (simp add: hyp_wfi_wake_iff wfi_step_def)

text \<open>If the loop wakes after \<open>n\<close> turns it returns.\<close>

lemma wfi_wait_reaches:
  "deliverable ((wfi_step ^^ n) h) \<noteq> {} \<Longrightarrow> \<exists>h'. wfi_wait h = Some h'"
proof (induction n arbitrary: h)
  case 0
  then show ?case by (simp add: wfi_wait_step)
next
  case (Suc n)
  then have "\<exists>h'. wfi_wait (wfi_step h) = Some h'"
    by (simp add: funpow_swap1)
  then show ?case by (subst wfi_wait_step) auto
qed

text \<open>Whatever the turns keep, the loop keeps; and it only returns by waking.\<close>

lemma wfi_wait_invariant:
  assumes "wfi_wait h = Some h'" and "P h"
    and "\<And>h. P h \<Longrightarrow> P (wfi_step h)"
  shows "\<exists>h1. P h1 \<and> deliverable h1 \<noteq> {} \<and> h' = snd (hyp_wfi_wake h1)"
proof -
  have "P h \<longrightarrow> (\<exists>h1. P h1 \<and> deliverable h1 \<noteq> {} \<and> h' = snd (hyp_wfi_wake h1))"
  proof (rule wfi_wait.raw_induct [OF _ assms(1)])
    fix f h h'
    assume IH: "\<And>h h'. f h = Some h' \<Longrightarrow>
        P h \<longrightarrow> (\<exists>h1. P h1 \<and> deliverable h1 \<noteq> {} \<and> h' = snd (hyp_wfi_wake h1))"
      and eq: "(if fst (hyp_wfi_wake h) then Some (snd (hyp_wfi_wake h))
                else f (hyp_poll_host_devices (hw Wfi (snd (hyp_wfi_wake h))))) = Some h'"
    show "P h \<longrightarrow> (\<exists>h1. P h1 \<and> deliverable h1 \<noteq> {} \<and> h' = snd (hyp_wfi_wake h1))"
      using eq IH assms(3) [of h]
      by (auto simp: hyp_wfi_wake_iff wfi_step_def split: if_splits)
  qed
  with assms(2) show ?thesis by blast
qed

text \<open>The guest's processor state and the devices' wiring are untouched by the wait.\<close>

lemma wfi_step_frame [simp, frame_simps]:
  "hv_shadow (wfi_step h) = hv_shadow h" "hv_mem (wfi_step h) = hv_mem h"
  "hv_priv (wfi_step h) = hv_priv h" "hv_running (wfi_step h) = hv_running h"
  "hv_mtimecmp (wfi_step h) = hv_mtimecmp h" "hv_stats (wfi_step h) = hv_stats h"
  "hv_trace (wfi_step h) = hv_trace h" "hv_in_wfi (wfi_step h) = hv_in_wfi h"
  "hv_idle_cycles (wfi_step h) = hv_idle_cycles h"
  "hv_pmpcfg (wfi_step h) = hv_pmpcfg h" "hv_pmpaddr (wfi_step h) = hv_pmpaddr h"
  "dev_inv h \<Longrightarrow> dev_inv (wfi_step h)" "bk_kick (hv_blk (wfi_step h)) = bk_kick (hv_blk h)"
  using hyp_wfi_wake_state [of h] by (auto simp: wfi_step_def intro: hyp_poll_inv)

definition wait_keeps :: "hyp \<Rightarrow> hyp \<Rightarrow> bool" where
  "wait_keeps h h' \<longleftrightarrow>
     hv_shadow h' = hv_shadow h \<and> hv_mem h' = hv_mem h \<and> hv_priv h' = hv_priv h \<and>
     hv_running h' = hv_running h \<and> hv_mtimecmp h' = hv_mtimecmp h \<and>
     hv_trace h' = hv_trace h \<and> hv_pmpcfg h' = hv_pmpcfg h \<and> hv_pmpaddr h' = hv_pmpaddr h \<and>
     (dev_inv h \<longrightarrow> dev_inv h') \<and> bk_kick (hv_blk h') = bk_kick (hv_blk h)"

lemma wfi_wait_keeps:
  assumes "wfi_wait h = Some h'"
  shows "wait_keeps h h' \<and> hv_stats h' = hv_stats h"
proof -
  have "\<exists>h1. (wait_keeps h h1 \<and> hv_stats h1 = hv_stats h) \<and> deliverable h1 \<noteq> {} \<and>
      h' = snd (hyp_wfi_wake h1)"
    by (rule wfi_wait_invariant [OF assms]) (auto simp: wait_keeps_def)
  then obtain h1 where "wait_keeps h h1" "hv_stats h1 = hv_stats h" "h' = snd (hyp_wfi_wake h1)"
    by blast
  then show ?thesis
    using hyp_wfi_wake_state [of h1] by (auto simp: wait_keeps_def)
qed

lemma hypervisor_wfi_keeps:
  assumes "hypervisor_wfi h = Some (r, h')"
  shows "r = TRAP_ADVANCE \<and> wait_keeps h h' \<and>
    hv_stats h' = (hv_stats h)\<lparr>st_wfi_spins := st_wfi_spins (hv_stats h'),
      st_wfi_blocks := st_wfi_blocks (hv_stats h'), st_idle_cycles := st_idle_cycles (hv_stats h')\<rparr> \<and>
    (hv_in_wfi h' \<longrightarrow> hv_in_wfi h)"
  using assms
  by (auto simp: hypervisor_wfi_def Let_def rv_utils_get_cycle_count_def wait_keeps_def
      split: if_splits option.splits dest!: wfi_wait_keeps)

text \<open>Reading the clock at every turn: the \<open>k\<close>-th turn sees the \<open>k\<close>-th snapshot.\<close>

definition clock_at :: "hyp \<Rightarrow> nat \<Rightarrow> u64" where
  "clock_at h k = halves (snd (in_mtime (hv_host h) !! k)) (fst (in_mtime (hv_host h) !! k))"

lemma now_is_clock: "now_is h = clock_at h 0"
  by (simp add: now_is_def clock_at_def halves_def)

lemma poll_in_mtime [simp]:
  "in_mtime (hv_host (hyp_poll_host_devices h)) = in_mtime (hv_host h)"
  by (simp add: hyp_poll_host_devices_def Let_def uart_drain_eq v16550_reeval_def
      hyp_virtio_blk_poll_def blk_line_def)

lemma wfi_step_clock:
  assumes "bit (cs_mie (hv_shadow h)) 7" and "deliverable h = {}"
  shows "clock_at (wfi_step h) k = clock_at h (Suc k)"
proof -
  have "snd (hyp_wfi_wake h) = tick h"
    using assms unfolding deliverable_empty deliverable_mem
    by (auto simp: hyp_wfi_wake_def Let_def flag_simps mtip_pending_eq)
  then show ?thesis by (simp add: wfi_step_def clock_at_def)
qed

lemma wfi_wait_timer:
  "bit (cs_mie (hv_shadow h)) 7 \<Longrightarrow> clock_at h k \<ge> hv_mtimecmp h \<Longrightarrow> \<exists>h'. wfi_wait h = Some h'"
proof (induction k arbitrary: h)
  case 0
  then have "MTI \<in> deliverable h" by (simp add: deliverable_mem now_is_clock)
  then show ?case by (subst wfi_wait_step) auto
next
  case (Suc k)
  show ?case
  proof (cases "deliverable h = {}")
    case True
    with Suc show ?thesis by (subst wfi_wait_step) (simp add: wfi_step_clock)
  qed (subst wfi_wait_step, simp)
qed

text \<open>The state on entry to the loop; \<open>wfi\<close> fails to return only if the loop does.\<close>

definition wfi_asleep :: "hyp \<Rightarrow> hyp" where
  "wfi_asleep h =
     snd (rv_utils_get_cycle_count
       (h\<lparr>hv_stats := (hv_stats h)\<lparr>st_wfi_blocks := st_wfi_blocks (hv_stats h) + 1\<rparr>,
          hv_in_wfi := True\<rparr>))"

lemma hypervisor_wfi_None:
  "hypervisor_wfi h = None \<longleftrightarrow>
     (bit (cs_mie (hv_shadow h)) 7 \<and> hyp_mtimecmp h < HYP_MTIME_MAX \<or> bit (cs_mie (hv_shadow h)) 11) \<and>
     wfi_wait (wfi_asleep h) = None"
  by (auto simp: hypervisor_wfi_def Let_def case_prod_beta wfi_asleep_def flag_simps
      split: option.splits if_splits)

lemma wfi_asleep_frame [simp]:
  "hv_shadow (wfi_asleep h) = hv_shadow h" "hv_plic (wfi_asleep h) = hv_plic h"
  "hv_mtimecmp (wfi_asleep h) = hv_mtimecmp h" "clock_at (wfi_asleep h) k = clock_at h k"
  by (simp_all add: wfi_asleep_def clock_at_def rv_utils_get_cycle_count_def)

text \<open>
  C23. A \<open>wfi\<close> with the timer enabled returns, provided the hardware wakes the core (a \<open>wfi\<close> executed
  by the monitor is a call that returns). If the guest has enabled its timer interrupt
  and the clock ever reaches the programmed deadline, the wait ends (by the turn that reads that
  clock value at the latest), the instruction is skipped, and the guest's CSRs, privilege, memory
  and deadline are as before, whatever input arrived in the meantime.
\<close>

theorem hypervisor_wfi_timer_returns:
  assumes "bit (cs_mie (hv_shadow h)) 7" and "clock_at h k \<ge> hv_mtimecmp h"
  shows "\<exists>h'. hypervisor_wfi h = Some (TRAP_ADVANCE, h') \<and> wait_keeps h h'"
proof -
  have "\<exists>h2. wfi_wait (wfi_asleep h) = Some h2"
    using assms by (intro wfi_wait_timer) simp_all
  then have "hypervisor_wfi h \<noteq> None" by (simp add: hypervisor_wfi_None)
  then obtain r h' where "hypervisor_wfi h = Some (r, h')" by auto
  with hypervisor_wfi_keeps show ?thesis by blast
qed

theorem hypervisor_wfi_timer_returns_witness:
  "\<exists>h'. hypervisor_wfi (demo_hyp\<lparr>hv_mtimecmp := 0, hv_shadow := reset_shadow\<lparr>cs_mie := 0x80\<rparr>\<rparr>)
     = Some (TRAP_ADVANCE, h')"
  using hypervisor_wfi_timer_returns
    [of "demo_hyp\<lparr>hv_mtimecmp := 0, hv_shadow := reset_shadow\<lparr>cs_mie := 0x80\<rparr>\<rparr>" 0]
  by (auto simp: flag_simps)

lemma wfi_hangs:
  assumes "bit (cs_mie (hv_shadow h)) 11" and "\<not> bit (cs_mie (hv_shadow h)) 7"
    and "\<not> bit (cs_mie (hv_shadow h)) 3" and "pl_enable (hv_plic h) = 0"
  shows "hypervisor_wfi h = None"
proof -
  define stuck :: "hyp \<Rightarrow> bool" where "stuck = (\<lambda>h'. hv_shadow h' = hv_shadow h \<and> pl_enable (hv_plic h') = 0)"
  have "pl_enable (hv_plic (wfi_step g)) = pl_enable (hv_plic g)" for g
    using hyp_wfi_wake_state [of g]
    by (auto simp: wfi_step_def hyp_poll_host_devices_def Let_def uart_drain_eq v16550_reeval_def
        hyp_virtio_blk_poll_def blk_line_def plic_set_pending_bits)
  then have keep: "stuck g \<Longrightarrow> stuck (wfi_step g)" for g
    by (simp add: stuck_def)
  have "\<not> meip_pending (hv_plic g)" if "stuck g" for g
    using that plic_peek_cases [of "hv_plic g"]
    by (auto simp: meip_pending_def eligible_def stuck_def)
  then have asleep: "stuck g \<Longrightarrow> deliverable g = {}" for g
    using assms unfolding deliverable_empty deliverable_mem by (simp add: stuck_def)
  have never: "wfi_wait g = None" if "stuck g" for g
  proof (cases "wfi_wait g")
    case (Some g')
    from wfi_wait_invariant [OF this, where P = stuck] that keep asleep show ?thesis by blast
  qed
  show ?thesis
    using assms never [of "wfi_asleep h"] by (simp add: hypervisor_wfi_None stuck_def)
qed

text \<open>
  C40. The gate before blocking lets a hang through. If the guest has only the external interrupt
  enabled in \<open>mie\<close> while its PLIC context enables no source, the code judges the wait wakeable
  (\<open>ext_armed\<close> looks at \<open>mie\<close> alone) and the \<open>wfi\<close> never returns, whatever the host's devices do.
  (The comment above the function says this case must not block.)
\<close>

theorem hypervisor_wfi_hang:
  assumes "bit (cs_mie (hv_shadow h)) 11" and "\<not> bit (cs_mie (hv_shadow h)) 7"
    and "\<not> bit (cs_mie (hv_shadow h)) 3" and "pl_enable (hv_plic h) = 0"
  shows "hypervisor_wfi h = None"
  using assms by (rule wfi_hangs)

theorem hypervisor_wfi_hang_witness:
  "hypervisor_wfi (demo_hyp\<lparr>hv_shadow := reset_shadow\<lparr>cs_mie := 0x800\<rparr>\<rparr>) = None"
  by (rule hypervisor_wfi_hang) (simp_all add: flag_simps demo_hyp_def reset_defs)

section \<open>hypervisor\_csr as a handler\<close>

lemma wait_keeps_inv: "wait_keeps h h' \<Longrightarrow> hyp_inv h \<Longrightarrow> hyp_inv h'"
  by (simp add: wait_keeps_def hyp_inv_def)

lemma csr_access_keeps:
  assumes "csr_access c f3 rs1 src h = Some (old, h')"
  shows "hv_mem h' = hv_mem h \<and> hv_running h' = hv_running h \<and> hv_trace h' = hv_trace h \<and>
    hv_stats h' = hv_stats h \<and> (hyp_inv h \<longrightarrow> hyp_inv h') \<and> kick_kept h h'"
proof -
  have "\<not> bit (csr_legal 0x344 v) 7" "\<not> bit (csr_legal 0x344 v) 11" for v
    by (simp_all add: csr_legal_def flag_simps)
  then show ?thesis
    using assms
    by (auto simp: csr_access_spec hyp_inv_def kick_kept_def split: if_splits option.splits)
qed

text \<open>The three ways a call of \<open>hypervisor_csr\<close> can end.\<close>

lemma hypervisor_csr_cases:
  assumes "hypervisor_csr t h = Some (r, t', h')"
  obtains (unhandled) "r = TRAP_UNHANDLED" "h' = h"
    | (mret) t1 where "(r, t', h') = hypervisor_mret t1 h"
    | (wfi) "hypervisor_wfi h = Some (r, h')" "trap_decode (hv_mem h) t = Some t'"
    | (csr) t1 c f3 rs1 rd src old h1 where "csr_access c f3 rs1 src h = Some (old, h1)"
        "trap_decode (hv_mem h) t = Some t1" "r = TRAP_ADVANCE"
        "t' = t1\<lparr>tr_frame := reg_write (tr_frame t1) rd old\<rparr>"
        "h' = on_stats (\<lambda>s. s\<lparr>st_csr_write := st_csr_write s + 1\<rparr>) h1 \<or>
         h' = on_stats (\<lambda>s. s\<lparr>st_csr_read_only := st_csr_read_only s + 1\<rparr>) h1"
proof (cases "trap_decode (hv_mem h) t")
  case None
  with assms unhandled show ?thesis by (simp add: hypervisor_csr_def)
next
  case (Some t1)
  let ?i = "tr_encoding t1"
  let ?f3 = "drop_bit 12 ?i AND 0x7"
  show ?thesis
  proof (cases "?i AND 0x7f = 0x73 \<and> ?f3 \<noteq> 0 \<and> ?f3 \<noteq> 4")
    case False
    then have "r = TRAP_UNHANDLED \<and> h' = h \<or> (r, t', h') = hypervisor_mret t1 h \<or>
        hypervisor_wfi h = Some (r, h') \<and> t' = t1"
      using assms Some by (auto simp: hypervisor_csr_def Let_def split: if_splits option.splits)
    then show ?thesis using unhandled mret wfi Some by blast
  next
    case True
    let ?rs1 = "drop_bit 15 ?i AND 0x1f"
    let ?src = "if ?f3 AND 0x4 \<noteq> 0 then ?rs1 else reg_read (tr_frame t1) ?rs1"
    let ?rd = "drop_bit 7 ?i AND 0x1f"
    note step = assms [unfolded hypervisor_csr_def Some option.case Let_def]
    show ?thesis
    proof (cases "csr_access (drop_bit 20 ?i) ?f3 ?rs1 ?src h")
      case None
      with step True have "r = TRAP_UNHANDLED \<and> h' = h" by simp
      with unhandled show ?thesis by blast
    next
      case (Some p)
      obtain old h1 where p: "p = (old, h1)" by (cases p)
      note acc = Some [unfolded p]
      from step True acc have "r = TRAP_ADVANCE \<and>
          t' = t1\<lparr>tr_frame := reg_write (tr_frame t1) ?rd old\<rparr> \<and>
          (h' = on_stats (\<lambda>s. s\<lparr>st_csr_write := st_csr_write s + 1\<rparr>) h1 \<or>
           h' = on_stats (\<lambda>s. s\<lparr>st_csr_read_only := st_csr_read_only s + 1\<rparr>) h1)"
        by (cases "?f3 AND 3 = 1 \<or> ?rs1 \<noteq> 0") simp_all
      with csr [OF acc \<open>trap_decode (hv_mem h) t = Some t1\<close>] show ?thesis by blast
    qed
  qed
qed

lemma hypervisor_csr_common:
  assumes "hypervisor_csr t h = Some (r, t', h')"
  shows "hv_mem h' = hv_mem h \<and> hv_running h' = hv_running h \<and> hv_trace h' = hv_trace h \<and>
    st_injections (hv_stats h') = st_injections (hv_stats h) \<and> (hyp_inv h \<longrightarrow> hyp_inv h') \<and> kick_kept h h'"
  using assms
proof (cases rule: hypervisor_csr_cases)
  case unhandled
  then show ?thesis by simp
next
  case (mret t1)
  then have h': "h' = snd (snd (hypervisor_mret t1 h))" by (metis snd_conv)
  have "st_injections (hv_stats h') = st_injections (hv_stats h)"
    unfolding h' by (simp add: hypervisor_mret_def Let_def hyp_sync_icache_def
        rv_utils_get_cycle_count_def)
  moreover have "cs_mip (hv_shadow h') = cs_mip (hv_shadow h)"
    unfolding h' by (subst mret_rest(3)) simp
  ultimately show ?thesis
    unfolding h' by (simp add: hyp_inv_def mret_rest(4-9) mret_priv_le kick_kept_same)
next
  case wfi
  note k = hypervisor_wfi_keeps [OF wfi(1)]
  then have "st_injections (hv_stats h') = st_injections (hv_stats h)"
    by (metis stats.select_convs(12) stats.update_convs(10,11,15) stats.surjective)
  with k wait_keeps_inv show ?thesis by (auto simp: wait_keeps_def kick_kept_def)
next
  case (csr t1 c f3 rs1 rd src old h1)
  then show ?thesis using csr_access_keeps [OF csr(1)] by auto
qed

interpretation csr_handler: trap_handler hypervisor_csr
proof
  fix t t' h h' r
  assume step: "hypervisor_csr t h = Some (r, t', h')"
  note common = hypervisor_csr_common [OF step]
  from common show "hv_mem h' = hv_mem h" "hv_running h' = hv_running h"
    "hv_trace h' = hv_trace h" "hyp_inv h \<Longrightarrow> hyp_inv h'" "kick_kept h h'"
    "st_injections (hv_stats h') = st_injections (hv_stats h)"
    by simp_all
next
  fix t t' h h'
  assume step: "hypervisor_csr t h = Some (TRAP_ADVANCE, t', h')"
  have "tr_length t' = insn_length (insn_of (hv_mem h) t) \<and> fr_mepc (tr_frame t') = fr_mepc (tr_frame t)"
    using step
  proof (cases rule: hypervisor_csr_cases)
    case (mret t1)
    then have "fst (hypervisor_mret t1 h) = TRAP_ADVANCE" by (metis fst_conv)
    then show ?thesis by (simp add: mret_rest(1) split: if_splits)
  qed (auto dest: trap_decode_length dest: trap_decode_frame)
  then show "tr_length t' = insn_length (insn_of (hv_mem h) t)" "fr_mepc (tr_frame t') = fr_mepc (tr_frame t)"
    by simp_all
qed

end
