(* ===== verification/Hyp_Mmio.thy ===== *)
theory Hyp_Mmio
  imports Hyp_Handler
begin

text \<open>
  \<open>main/hyp_mmio.c\<close>: the device table and the load/store decoder. A pointer into the table is the
  row's index together with the row.
\<close>

section \<open>The device table\<close>

record MmioDevice =
  md_base :: u32
  md_size :: u32
  md_read :: "u32 \<Rightarrow> u32 \<Rightarrow> hyp \<Rightarrow> u32 \<times> hyp"
  md_write :: "u32 \<Rightarrow> u32 \<Rightarrow> u32 \<Rightarrow> hyp \<Rightarrow> hyp"
  md_name :: string

text \<open>The windows the device tree gives the devices.\<close>

definition HYP_CLINT_BASE :: u32 where [simp]: "HYP_CLINT_BASE = 0x02000000"
definition HYP_CLINT_SIZE :: u32 where [simp]: "HYP_CLINT_SIZE = 0x00010000"
definition HYP_PLIC_BASE :: u32 where [simp]: "HYP_PLIC_BASE = 0x0C000000"
definition HYP_PLIC_SIZE :: u32 where [simp]: "HYP_PLIC_SIZE = 0x00400000"
definition HYP_UART_BASE :: u32 where [simp]: "HYP_UART_BASE = 0x10000000"
definition HYP_UART_SIZE :: u32 where [simp]: "HYP_UART_SIZE = 0x00000100"
definition HYP_VIRTIO_BLK_BASE :: u32 where [simp]: "HYP_VIRTIO_BLK_BASE = 0x10001000"
definition HYP_VIRTIO_BLK_SIZE :: u32 where [simp]: "HYP_VIRTIO_BLK_SIZE = 0x00001000"

definition clint_device :: MmioDevice where
  "clint_device = \<lparr>md_base = HYP_CLINT_BASE, md_size = HYP_CLINT_SIZE, md_read = clint_read,
                   md_write = clint_write, md_name = ''clint''\<rparr>"

definition uart_device :: MmioDevice where
  "uart_device = \<lparr>md_base = HYP_UART_BASE, md_size = HYP_UART_SIZE, md_read = uart_read,
                  md_write = uart_write, md_name = ''uart''\<rparr>"

definition plic_device :: MmioDevice where
  "plic_device = \<lparr>md_base = HYP_PLIC_BASE, md_size = HYP_PLIC_SIZE, md_read = plic_mmio_read,
                  md_write = plic_write, md_name = ''plic''\<rparr>"

definition vblk_device :: MmioDevice where
  "vblk_device = \<lparr>md_base = HYP_VIRTIO_BLK_BASE, md_size = HYP_VIRTIO_BLK_SIZE, md_read = hyp_virtio_blk_read,
                  md_write = hyp_virtio_blk_write, md_name = ''vblk''\<rparr>"

definition mmio_devices :: "MmioDevice list" where
  "mmio_devices = [clint_device, uart_device, plic_device, vblk_device]"

definition HYP_MMIO_MAX_DEVICES :: nat where
  "HYP_MMIO_MAX_DEVICES = 8"

fun mmio_scan :: "u32 \<Rightarrow> nat \<Rightarrow> MmioDevice list \<Rightarrow> (nat \<times> MmioDevice) option" where
  "mmio_scan address i [] = None"
| "mmio_scan address i (d # ds) =
     (if address \<ge> md_base d \<and> address < md_base d + md_size d then Some (i, d)
      else mmio_scan address (Suc i) ds)"

definition mmio_find :: "u32 \<Rightarrow> (nat \<times> MmioDevice) option" where
  "mmio_find address = mmio_scan address 0 mmio_devices"

section \<open>The decoder\<close>

text \<open>The casts \<open>(uint32_t)(int32_t)(int8_t)\<close> and \<open>(uint32_t)(int32_t)(int16_t)\<close>.\<close>

definition sext8 :: "u32 \<Rightarrow> u32" where
  "sext8 v = scast (ucast v :: u8)"

definition sext16 :: "u32 \<Rightarrow> u32" where
  "sext16 v = scast (ucast v :: u16)"

definition mmio_load ::
  "MmioDevice \<Rightarrow> u32 \<Rightarrow> u32 \<Rightarrow> (u32 \<Rightarrow> u32) \<Rightarrow> u32 \<Rightarrow> GuestTrap \<Rightarrow> hyp \<Rightarrow> TrapResult \<times> GuestTrap \<times> hyp"
where
  "mmio_load d offset width conv rd t h =
     (let (v, h) = md_read d offset width h
      in (TRAP_ADVANCE, t\<lparr>tr_frame := reg_write (tr_frame t) rd (conv v)\<rparr>, h))"

definition hypervisor_mmio :: "GuestTrap \<Rightarrow> hyp \<Rightarrow> TrapResult \<times> GuestTrap \<times> hyp" where
  "hypervisor_mmio t h =
     (case mmio_find (tr_tval t) of
        None \<Rightarrow> (TRAP_UNHANDLED, t, h)
      | Some (i, d) \<Rightarrow>
         (case trap_decode (hv_mem h) t of
            None \<Rightarrow> (TRAP_UNHANDLED, t, h)
          | Some t \<Rightarrow>
              let instruction = tr_encoding t in
              if instruction AND 0x5f \<noteq> 0x03 then (TRAP_UNHANDLED, t, h)
              else
                let h = on_stats (\<lambda>s. s\<lparr>st_mmio := (st_mmio s)(i mod HYP_MMIO_MAX_DEVICES :=
                           st_mmio s (i mod HYP_MMIO_MAX_DEVICES) + 1)\<rparr>) h;
                    offset = tr_tval t - md_base d;
                    rd = drop_bit 7 instruction AND 0x1f;
                    rs2 = drop_bit 20 instruction AND 0x1f;
                    src = reg_read (tr_frame t) rs2;
                    key = (drop_bit 12 instruction AND 0x7) OR (drop_bit 2 instruction AND 0x8)
                in if key = 0x0 then mmio_load d offset 1 sext8 rd t h
                   else if key = 0x1 then mmio_load d offset 2 sext16 rd t h
                   else if key = 0x2 then mmio_load d offset 4 id rd t h
                   else if key = 0x4 then mmio_load d offset 1 id rd t h
                   else if key = 0x5 then mmio_load d offset 2 id rd t h
                   else if key = 0x8 then (TRAP_ADVANCE, t, md_write d offset src 1 h)
                   else if key = 0x9 then (TRAP_ADVANCE, t, md_write d offset src 2 h)
                   else if key = 0xa then (TRAP_ADVANCE, t, md_write d offset src 4 h)
                   else (TRAP_UNHANDLED, t, h)))"

section \<open>The windows\<close>

lemma in_window:
  fixes a b s :: u32
  assumes "unat b + unat s < 2 ^ 32"
  shows "a \<ge> b \<and> a < b + s \<longleftrightarrow> a - b < s"
proof
  assume "a \<ge> b \<and> a < b + s"
  with assms show "a - b < s"
    by (auto simp: word_le_nat_alt word_less_nat_alt unat_sub unat_add_lem [THEN iffD1])
next
  assume "a - b < s"
  with assms have "unat (b + (a - b)) = unat b + unat (a - b)" "unat (b + s) = unat b + unat s"
    using unat_add_lem [of b "a - b"] unat_add_lem [of b s] by (simp_all add: word_less_nat_alt)
  then have "unat a = unat b + unat (a - b)" "unat (b + s) = unat b + unat s"
    by simp_all
  with \<open>a - b < s\<close> show "a \<ge> b \<and> a < b + s"
    by (simp add: word_le_nat_alt word_less_nat_alt)
qed

lemmas device_defs = clint_device_def uart_device_def plic_device_def vblk_device_def

lemma mmio_find_eq:
  "mmio_find a =
     (if a - 0x02000000 < 0x00010000 then Some (0, clint_device)
      else if a - 0x10000000 < 0x00000100 then Some (1, uart_device)
      else if a - 0x0C000000 < 0x00400000 then Some (2, plic_device)
      else if a - 0x10001000 < 0x00001000 then Some (3, vblk_device) else None)"
  using in_window [of "0x02000000" "0x00010000" a] in_window [of "0x10000000" "0x00000100" a]
    in_window [of "0x0C000000" "0x00400000" a] in_window [of "0x10001000" "0x00001000" a]
  by (simp add: mmio_find_def mmio_devices_def device_defs)

text \<open>No address is in two windows, so the scan order cannot matter.\<close>

lemma windows_disjoint:
  fixes a :: u32
  shows "\<not> (a - 0x02000000 < 0x00010000 \<and> a - 0x10000000 < 0x00000100)"
    "\<not> (a - 0x02000000 < 0x00010000 \<and> a - 0x0C000000 < 0x00400000)"
    "\<not> (a - 0x02000000 < 0x00010000 \<and> a - 0x10001000 < 0x00001000)"
    "\<not> (a - 0x10000000 < 0x00000100 \<and> a - 0x0C000000 < 0x00400000)"
    "\<not> (a - 0x10000000 < 0x00000100 \<and> a - 0x10001000 < 0x00001000)"
    "\<not> (a - 0x0C000000 < 0x00400000 \<and> a - 0x10001000 < 0x00001000)"
proof -
  have range: "a - b < s \<Longrightarrow> unat b + unat s < 2 ^ 32 \<Longrightarrow>
      unat b \<le> unat a \<and> unat a < unat b + unat s" for b s :: u32
    using in_window [of b s a]
    by (auto simp: word_le_nat_alt word_less_nat_alt unat_add_lem [THEN iffD1])
  note r = range [of "0x02000000" "0x00010000"] range [of "0x10000000" "0x00000100"]
    range [of "0x0C000000" "0x00400000"] range [of "0x10001000" "0x00001000"]
  show "\<not> (a - 0x02000000 < 0x00010000 \<and> a - 0x10000000 < 0x00000100)"
    "\<not> (a - 0x02000000 < 0x00010000 \<and> a - 0x0C000000 < 0x00400000)"
    "\<not> (a - 0x02000000 < 0x00010000 \<and> a - 0x10001000 < 0x00001000)"
    "\<not> (a - 0x10000000 < 0x00000100 \<and> a - 0x0C000000 < 0x00400000)"
    "\<not> (a - 0x10000000 < 0x00000100 \<and> a - 0x10001000 < 0x00001000)"
    "\<not> (a - 0x0C000000 < 0x00400000 \<and> a - 0x10001000 < 0x00001000)"
    using r by auto
qed

text \<open>
  Every address has at most one device, independent of the order of the table, and the offset
  handed to that device's accessors is always inside its window: \<open>mmio_find\<close> gives row \<open>i\<close>
  exactly when the offset from that row's base, computed with wrap-around as the decoder computes
  it, is below its size.
\<close>

theorem mmio_find_unique:
  "mmio_find a = Some (i, d) \<longleftrightarrow>
     i < length mmio_devices \<and> d = mmio_devices ! i \<and> a - md_base d < md_size d"
proof -
  define w0 w1 w2 w3 where
    "w0 = (a - 0x02000000 < 0x00010000)" "w1 = (a - 0x10000000 < 0x00000100)"
    "w2 = (a - 0x0C000000 < 0x00400000)" "w3 = (a - 0x10001000 < 0x00001000)"
  note w = this
  have find: "mmio_find a = (if w0 then Some (0, clint_device) else if w1 then Some (1, uart_device)
      else if w2 then Some (2, plic_device) else if w3 then Some (3, vblk_device) else None)"
    unfolding mmio_find_eq w ..
  have rows: "i < length mmio_devices \<and> d = mmio_devices ! i \<and> a - md_base d < md_size d \<longleftrightarrow>
      i = 0 \<and> d = clint_device \<and> w0 \<or> i = 1 \<and> d = uart_device \<and> w1 \<or>
      i = 2 \<and> d = plic_device \<and> w2 \<or> i = 3 \<and> d = vblk_device \<and> w3"
  proof -
    have four: "i < 4 \<longleftrightarrow> i = 0 \<or> i = 1 \<or> i = 2 \<or> i = 3" by linarith
    define P :: "MmioDevice \<Rightarrow> bool" where "P = (\<lambda>d. a - md_base d < md_size d)"
    have base: "P clint_device = w0" "P uart_device = w1" "P plic_device = w2" "P vblk_device = w3"
      by (simp_all add: P_def w device_defs)
    have len: "length mmio_devices = 4" "mmio_devices ! 0 = clint_device"
      "mmio_devices ! 1 = uart_device" "mmio_devices ! 2 = plic_device"
      "mmio_devices ! 3 = vblk_device"
      by (simp_all add: mmio_devices_def)
    have "i < 4 \<and> d = mmio_devices ! i \<and> P d \<longleftrightarrow>
      i = 0 \<and> d = clint_device \<and> w0 \<or> i = 1 \<and> d = uart_device \<and> w1 \<or>
      i = 2 \<and> d = plic_device \<and> w2 \<or> i = 3 \<and> d = vblk_device \<and> w3"
      unfolding four using len base by metis
    then show ?thesis by (simp only: len P_def)
  qed
  note disj = windows_disjoint [of a, folded w]
  show ?thesis
    unfolding find rows by (cases w0; cases w1; cases w2; cases w3) (use disj in auto)
qed

section \<open>Reference semantics of loads and stores\<close>

datatype ls_width = Byte | Half | Word

fun bytes :: "ls_width \<Rightarrow> u32" where
  "bytes Byte = 1"
| "bytes Half = 2"
| "bytes Word = 4"

text \<open>A load of a width, signed or not, into a register; a store of a register.\<close>

datatype ls_insn = Load ls_width bool u32 | Store ls_width u32

definition decode_ls :: "u32 \<Rightarrow> ls_insn option" where
  "decode_ls i =
     (let f3 = take_bit 3 (drop_bit 12 i); rd = take_bit 5 (drop_bit 7 i);
          rs2 = take_bit 5 (drop_bit 20 i)
      in if take_bit 7 i = 0x03 then
           (if f3 = 0 then Some (Load Byte True rd) else if f3 = 1 then Some (Load Half True rd)
            else if f3 = 2 then Some (Load Word True rd) else if f3 = 4 then Some (Load Byte False rd)
            else if f3 = 5 then Some (Load Half False rd) else None)
         else if take_bit 7 i = 0x23 then
           (if f3 = 0 then Some (Store Byte rs2) else if f3 = 1 then Some (Store Half rs2)
            else if f3 = 2 then Some (Store Word rs2) else None)
         else None)"

text \<open>
  What reaches the register. Unsigned narrow loads take the device's answer as it is: the code
  does not truncate it, so the device's accessor must.
\<close>

fun extend :: "ls_width \<Rightarrow> bool \<Rightarrow> u32 \<Rightarrow> u32" where
  "extend Byte True v = signed_take_bit 7 v"
| "extend Half True v = signed_take_bit 15 v"
| "extend w s v = v"

lemma sext8_eq: "sext8 v = signed_take_bit 7 v"
  unfolding sext8_def by (rule u32_eqI) (auto simp: bit_simps)

lemma sext16_eq: "sext16 v = signed_take_bit 15 v"
  unfolding sext16_def by (rule u32_eqI) (auto simp: bit_simps)

lemma take_bit_3_cases:
  fixes x :: u32
  shows "take_bit 3 x = 0 \<or> take_bit 3 x = 1 \<or> take_bit 3 x = 2 \<or> take_bit 3 x = 3 \<or>
    take_bit 3 x = 4 \<or> take_bit 3 x = 5 \<or> take_bit 3 x = 6 \<or> take_bit 3 x = 7"
proof -
  have "unat (take_bit 3 x) < 2 ^ 3"
    by (simp only: unsigned_take_bit_eq take_bit_nat_less_exp)
  then have "unat (take_bit 3 x) = 0 \<or> unat (take_bit 3 x) = 1 \<or> unat (take_bit 3 x) = 2 \<or>
    unat (take_bit 3 x) = 3 \<or> unat (take_bit 3 x) = 4 \<or> unat (take_bit 3 x) = 5 \<or>
    unat (take_bit 3 x) = 6 \<or> unat (take_bit 3 x) = 7" by simp linarith
  then show ?thesis by (simp add: word_unat_eq_iff)
qed

text \<open>The masked opcode test, and the store bit it hides.\<close>

lemma opcode_split: "take_bit 7 i = (i AND 0x5f) OR (if bit i 5 then 0x20 else (0 :: u32))"
proof (rule u32_eqI)
  fix n :: nat assume "n < 32"
  have "bit (0x5f :: int) n = (n < 7 \<and> n \<noteq> 5)"
  proof -
    have "(0x5f :: int) = 64 OR 16 OR 8 OR 4 OR 2 OR 1" by simp
    then show ?thesis
      by (simp only: bit_or_iff bit_numeral_masks bit_1_iff) presburger
  qed
  then show "bit (take_bit 7 i) n = bit ((i AND 0x5f) OR (if bit i 5 then 0x20 else 0)) n"
    by (auto simp: bit_take_bit_iff bit_or_iff bit_and_iff flag_simps)
qed

lemma opcode_test:
  fixes i :: u32
  shows "i AND 0x5f = 0x03 \<longleftrightarrow> take_bit 7 i = 0x03 \<or> take_bit 7 i = 0x23"
    and "take_bit 7 i = 0x03 \<Longrightarrow> \<not> bit i 5" and "take_bit 7 i = 0x23 \<Longrightarrow> bit i 5"
proof -
  have five: "bit i 5 = bit (take_bit 7 i) 5" by (simp add: bit_take_bit_iff)
  show load: "take_bit 7 i = 0x03 \<Longrightarrow> \<not> bit i 5" and store: "take_bit 7 i = 0x23 \<Longrightarrow> bit i 5"
    by (simp_all add: five flag_simps)
  have "i AND 0x5f = take_bit 7 i AND 0x5f"
    unfolding opcode_split by (cases "bit i 5") (simp_all add: bit.conj_disj_distrib2)
  then show "i AND 0x5f = 0x03 \<longleftrightarrow> take_bit 7 i = 0x03 \<or> take_bit 7 i = 0x23"
    using opcode_split [of i] by auto
qed

lemma store_bit: "drop_bit 2 i AND 8 = (if bit i 5 then 8 else (0 :: u32))"
  by (rule u32_eqI) (auto simp: bit_and_iff bit_drop_bit_eq flag_simps)

text \<open>Counting an access to row \<open>i\<close>.\<close>

definition count_mmio :: "nat \<Rightarrow> hyp \<Rightarrow> hyp" where
  "count_mmio i h = on_stats (\<lambda>s. s\<lparr>st_mmio := (st_mmio s)(i := st_mmio s i + 1)\<rparr>) h"

lemma hypervisor_mmio_spec:
  assumes "mmio_find (tr_tval t) = Some (k, d)" and "trap_decode (hv_mem h) t = Some t1"
  shows "case decode_ls (tr_encoding t1) of
           None \<Rightarrow> hypervisor_mmio t h \<in> {(TRAP_UNHANDLED, t1, h), (TRAP_UNHANDLED, t1, count_mmio k h)}
         | Some (Load w s rd) \<Rightarrow>
             hypervisor_mmio t h =
               (let (v, h') = md_read d (tr_tval t - md_base d) (bytes w) (count_mmio k h) in
                (TRAP_ADVANCE, t1\<lparr>tr_frame := reg_write (tr_frame t) rd (extend w s v)\<rparr>, h'))
         | Some (Store w rs2) \<Rightarrow>
             hypervisor_mmio t h =
               (TRAP_ADVANCE, t1,
                md_write d (tr_tval t - md_base d) (reg_read (tr_frame t) rs2) (bytes w)
                  (count_mmio k h))"
proof -
  let ?i = "tr_encoding t1"
  note t1 = trap_decode_frame [OF assms(2)]
  have "k < 4" using assms(1) by (simp add: mmio_find_unique mmio_devices_def)
  then have k: "k mod HYP_MMIO_MAX_DEVICES = k" by (simp add: HYP_MMIO_MAX_DEVICES_def)
  have load: "mmio_load d off w conv rd t1 g = (let (v, h') = md_read d off w g in
      (TRAP_ADVANCE, t1\<lparr>tr_frame := reg_write (tr_frame t) rd (conv v)\<rparr>, h'))" for off w conv rd g
    using t1 by (simp add: mmio_load_def)
  consider (load) "take_bit 7 ?i = 0x03" "\<not> bit ?i 5" | (store) "take_bit 7 ?i = 0x23" "bit ?i 5"
    | (other) "take_bit 7 ?i \<noteq> 0x03" "take_bit 7 ?i \<noteq> 0x23"
    using opcode_test [of ?i] by blast
  then show ?thesis
  proof cases
    case load
    with take_bit_3_cases [of "drop_bit 12 ?i"] assms t1 k show ?thesis
      by (elim disjE) (simp_all add: decode_ls_def hypervisor_mmio_def Let_def and_low_mask
          opcode_test(1) store_bit mmio_load_def sext8_eq sext16_eq count_mmio_def)
  next
    case store
    with take_bit_3_cases [of "drop_bit 12 ?i"] assms t1 k show ?thesis
      by (elim disjE) (simp_all add: decode_ls_def hypervisor_mmio_def Let_def and_low_mask
          opcode_test(1) store_bit count_mmio_def)
  next
    case other
    with assms t1 show ?thesis
      by (simp add: decode_ls_def hypervisor_mmio_def Let_def opcode_test(1))
  qed
qed

text \<open>
  C12. A trapped access to a device window reaches the device as the instruction says. It is decoded as
  the ISA does (the key computed from \<open>funct3\<close> and the opcode's store bit is right for all eight
  forms and refuses every other encoding); a load reads the device once, at the offset in its
  window and with the width of the instruction, and puts the answer in \<open>rd\<close>, sign-extended from its
  low byte or half for the signed forms and just as the device gave it for the others; a store
  writes the register to the device once and changes no register.
\<close>

theorem hypervisor_mmio_isa:
  assumes "mmio_find (tr_tval t) = Some (k, d)" and "trap_decode (hv_mem h) t = Some t1"
  shows "case decode_ls (tr_encoding t1) of
           None \<Rightarrow> hypervisor_mmio t h \<in> {(TRAP_UNHANDLED, t1, h), (TRAP_UNHANDLED, t1, count_mmio k h)}
         | Some (Load w s rd) \<Rightarrow>
             hypervisor_mmio t h =
               (let (v, h') = md_read d (tr_tval t - md_base d) (bytes w) (count_mmio k h) in
                (TRAP_ADVANCE, t1\<lparr>tr_frame := reg_write (tr_frame t) rd (extend w s v)\<rparr>, h'))
         | Some (Store w rs2) \<Rightarrow>
             hypervisor_mmio t h =
               (TRAP_ADVANCE, t1,
                md_write d (tr_tval t - md_base d) (reg_read (tr_frame t) rs2) (bytes w)
                  (count_mmio k h))"
  by (rule hypervisor_mmio_spec [OF assms])

text \<open>\<open>lw t0, 0(a0)\<close> at address 0, reading the low half of \<open>mtimecmp\<close>; then \<open>lbu\<close> of the same.\<close>

definition demo_load_trap :: GuestTrap where
  "demo_load_trap = \<lparr>tr_frame = demo_frame, tr_cause = 5, tr_tval = 0x02004000,
                     tr_encoding = 0, tr_length = 0\<rparr>"

definition lw_code :: mem where
  "lw_code = (\<lambda>_. 0)(0 := 0x83, 1 := 0x22, 2 := 0x05)"

definition lbu_code :: mem where
  "lbu_code = (\<lambda>_. 0)(0 := 0x83, 1 := 0x42, 2 := 0x05)"

lemma demo_load_decode:
  "trap_decode lw_code demo_load_trap = Some (demo_load_trap\<lparr>tr_encoding := 0x00052283, tr_length := 4\<rparr>)"
  "trap_decode lbu_code demo_load_trap = Some (demo_load_trap\<lparr>tr_encoding := 0x00054283, tr_length := 4\<rparr>)"
  by (simp_all add: trap_decode_def guest_fetch_def demo_load_trap_def demo_frame_def rd16_def
      lw_code_def lbu_code_def)

lemma demo_load_find: "mmio_find (tr_tval demo_load_trap) = Some (0, clint_device)"
  by (simp add: mmio_find_eq demo_load_trap_def)

theorem hypervisor_mmio_isa_witness:
  "reg_read (tr_frame (fst (snd (hypervisor_mmio demo_load_trap (demo_hyp\<lparr>hv_mem := lw_code\<rparr>))))) 5
     = 0xFFFFFFFF"
proof -
  have dec: "trap_decode (hv_mem (demo_hyp\<lparr>hv_mem := lw_code\<rparr>)) demo_load_trap =
      Some (demo_load_trap\<lparr>tr_encoding := 0x00052283, tr_length := 4\<rparr>)"
    by (simp add: demo_load_decode)
  have "decode_ls 0x00052283 = Some (Load Word True 5)"
    by (simp add: decode_ls_def)
  with hypervisor_mmio_isa [OF demo_load_find dec] show ?thesis
    by (simp add: clint_device_def clint_read_def count_mmio_def demo_hyp_def reset_hyp_def
        demo_load_trap_def reg_read_write)
qed

section \<open>hypervisor\_mmio as a handler\<close>

lemma row_contract: "mmio_find a = Some (i, d) \<Longrightarrow> mmio_device (md_read d) (md_write d)"
  by (auto simp: mmio_find_eq device_defs clint.mmio_device_axioms uart.mmio_device_axioms
      plic.mmio_device_axioms vblk.mmio_device_axioms split: if_splits)

text \<open>
  The ways a call can end: the trap is refused, or one accessor of one contracted device ran on the
  state whose access counter was bumped.
\<close>

lemma hypervisor_mmio_cases:
  assumes "hypervisor_mmio t h = (r, t', h')"
  obtains (unhandled) k where "r = TRAP_UNHANDLED" "h' = h \<or> h' = count_mmio k h"
    | (load) k and d :: MmioDevice and off w t1 rd v where "mmio_device (md_read d) (md_write d)"
        "trap_decode (hv_mem h) t = Some t1" "r = TRAP_ADVANCE"
        "h' = snd (md_read d off w (count_mmio k h))"
        "t' = t1\<lparr>tr_frame := reg_write (tr_frame t) rd v\<rparr>"
    | (store) k and d :: MmioDevice and off w v where "mmio_device (md_read d) (md_write d)"
        "trap_decode (hv_mem h) t = Some t'" "r = TRAP_ADVANCE"
        "h' = md_write d off v w (count_mmio k h)"
proof (cases "mmio_find (tr_tval t)")
  case None
  with assms unhandled show ?thesis by (simp add: hypervisor_mmio_def)
next
  case (Some kd)
  obtain k d where find: "mmio_find (tr_tval t) = Some (k, d)" using Some by (cases kd) auto
  note dev = row_contract [OF find]
  show ?thesis
  proof (cases "trap_decode (hv_mem h) t")
    case None
    with assms unhandled find show ?thesis by (simp add: hypervisor_mmio_def)
  next
    case (Some t1)
    note spec = hypervisor_mmio_spec [OF find Some]
    show ?thesis
    proof (cases "decode_ls (tr_encoding t1)")
      case None
      with spec assms unhandled show ?thesis by auto
    next
      case (Some insn)
      show ?thesis
      proof (cases insn)
        case (Load w s rd)
        with Some spec assms show ?thesis
          by (intro load [OF dev \<open>trap_decode _ _ = _\<close>]) (auto simp: Let_def case_prod_beta)
      next
        case (Store w rs2)
        with Some spec assms \<open>trap_decode _ _ = _\<close> show ?thesis
          by (intro store [OF dev]) auto
      qed
    qed
  qed
qed

lemma count_mmio_frame [simp]:
  "cpu_view (count_mmio k h) = cpu_view (h\<lparr>hv_stats := hv_stats (count_mmio k h)\<rparr>)"
  "hyp_inv (count_mmio k h) = hyp_inv h" "hv_mem (count_mmio k h) = hv_mem h"
  "hv_running (count_mmio k h) = hv_running h" "hv_trace (count_mmio k h) = hv_trace h"
  "hv_shadow (count_mmio k h) = hv_shadow h" "hv_priv (count_mmio k h) = hv_priv h"
  "st_injections (hv_stats (count_mmio k h)) = st_injections (hv_stats h)"
  by (simp_all add: count_mmio_def)

lemma hypervisor_mmio_keeps:
  assumes "hypervisor_mmio t h = (r, t', h')"
  shows "\<exists>k. cpu_view h' = cpu_view h \<or> cpu_view h' = cpu_view (count_mmio k h)"
    and "hyp_inv h \<Longrightarrow> hyp_inv h'" and "kick_kept h h'"
proof -
  have kick: "kick_kept (count_mmio k h) h' \<Longrightarrow> kick_kept h h'" for k
    by (simp add: kick_kept_def count_mmio_def)
  show "kick_kept h h'"
    using assms
    by (cases rule: hypervisor_mmio_cases)
       (use kick in \<open>auto dest: mmio_device.rd_kick mmio_device.wr_kick intro: kick kick_kept_refl\<close>)
  have "\<exists>k g. (g = h \<or> g = count_mmio k h) \<and> cpu_view h' = cpu_view g \<and> (hyp_inv g \<longrightarrow> hyp_inv h')"
    using assms
  proof (cases rule: hypervisor_mmio_cases)
    case (unhandled k)
    then show ?thesis by auto
  next
    case (load k d off w t1 rd v)
    then have "cpu_view h' = cpu_view (count_mmio k h)" "dev_inv (count_mmio k h) \<Longrightarrow> dev_inv h'"
      using mmio_device.rd_cpu mmio_device.rd_inv by blast+
    with hyp_inv_device show ?thesis by blast
  next
    case (store k d off w v)
    then have "cpu_view h' = cpu_view (count_mmio k h)" "dev_inv (count_mmio k h) \<Longrightarrow> dev_inv h'"
      using mmio_device.wr_cpu mmio_device.wr_inv by blast+
    with hyp_inv_device show ?thesis by blast
  qed
  then obtain k g where g: "g = h \<or> g = count_mmio k h" "cpu_view h' = cpu_view g"
      "hyp_inv g \<longrightarrow> hyp_inv h'" by blast
  then show "\<exists>k. cpu_view h' = cpu_view h \<or> cpu_view h' = cpu_view (count_mmio k h)" by blast
  show "hyp_inv h \<Longrightarrow> hyp_inv h'" using g by auto
qed

interpretation mmio_handler: trap_handler "\<lambda>t h. Some (hypervisor_mmio t h)"
proof
  fix t t' h h' r
  assume "Some (hypervisor_mmio t h) = Some (r, t', h')"
  then have step: "hypervisor_mmio t h = (r, t', h')" by simp
  obtain g :: hyp where g: "cpu_view h' = cpu_view g" "hv_mem g = hv_mem h" "hv_running g = hv_running h"
      "hv_trace g = hv_trace h" "st_injections (hv_stats g) = st_injections (hv_stats h)"
    using hypervisor_mmio_keeps(1) [OF step] count_mmio_frame(3-8) by blast
  then show "hv_mem h' = hv_mem h" "hv_running h' = hv_running h" "hv_trace h' = hv_trace h"
    "st_injections (hv_stats h') = st_injections (hv_stats h)"
    using cpu_viewD [OF g(1)] by simp_all
  show "hyp_inv h \<Longrightarrow> hyp_inv h'" by (rule hypervisor_mmio_keeps(2) [OF step])
  show "kick_kept h h'" by (rule hypervisor_mmio_keeps(3) [OF step])
next
  fix t t' h h'
  assume "Some (hypervisor_mmio t h) = Some (TRAP_ADVANCE, t', h')"
  then have step: "hypervisor_mmio t h = (TRAP_ADVANCE, t', h')" by simp
  have "tr_length t' = insn_length (insn_of (hv_mem h) t) \<and> fr_mepc (tr_frame t') = fr_mepc (tr_frame t)"
    using step
    by (cases rule: hypervisor_mmio_cases)
       (auto dest: trap_decode_length dest: trap_decode_frame)
  then show "tr_length t' = insn_length (insn_of (hv_mem h) t)" "fr_mepc (tr_frame t') = fr_mepc (tr_frame t)"
    by simp_all
qed

text \<open>
  An unsigned narrow load is not truncated by the decoder, and the CLINT ignores the width: an
  \<open>lbu\<close> of \<open>mtimecmp\<close> puts its whole low word in the destination register, where the ISA gives
  its low byte zero extended. (The PLIC ignores the width as well; the 16550 and the block
  device's configuration space honour it.)
\<close>

theorem clint_lbu_gives_word:
  "decode_ls 0x00054283 = Some (Load Byte False 5) \<and>
   (\<forall>c. reg_read (tr_frame (fst (snd (hypervisor_mmio demo_load_trap
          (demo_hyp\<lparr>hv_mem := lbu_code, hv_mtimecmp := c\<rparr>))))) 5 = ucast c)"
proof (intro conjI allI)
  show ls: "decode_ls 0x00054283 = Some (Load Byte False 5)"
    by (simp add: decode_ls_def)
  fix c
  have dec: "trap_decode (hv_mem (demo_hyp\<lparr>hv_mem := lbu_code, hv_mtimecmp := c\<rparr>)) demo_load_trap =
      Some (demo_load_trap\<lparr>tr_encoding := 0x00054283, tr_length := 4\<rparr>)"
    by (simp add: demo_load_decode)
  show "reg_read (tr_frame (fst (snd (hypervisor_mmio demo_load_trap
      (demo_hyp\<lparr>hv_mem := lbu_code, hv_mtimecmp := c\<rparr>))))) 5 = ucast c"
    using hypervisor_mmio_spec [OF demo_load_find dec] ls
    by (simp add: clint_device_def clint_read_def count_mmio_def reg_read_write demo_load_trap_def)
qed

end
