(* ===== verification/Hyp_Trace.thy ===== *)
theory Hyp_Trace
  imports Hyp_Mmio
begin

text \<open>
  \<open>main/hyp_trace.c\<close>: the ring of the last sixteen traps, its dump, the statistics dump and the
  panic report. What is printed is recorded with the values it prints.
\<close>

section \<open>The ring\<close>

definition HYP_TRACE_LEN :: u32 where
  "HYP_TRACE_LEN = 16"

definition HYP_TRACE_DUMPS :: u32 where
  "HYP_TRACE_DUMPS = 4"

definition hyp_trace_record :: "u32 \<Rightarrow> u32 \<Rightarrow> u32 \<Rightarrow> hyp \<Rightarrow> hyp" where
  "hyp_trace_record cause epc tval h =
     on_trace (\<lambda>t.
       let i = tc_next t in
       t\<lparr>tc_ring := (tc_ring t)(unat i := \<lparr>te_cause = cause, te_epc = epc, te_tval = tval,
                                          te_priv = hv_priv h\<rparr>),
         tc_next := (i + 1) mod HYP_TRACE_LEN,
         tc_total := tc_total t + 1\<rparr>) h"

section \<open>The dump\<close>

text \<open>Fetch for the report: only inside the guest window, zeros otherwise or on failure.\<close>

definition report_fetch :: "mem \<Rightarrow> u32 \<Rightarrow> u32 \<times> u32" where
  "report_fetch m epc =
     (if epc \<ge> linux_base_address \<and> epc < linux_base_address + linux_size then
        (case guest_fetch m epc of None \<Rightarrow> (0, 0) | Some p \<Rightarrow> p)
      else (0, 0))"

definition trace_is_mem :: "u32 \<Rightarrow> u32 \<Rightarrow> bool" where
  "trace_is_mem encoding len =
     (if len = 4 then encoding AND 0x5f = 0x03
      else if len = 2 then
        (let q = encoding AND 0x3; f = drop_bit 13 encoding AND 0x7
         in q = 0 \<or> (q = 2 \<and> (f = 2 \<or> f = 6)))
      else False)"

definition trace_line :: "mem \<Rightarrow> u32 \<Rightarrow> trace_entry \<Rightarrow> line" where
  "trace_line m n e =
     (let (encoding, len) = report_fetch m (te_epc e) in
      Trace_line n (te_cause e) (te_epc e) (te_tval e) (te_priv e) encoding len
        (\<not> trace_is_mem encoding len \<and> (te_cause e = 5 \<or> te_cause e = 7)))"

fun trace_dump_loop :: "u32 \<Rightarrow> nat \<Rightarrow> nat \<Rightarrow> hyp \<Rightarrow> hyp" where
  "trace_dump_loop start n 0 h = h"
| "trace_dump_loop start n (Suc k) h =
     trace_dump_loop start (Suc n) k
       (hw (Printf (trace_line (hv_mem h) (of_nat n)
          (tc_ring (hv_trace h) (unat ((start + of_nat n) mod HYP_TRACE_LEN))))) h)"

definition hyp_trace_dump :: "string \<Rightarrow> hyp \<Rightarrow> hyp" where
  "hyp_trace_dump why h =
     (if tc_dumps (hv_trace h) \<ge> HYP_TRACE_DUMPS then h
      else
        let h = on_trace (\<lambda>t. t\<lparr>tc_dumps := tc_dumps t + 1\<rparr>) h;
            t = hv_trace h;
            count = (if tc_total t < HYP_TRACE_LEN then tc_total t else HYP_TRACE_LEN);
            start = (tc_next t + HYP_TRACE_LEN - count) mod HYP_TRACE_LEN;
            h = hw (Printf (Trace_header why (tc_total t))) h
        in trace_dump_loop start 0 (unat count) h)"

section \<open>The statistics\<close>

definition hyp_cause_name :: "u32 \<Rightarrow> string" where
  "hyp_cause_name cause =
     (if cause = 0 then ''insn-align'' else if cause = 1 then ''insn-fault''
      else if cause = 2 then ''illegal    '' else if cause = 3 then ''breakpoint ''
      else if cause = 4 then ''load-align '' else if cause = 5 then ''load-fault ''
      else if cause = 6 then ''store-align'' else if cause = 7 then ''store-fault''
      else if cause = 8 then ''ecall-U    '' else if cause = 11 then ''ecall-M    ''
      else ''other      '')"

definition HYP_STATS_CAUSES :: nat where
  "HYP_STATS_CAUSES = 48"

text \<open>The two sums of the first loop.\<close>

definition stats_total :: "stats \<Rightarrow> u64" where
  "stats_total s = (\<Sum>i\<leftarrow>[0..<HYP_STATS_CAUSES]. st_exc_cycles s i + st_irq_cycles s i)"

definition stats_traps :: "stats \<Rightarrow> u32" where
  "stats_traps s = (\<Sum>i\<leftarrow>[0..<HYP_STATS_CAUSES]. st_exc s i + st_irq s i)"

definition irq_label :: "nat \<Rightarrow> string" where
  "irq_label i =
     (if i = unat (HYP_INUM_TIMER + HYP_CLIC_MCAUSE_BASE) then ''host-timer '' else if i = unat (HYP_INUM_UART + HYP_CLIC_MCAUSE_BASE) then ''host-uart  ''
      else ''host-other '')"

definition hyp_virtio_blk_stats :: "hyp \<Rightarrow> line list" where
  "hyp_virtio_blk_stats h =
     (let b = hv_blk h in
      if bk_requests b = 0 then []
      else [Stats_blk (bk_requests b) (bk_reads b) (bk_writes b) (bk_errors b)])"

definition stats_lines :: "hyp \<Rightarrow> line list" where
  "stats_lines h =
     (let s = hv_stats h; total = stats_total s; traps = stats_traps s in
      if traps = 0 then []
      else
        [Stats_header traps (ucast (total div 1000)) (ucast (total div ucast traps))] @
        [Stats_exc (of_nat i) (hyp_cause_name (of_nat i)) (st_exc s i)
           (ucast (st_exc_cycles s i div ucast (st_exc s i))).
         i \<leftarrow> [0..<HYP_STATS_CAUSES], st_exc s i \<noteq> 0] @
        [Stats_irq (of_nat i) (irq_label i) (st_irq s i)
           (ucast (st_irq_cycles s i div ucast (st_irq s i))).
         i \<leftarrow> [0..<HYP_STATS_CAUSES], st_irq s i \<noteq> 0] @
        [Stats_mmio (md_name (mmio_devices ! i)) (st_mmio s i).
         i \<leftarrow> [0..<length mmio_devices]] @
        [Stats_csr (st_csr_read_only s) (st_csr_write s) (st_mrets s) (st_injections s),
         Stats_irq_code (st_irq_code_seen s),
         Stats_wfi (st_wfi_blocks s) (st_wfi_spins s) (st_unhandled s)
           (ucast (st_idle_cycles s div 1000))] @
        (if st_icache_syncs s \<noteq> 0 then
           let ic = st_icache_sync_cycles s in
           [Stats_icache (st_icache_syncs s) (ucast (ic div 1000))
              (ucast (ic div ucast (st_icache_syncs s)))
              (ucast ((ic * 100) div (if total \<noteq> 0 then total else 1)))]
         else []) @
        [Stats_uart (hyp_uart_overruns h) (hyp_uart_tx_dropped h)] @
        hyp_virtio_blk_stats h)"

definition hyp_stats_dump :: "hyp \<Rightarrow> hyp" where
  "hyp_stats_dump h = fold (\<lambda>l. hw (Printf l)) (stats_lines h) h"

section \<open>Panic\<close>

text \<open>
  Everything \<open>hyp_panic\<close> does before it spins for ever; \<open>core\<close> is \<open>rv_utils_get_core_id()\<close>.
\<close>

definition hyp_panic :: "u32 \<Rightarrow> frame \<Rightarrow> hyp \<Rightarrow> hyp" where
  "hyp_panic core f h =
     (let mepc = fr_mepc f;
          (encoding, len) = report_fetch (hv_mem h) mepc;
          h = hw (Printf (Panic_line (fr_mcause f) mepc (fr_mtval f) encoding len (slots f 2)
                            (fr_mstatus f) (hv_priv h) core)) h;
          h = on_trace (\<lambda>t. t\<lparr>tc_dumps := 0\<rparr>) h
      in hyp_trace_dump ''panic'' h)"

section \<open>The ring as a list\<close>

text \<open>
  The recorded traps, oldest first. The ring's indices are consistent when the next slot is the
  total modulo the length, which wrap-around of the 32-bit total respects.
\<close>

definition trace_wf :: "trace \<Rightarrow> bool" where
  "trace_wf t \<longleftrightarrow> unat (tc_next t) = unat (tc_total t) mod 16"

definition trace_count :: "trace \<Rightarrow> nat" where
  "trace_count t = min (unat (tc_total t)) 16"

definition trace_list :: "trace \<Rightarrow> trace_entry list" where
  "trace_list t =
     map (\<lambda>k. tc_ring t ((unat (tc_next t) + 16 - trace_count t + k) mod 16)) [0..<trace_count t]"

lemma length_trace_list [simp]: "length (trace_list t) = trace_count t"
  by (simp add: trace_list_def)

lemma trace_next_unat: "unat x < 16 \<Longrightarrow> unat ((x + 1) mod (16 :: u32)) = (unat x + 1) mod 16"
  by (simp add: unat_mod unat_word_ariths)

lemma trace_wf_record: "trace_wf (hv_trace h) \<Longrightarrow> trace_wf (hv_trace (hyp_trace_record c e v h))"
proof -
  assume wf: "trace_wf (hv_trace h)"
  have "unat (tc_total (hv_trace h) + 1) mod 16 = (unat (tc_total (hv_trace h)) + 1) mod 16"
    by (simp add: unat_word_ariths mod_mod_cancel)
  with wf show ?thesis
    by (simp add: trace_wf_def hyp_trace_record_def Let_def HYP_TRACE_LEN_def trace_next_unat
        mod_Suc_eq)
qed

definition ring_list :: "(nat \<Rightarrow> 'a) \<Rightarrow> nat \<Rightarrow> nat \<Rightarrow> 'a list" where
  "ring_list r n c = map (\<lambda>k. r ((n + 16 - c + k) mod 16)) [0..<c]"

lemma ring_list_filling:
  assumes "T < 16"
  shows "ring_list (r(T mod 16 := x)) ((T mod 16 + 1) mod 16) (T + 1) =
         ring_list r (T mod 16) T @ [x]"
proof (rule nth_equalityI)
  fix k assume "k < length (ring_list (r(T mod 16 := x)) ((T mod 16 + 1) mod 16) (T + 1))"
  then have "k < T + 1" by (simp add: ring_list_def)
  moreover have "((T + 1) mod 16 + 16 - (T + 1) + k) mod 16 = k"
  proof (cases "T + 1 = 16")
    case False
    with assms \<open>k < T + 1\<close> show ?thesis by simp
  qed (use \<open>k < T + 1\<close> in simp)
  ultimately show "ring_list (r(T mod 16 := x)) ((T mod 16 + 1) mod 16) (T + 1) ! k =
      (ring_list r (T mod 16) T @ [x]) ! k"
    using assms by (simp add: ring_list_def nth_append del: upt_Suc)
qed (simp add: ring_list_def)

lemma ring_list_full:
  assumes "n < 16"
  shows "ring_list (r(n := x)) ((n + 1) mod 16) 16 = tl (ring_list r n 16) @ [x]"
proof (rule nth_equalityI)
  fix k assume "k < length (ring_list (r(n := x)) ((n + 1) mod 16) 16)"
  then have k: "k < 16" by (simp add: ring_list_def)
  have "(n + 1 + k) mod 16 = n \<longleftrightarrow> k = 15"
  proof (cases "n + 1 + k < 16")
    case False
    then have "(n + 1 + k) mod 16 = n + 1 + k - 16"
      using k assms by (simp add: mod_if)
    with False k show ?thesis by auto
  qed simp
  moreover have "((n + 1) mod 16 + k) mod 16 = (n + 1 + k) mod 16" by (simp add: mod_add_left_eq)
  ultimately show "ring_list (r(n := x)) ((n + 1) mod 16) 16 ! k = (tl (ring_list r n 16) @ [x]) ! k"
    using k by (auto simp: ring_list_def nth_append nth_tl del: upt_Suc)
qed (simp add: ring_list_def)

lemma unat_plus_one_no_wrap: "x \<noteq> 0xFFFFFFFF \<Longrightarrow> unat (x + 1 :: u32) = unat x + 1"
proof -
  assume "x \<noteq> 0xFFFFFFFF"
  moreover have "(0xFFFFFFFF :: u32) = - 1" by simp
  ultimately have "x \<noteq> - 1" by metis
  then have "1 + x \<noteq> 0" by (metis add.commute eq_neg_iff_add_eq_0)
  then show ?thesis by (simp add: unatSuc add.commute)
qed

text \<open>
  C34. The trace is the list of the last sixteen traps: recording one appends it and forgets the
  oldest once sixteen are held, whatever the counter's value short of its 32-bit wrap.
\<close>

theorem hyp_trace_record_list:
  assumes "trace_wf (hv_trace h)" and "tc_total (hv_trace h) \<noteq> 0xFFFFFFFF"
  shows "trace_list (hv_trace (hyp_trace_record c e v h)) =
           (if trace_count (hv_trace h) < 16 then trace_list (hv_trace h)
            else tl (trace_list (hv_trace h))) @
           [\<lparr>te_cause = c, te_epc = e, te_tval = v, te_priv = hv_priv h\<rparr>]"
proof -
  define T where "T = unat (tc_total (hv_trace h))"
  define n where "n = unat (tc_next (hv_trace h))"
  define r where "r = tc_ring (hv_trace h)"
  define entry where "entry = \<lparr>te_cause = c, te_epc = e, te_tval = v, te_priv = hv_priv h\<rparr>"
  have n: "n = T mod 16" using assms(1) by (simp add: trace_wf_def n_def T_def)
  have total: "unat (tc_total (hv_trace h) + 1) = T + 1"
    using assms(2) by (simp add: T_def unat_plus_one_no_wrap)
  have old: "trace_list (hv_trace h) = ring_list r n (min T 16)"
    by (simp add: trace_list_def ring_list_def trace_count_def r_def n_def T_def)
  have new: "trace_list (hv_trace (hyp_trace_record c e v h)) =
      ring_list (r(n := entry)) ((n + 1) mod 16) (min (T + 1) 16)"
    using n by (simp add: trace_list_def ring_list_def trace_count_def hyp_trace_record_def Let_def
        HYP_TRACE_LEN_def trace_next_unat total n_def [symmetric] r_def entry_def)
  show ?thesis
    unfolding old new entry_def [symmetric] trace_count_def T_def [symmetric] n
    using ring_list_filling [of T r entry] ring_list_full [of "T mod 16" r entry] by simp
qed

text \<open>The seventeenth trap pushes the first one out.\<close>

definition demo_traces :: "nat \<Rightarrow> hyp" where
  "demo_traces n = fold (\<lambda>c. hyp_trace_record (of_nat c) 0 0) [0..<n] demo_hyp"

lemma demo_traces_Suc: "demo_traces (Suc n) = hyp_trace_record (of_nat n) 0 0 (demo_traces n)"
  by (simp add: demo_traces_def)

lemma demo_traces_total: "tc_total (hv_trace (demo_traces n)) = of_nat n"
  by (induction n)
     (simp_all add: demo_traces_Suc hyp_trace_record_def Let_def,
      simp add: demo_traces_def demo_hyp_def reset_defs)

lemma demo_traces_wf: "trace_wf (hv_trace (demo_traces n))"
proof (induction n)
  case 0
  show ?case by (simp add: demo_traces_def demo_hyp_def reset_defs trace_wf_def)
qed (simp add: demo_traces_Suc trace_wf_record)

theorem hyp_trace_record_list_witness:
  "trace_count (hv_trace (demo_traces 16)) = 16 \<and>
   trace_list (hv_trace (hyp_trace_record 100 0 0 (demo_traces 16))) =
     tl (trace_list (hv_trace (demo_traces 16))) @
     [\<lparr>te_cause = 100, te_epc = 0, te_tval = 0, te_priv = hv_priv (demo_traces 16)\<rparr>]"
  using hyp_trace_record_list [OF demo_traces_wf, of 16 100 0 0]
  by (simp add: demo_traces_total trace_count_def)

section \<open>The dump prints the list\<close>

definition dump_calls :: "string \<Rightarrow> hyp \<Rightarrow> hwcall list" where
  "dump_calls why h =
     Printf (Trace_header why (tc_total (hv_trace h))) #
     map (\<lambda>(n, e). Printf (trace_line (hv_mem h) (of_nat n) e))
       (zip [0..<trace_count (hv_trace h)] (trace_list (hv_trace h)))"

text \<open>The loop prints the entries from its counter on.\<close>

lemma trace_dump_loop_eq:
  "trace_dump_loop start n k h =
     h\<lparr>hv_host := (hv_host h)\<lparr>out_calls := out_calls (hv_host h) @
        map (\<lambda>j. Printf (trace_line (hv_mem h) (of_nat j)
               (tc_ring (hv_trace h) (unat ((start + of_nat j) mod HYP_TRACE_LEN))))) [n..<n + k]\<rparr>\<rparr>"
proof (induction k arbitrary: n h)
  case 0
  then show ?case by simp
next
  case (Suc k)
  have "[n..<n + Suc k] = n # [Suc n..<Suc n + k]" by (simp add: upt_conv_Cons)
  then show ?case by (simp add: Suc.IH hw_def)
qed

lemma dump_slot:
  fixes nxt cnt :: u32
  assumes "unat nxt < 16" "unat cnt \<le> 16" "j < 16"
  shows "unat (((nxt + 16 - cnt) mod 16 + of_nat j) mod 16) = (unat nxt + 16 - unat cnt + j) mod 16"
proof -
  have "unat (nxt + 16) = unat nxt + 16"
    using assms by (simp add: unat_word_ariths)
  moreover have "cnt \<le> nxt + 16"
    using assms calculation by (simp add: word_le_nat_alt)
  ultimately have "unat ((nxt + 16 - cnt) mod 16) = (unat nxt + 16 - unat cnt) mod 16"
    by (simp add: unat_mod unat_sub)
  moreover have "unat (x + of_nat j :: u32) = unat x + j" if "unat x < 16" for x :: u32
    using that assms by (simp add: unat_word_ariths unat_of_nat)
  ultimately show ?thesis
    by (simp add: unat_mod mod_add_left_eq)
qed

lemma hyp_trace_dump_eq:
  assumes "trace_wf (hv_trace h)" and "tc_dumps (hv_trace h) < HYP_TRACE_DUMPS"
  shows "hyp_trace_dump why h =
    h\<lparr>hv_trace := (hv_trace h)\<lparr>tc_dumps := tc_dumps (hv_trace h) + 1\<rparr>,
      hv_host := (hv_host h)\<lparr>out_calls := out_calls (hv_host h) @ dump_calls why h\<rparr>\<rparr>"
proof -
  let ?t = "hv_trace h"
  define cnt where "cnt = (if tc_total ?t < HYP_TRACE_LEN then tc_total ?t else HYP_TRACE_LEN)"
  have cnt: "unat cnt = trace_count ?t"
    by (simp add: cnt_def trace_count_def HYP_TRACE_LEN_def word_less_nat_alt)
  have nxt: "unat (tc_next ?t) < 16" using assms(1) by (simp add: trace_wf_def)
  have slot: "unat (((tc_next ?t + HYP_TRACE_LEN - cnt) mod HYP_TRACE_LEN + of_nat j) mod HYP_TRACE_LEN)
      = (unat (tc_next ?t) + 16 - trace_count ?t + j) mod 16" if "j < trace_count ?t" for j
  proof (rule dump_slot [OF nxt, of cnt, unfolded cnt, folded HYP_TRACE_LEN_def])
    show "trace_count ?t \<le> 16" by (simp add: trace_count_def)
    show "j < 16" using that by (simp add: trace_count_def)
  qed
  have calls: "map (\<lambda>j. Printf (trace_line (hv_mem h) (of_nat j) (tc_ring ?t (unat
        (((tc_next ?t + HYP_TRACE_LEN - cnt) mod HYP_TRACE_LEN + of_nat j) mod HYP_TRACE_LEN)))))
        [0..<trace_count ?t] =
      map (\<lambda>(n, e). Printf (trace_line (hv_mem h) (of_nat n) e))
        (zip [0..<trace_count ?t] (trace_list ?t))"
    by (rule nth_equalityI) (simp_all add: slot trace_list_def)
  have budget: "(HYP_TRACE_DUMPS \<le> tc_dumps ?t) = False" using assms(2) by simp
  show ?thesis
    by (simp add: hyp_trace_dump_def Let_def budget cnt_def [symmetric] trace_dump_loop_eq cnt calls
        dump_calls_def hw_def cong: if_cong)
qed

text \<open>
  A dump prints the recorded traps oldest first, each with the instruction at its pc when
  that pc is in the guest's memory window, and changes nothing but the dump budget; once the
  budget of four is used up it prints nothing, so a guest that faults in a loop cannot flood the
  console.
\<close>

theorem hyp_trace_dump_prints:
  assumes "trace_wf (hv_trace h)"
  shows "hyp_trace_dump why h =
    (if tc_dumps (hv_trace h) \<ge> 4 then h
     else h\<lparr>hv_trace := (hv_trace h)\<lparr>tc_dumps := tc_dumps (hv_trace h) + 1\<rparr>,
            hv_host := (hv_host h)\<lparr>out_calls := out_calls (hv_host h) @ dump_calls why h\<rparr>\<rparr>)"
proof (cases "tc_dumps (hv_trace h) < HYP_TRACE_DUMPS")
  case True
  then show ?thesis
    using hyp_trace_dump_eq [OF assms] by (simp add: HYP_TRACE_DUMPS_def not_le)
next
  case False
  then show ?thesis by (simp add: hyp_trace_dump_def HYP_TRACE_DUMPS_def not_less)
qed

theorem hyp_trace_dump_prints_witness:
  "out_calls (hv_host (hyp_trace_dump ''x'' (demo_traces 1))) =
     out_calls (hv_host (demo_traces 1)) @
     [Printf (Trace_header ''x'' 1), Printf (Trace_line 0 0 0 0 3 0 0 False)]"
proof -
  have one: "trace_count (hv_trace (demo_traces (Suc 0))) = 1"
    by (simp add: trace_count_def demo_traces_total)
  have "trace_list (hv_trace (demo_traces (Suc 0))) = [\<lparr>te_cause = 0, te_epc = 0, te_tval = 0, te_priv = 3\<rparr>]"
    by (simp add: trace_list_def one, simp add: trace_count_def demo_traces_def hyp_trace_record_def Let_def
        demo_hyp_def reset_defs HYP_TRACE_LEN_def)
  moreover have "tc_dumps (hv_trace (demo_traces (Suc 0))) = 0"
    by (simp add: demo_traces_def hyp_trace_record_def Let_def demo_hyp_def reset_defs)
  ultimately show ?thesis
    using hyp_trace_dump_prints [OF demo_traces_wf, of "''x''" "Suc 0"]
    by (simp add: dump_calls_def one demo_traces_total trace_line_def report_fetch_def
        linux_base_address_def trace_is_mem_def)
qed

end
