(* ===== verification/Hyp_Core.thy ===== *)
theory Hyp_Core
  imports Hyp_Csr Hyp_Trace
begin

text \<open>
  \<open>main/hyp_core.c\<close>: the dispatcher and the entry point that \<open>hyp_vectors.S\<close> calls. The result of
  \<open>hypervisor\<close> is its return value, the trap frame as the vector restores it and the new state, or
  \<open>None\<close> when it never returns.
\<close>

section \<open>Operations\<close>

definition hypervisor_trap :: "GuestTrap \<Rightarrow> hyp \<Rightarrow> (TrapResult \<times> GuestTrap \<times> hyp) option" where
  "hypervisor_trap t h =
     (let inject = (\<lambda>cause tval h.
            let (f, h) = hyp_inject (tr_frame t) cause tval h
            in Some (TRAP_RESUME, t\<lparr>tr_frame := f\<rparr>, h))
      in if tr_cause t = 2 then hypervisor_csr t h
         else if tr_cause t = 3 then
           (if cs_mtvec (hv_shadow h) = 0 then Some (TRAP_UNHANDLED, t, h)
            else inject 3 (fr_mepc (tr_frame t)) h)
         else if tr_cause t = 5 \<or> tr_cause t = 7 then
           (if mmio_find (tr_tval t) \<noteq> None then Some (hypervisor_mmio t h)
            else if cs_mtvec (hv_shadow h) = 0 then Some (TRAP_UNHANDLED, t, h)
            else inject (tr_cause t) (tr_tval t) (hyp_trace_dump ''injecting access fault'' h))
         else if tr_cause t = 8 then
           (if cs_mtvec (hv_shadow h) = 0 then Some (TRAP_UNHANDLED, t, h)
            else inject 8 0 h)
         else Some (TRAP_UNHANDLED, t, h))"

text \<open>The histogram slot of a cause, clamped.\<close>

definition stats_slot :: "u32 \<Rightarrow> nat" where
  "stats_slot code =
     (if code < of_nat HYP_STATS_CAUSES then unat code else HYP_STATS_CAUSES - 1)"

definition hypervisor :: "frame \<Rightarrow> hyp \<Rightarrow> (bool \<times> frame \<times> hyp) option" where
  "hypervisor f h =
     (if \<not> hv_running h then Some (False, f, h)
      else
        let mcause = fr_mcause f;
            (entry_cycles, h) = rv_utils_get_cycle_count h;
            h = h\<lparr>hv_idle_cycles := 0\<rparr>;
            h = hyp_trace_record mcause (fr_mepc f) (fr_mtval f) h
        in if mcause AND 0x80000000 \<noteq> 0 then
             let code = mcause AND 0x7fffffff;
                 slot = stats_slot code;
                 h = on_stats (\<lambda>s. s\<lparr>st_irq_code_seen := code\<rparr>) h;
                 h = hyp_poll_host_devices h;
                 (f, h) = hyp_deliver_pending f h;
                 h = on_stats (\<lambda>s. s\<lparr>st_irq := (st_irq s)(slot := st_irq s slot + 1)\<rparr>) h;
                 (now, h) = rv_utils_get_cycle_count h;
                 h = on_stats (\<lambda>s. s\<lparr>st_irq_cycles := (st_irq_cycles s)(slot :=
                       st_irq_cycles s slot + ucast (now - entry_cycles - hv_idle_cycles h))\<rparr>) h
             in Some (True, f, h)
           else
             (case hypervisor_trap \<lparr>tr_frame = f, tr_cause = mcause, tr_tval = fr_mtval f,
                                    tr_encoding = 0, tr_length = 0\<rparr> h of
                None \<Rightarrow> None
              | Some (outcome, t, h) \<Rightarrow>
                  let slot = stats_slot mcause;
                      h = on_stats (\<lambda>s. s\<lparr>st_exc := (st_exc s)(slot := st_exc s slot + 1)\<rparr>) h;
                      (now, h) = rv_utils_get_cycle_count h;
                      h = on_stats (\<lambda>s. s\<lparr>st_exc_cycles := (st_exc_cycles s)(slot :=
                            st_exc_cycles s slot +
                            ucast (now - entry_cycles - hv_idle_cycles h))\<rparr>) h;
                      h = (if outcome = TRAP_UNHANDLED
                           then on_stats (\<lambda>s. s\<lparr>st_unhandled := st_unhandled s + 1\<rparr>) h else h)
                  in Some (trap_finish outcome t h)))"

section \<open>The dispatcher as a handler with injection\<close>

text \<open>
  What the dispatcher adds to its handlers: it either behaves as one of them or injects exactly
  one exception, which shuts the gate for the delivery that follows.
\<close>

definition injected :: "GuestTrap \<Rightarrow> hyp \<Rightarrow> u32 \<Rightarrow> u32 \<Rightarrow> (TrapResult \<times> GuestTrap \<times> hyp) option" where
  "injected t h cause tval =
     Some (TRAP_RESUME, t\<lparr>tr_frame := fst (hyp_inject (tr_frame t) cause tval h)\<rparr>,
           snd (hyp_inject (tr_frame t) cause tval h))"

lemma hypervisor_trap_eq:
  "hypervisor_trap t h =
     (if tr_cause t = 2 then hypervisor_csr t h
      else if (tr_cause t = 5 \<or> tr_cause t = 7) \<and> mmio_find (tr_tval t) \<noteq> None
        then Some (hypervisor_mmio t h)
      else if tr_cause t \<notin> {3, 5, 7, 8} \<or> cs_mtvec (hv_shadow h) = 0
        then Some (TRAP_UNHANDLED, t, h)
      else if tr_cause t = 3 then injected t h 3 (fr_mepc (tr_frame t))
      else if tr_cause t = 8 then injected t h 8 0
      else injected t (hyp_trace_dump ''injecting access fault'' h) (tr_cause t) (tr_tval t))"
  by (auto simp: hypervisor_trap_def Let_def injected_def case_prod_beta)

lemma trace_dump_loop_frame:
  "trace_dump_loop start n k h = h\<lparr>hv_host := hv_host (trace_dump_loop start n k h)\<rparr>"
  by (simp add: trace_dump_loop_eq)

lemma hyp_trace_dump_frame [simp, frame_simps]:
  "hv_mem (hyp_trace_dump w h) = hv_mem h" "hv_running (hyp_trace_dump w h) = hv_running h"
  "hv_shadow (hyp_trace_dump w h) = hv_shadow h" "hv_priv (hyp_trace_dump w h) = hv_priv h"
  "hv_stats (hyp_trace_dump w h) = hv_stats h" "hyp_inv (hyp_trace_dump w h) = hyp_inv h"
  "tc_ring (hv_trace (hyp_trace_dump w h)) = tc_ring (hv_trace h)"
  "tc_next (hv_trace (hyp_trace_dump w h)) = tc_next (hv_trace h)"
  "tc_total (hv_trace (hyp_trace_dump w h)) = tc_total (hv_trace h)"
  "hv_blk (hyp_trace_dump w h) = hv_blk h"
  by (simp_all add: hyp_trace_dump_def Let_def trace_dump_loop_eq hyp_inv_def dev_inv_def)

lemma hyp_trace_record_frame [simp, frame_simps]:
  "hv_mem (hyp_trace_record c e v h) = hv_mem h"
  "hv_running (hyp_trace_record c e v h) = hv_running h"
  "hv_shadow (hyp_trace_record c e v h) = hv_shadow h"
  "hv_priv (hyp_trace_record c e v h) = hv_priv h"
  "hv_stats (hyp_trace_record c e v h) = hv_stats h"
  "hyp_inv (hyp_trace_record c e v h) = hyp_inv h"
  by (simp_all add: hyp_trace_record_def)

lemma hypervisor_trap_cases:
  assumes "hypervisor_trap t h = Some (r, t', h')"
  obtains (csr) "tr_cause t = 2" "hypervisor_csr t h = Some (r, t', h')"
    | (mmio) "tr_cause t = 5 \<or> tr_cause t = 7" "mmio_find (tr_tval t) \<noteq> None"
        "hypervisor_mmio t h = (r, t', h')"
    | (refused) "r = TRAP_UNHANDLED" "t' = t" "h' = h" "tr_cause t \<noteq> 2"
    | (inject) g cause tval where "tr_cause t \<in> {3, 5, 7, 8}" "cs_mtvec (hv_shadow h) \<noteq> 0"
        "g = h \<or> g = hyp_trace_dump ''injecting access fault'' h"
        "r = TRAP_RESUME" "t' = t\<lparr>tr_frame := fst (hyp_inject (tr_frame t) cause tval g)\<rparr>"
        "h' = snd (hyp_inject (tr_frame t) cause tval g)"
proof -
  consider (c) "tr_cause t = 2"
    | (m) "tr_cause t = 5 \<or> tr_cause t = 7" "mmio_find (tr_tval t) \<noteq> None"
    | (u) "tr_cause t \<noteq> 2" "\<not> ((tr_cause t = 5 \<or> tr_cause t = 7) \<and> mmio_find (tr_tval t) \<noteq> None)"
        "tr_cause t \<notin> {3, 5, 7, 8} \<or> cs_mtvec (hv_shadow h) = 0"
    | (i) "tr_cause t \<in> {3, 5, 7, 8}" "cs_mtvec (hv_shadow h) \<noteq> 0"
        "\<not> ((tr_cause t = 5 \<or> tr_cause t = 7) \<and> mmio_find (tr_tval t) \<noteq> None)"
    by auto
  then show ?thesis
  proof cases
    case c
    with assms csr show ?thesis by (simp add: hypervisor_trap_eq)
  next
    case m
    with assms mmio show ?thesis by (auto simp: hypervisor_trap_eq)
  next
    case u
    with assms have "r = TRAP_UNHANDLED \<and> t' = t \<and> h' = h"
      by (auto simp: hypervisor_trap_eq)
    with u refused show ?thesis by blast
  next
    case i
    then have "hypervisor_trap t h \<in> {injected t h 3 (fr_mepc (tr_frame t)), injected t h 8 0,
        injected t (hyp_trace_dump ''injecting access fault'' h) (tr_cause t) (tr_tval t)}"
      by (auto simp: hypervisor_trap_eq)
    then obtain g cause tval where g: "g = h \<or> g = hyp_trace_dump ''injecting access fault'' h"
        and eq: "hypervisor_trap t h = injected t g cause tval"
      by blast
    from assms eq have "r = TRAP_RESUME"
        "t' = t\<lparr>tr_frame := fst (hyp_inject (tr_frame t) cause tval g)\<rparr>"
        "h' = snd (hyp_inject (tr_frame t) cause tval g)"
      by (simp_all add: injected_def)
    with inject [OF i(1,2) g] show ?thesis by blast
  qed
qed

interpretation dispatch: trap_route hypervisor_trap
proof
  fix t t' h h' r
  assume step: "hypervisor_trap t h = Some (r, t', h')"
  show "hv_mem h' = hv_mem h"
    using step by (cases rule: hypervisor_trap_cases)
      (auto dest: csr_handler.keeps_mem mmio_handler.keeps_mem [OF arg_cong [where f = Some]])
  show "hv_running h' = hv_running h"
    using step by (cases rule: hypervisor_trap_cases)
      (auto dest: csr_handler.keeps_running mmio_handler.keeps_running [OF arg_cong [where f = Some]])
  show "hyp_inv h'" if "hyp_inv h"
    using step that by (cases rule: hypervisor_trap_cases)
      (auto dest: csr_handler.keeps_inv mmio_handler.keeps_inv [OF arg_cong [where f = Some]]
        intro: hyp_inv_inject)
  show "kick_kept h h'"
    using step by (cases rule: hypervisor_trap_cases)
      (auto simp: kick_kept_same hyp_inject_rest
        dest: csr_handler.keeps_kick mmio_handler.keeps_kick [OF arg_cong [where f = Some]])
next
  fix t t' h h'
  assume step: "hypervisor_trap t h = Some (TRAP_ADVANCE, t', h')"
  show "tr_length t' = insn_length (insn_of (hv_mem h) t)"
    using step by (cases rule: hypervisor_trap_cases)
      (auto dest: csr_handler.decoded mmio_handler.decoded [OF arg_cong [where f = Some]])
  show "fr_mepc (tr_frame t') = fr_mepc (tr_frame t)"
    using step by (cases rule: hypervisor_trap_cases)
      (auto dest: csr_handler.keeps_mepc mmio_handler.keeps_mepc [OF arg_cong [where f = Some]])
qed

section \<open>The two halves of hypervisor()\<close>

text \<open>The state a trap is handled in, and the accounting on the way out.\<close>

definition trap_entry :: "frame \<Rightarrow> hyp \<Rightarrow> hyp" where
  "trap_entry f h =
     hyp_trace_record (fr_mcause f) (fr_mepc f) (fr_mtval f)
       ((snd (rv_utils_get_cycle_count h))\<lparr>hv_idle_cycles := 0\<rparr>)"

definition trap_of :: "frame \<Rightarrow> GuestTrap" where
  "trap_of f = \<lparr>tr_frame = f, tr_cause = fr_mcause f, tr_tval = fr_mtval f,
                tr_encoding = 0, tr_length = 0\<rparr>"

definition account_exc :: "u32 \<Rightarrow> u32 \<Rightarrow> TrapResult \<Rightarrow> hyp \<Rightarrow> hyp" where
  "account_exc mcause entry_cycles outcome h =
     (let slot = stats_slot mcause;
          h = on_stats (\<lambda>s. s\<lparr>st_exc := (st_exc s)(slot := st_exc s slot + 1)\<rparr>) h;
          (now, h) = rv_utils_get_cycle_count h;
          h = on_stats (\<lambda>s. s\<lparr>st_exc_cycles := (st_exc_cycles s)(slot :=
                st_exc_cycles s slot + ucast (now - entry_cycles - hv_idle_cycles h))\<rparr>) h
      in if outcome = TRAP_UNHANDLED
         then on_stats (\<lambda>s. s\<lparr>st_unhandled := st_unhandled s + 1\<rparr>) h else h)"

definition account_irq :: "nat \<Rightarrow> u32 \<Rightarrow> hyp \<Rightarrow> hyp" where
  "account_irq slot entry_cycles h =
     (let h = on_stats (\<lambda>s. s\<lparr>st_irq := (st_irq s)(slot := st_irq s slot + 1)\<rparr>) h;
          (now, h) = rv_utils_get_cycle_count h
      in on_stats (\<lambda>s. s\<lparr>st_irq_cycles := (st_irq_cycles s)(slot :=
           st_irq_cycles s slot + ucast (now - entry_cycles - hv_idle_cycles h))\<rparr>) h)"

lemma hypervisor_exception:
  assumes "hv_running h" and "\<not> bit (fr_mcause f) 31"
  shows "hypervisor f h =
    (case hypervisor_trap (trap_of f) (trap_entry f h) of
       None \<Rightarrow> None
     | Some (outcome, t, h') \<Rightarrow>
         Some (trap_finish outcome t
           (account_exc (fr_mcause f) (fst (rv_utils_get_cycle_count h)) outcome h')))"
  using assms
  by (simp add: hypervisor_def trap_entry_def trap_of_def account_exc_def Let_def case_prod_beta
      flag_simps split: option.split)

definition irq_entry :: "frame \<Rightarrow> hyp \<Rightarrow> hyp" where
  "irq_entry f h =
     hyp_poll_host_devices
       (on_stats (\<lambda>s. s\<lparr>st_irq_code_seen := fr_mcause f AND 0x7fffffff\<rparr>) (trap_entry f h))"

lemma hypervisor_interrupt:
  assumes "hv_running h" and "bit (fr_mcause f) 31"
  shows "hypervisor f h =
    Some (True, fst (hyp_deliver_pending f (irq_entry f h)),
      account_irq (stats_slot (fr_mcause f AND 0x7fffffff)) (fst (rv_utils_get_cycle_count h))
        (snd (hyp_deliver_pending f (irq_entry f h))))"
  using assms
  by (simp add: hypervisor_def trap_entry_def irq_entry_def account_irq_def Let_def case_prod_beta
      flag_simps)

lemma account_frame [simp, frame_simps]:
  "hv_mem (account_exc c e r h) = hv_mem h" "hv_mem (account_irq s e h) = hv_mem h"
  "hv_running (account_exc c e r h) = hv_running h" "hv_running (account_irq s e h) = hv_running h"
  "hv_shadow (account_exc c e r h) = hv_shadow h" "hv_shadow (account_irq s e h) = hv_shadow h"
  "hv_priv (account_exc c e r h) = hv_priv h" "hv_priv (account_irq s e h) = hv_priv h"
  "hv_plic (account_exc c e r h) = hv_plic h" "hv_mtimecmp (account_exc c e r h) = hv_mtimecmp h"
  "hyp_inv (account_exc c e r h) = hyp_inv h" "hyp_inv (account_irq s e h) = hyp_inv h"
  "hv_blk (account_exc c e r h) = hv_blk h" "hv_blk (account_irq s e h) = hv_blk h"
  "hv_trace (account_exc c e r h) = hv_trace h" "hv_trace (account_irq s e h) = hv_trace h"
  "st_injections (hv_stats (account_exc c e r h)) = st_injections (hv_stats h)"
  "st_injections (hv_stats (account_irq s e h)) = st_injections (hv_stats h)"
  by (simp_all add: account_exc_def account_irq_def Let_def case_prod_beta)

lemma trap_entry_frame [simp, frame_simps]:
  "hv_mem (trap_entry f h) = hv_mem h" "hv_running (trap_entry f h) = hv_running h"
  "hv_shadow (trap_entry f h) = hv_shadow h" "hv_priv (trap_entry f h) = hv_priv h"
  "hv_stats (trap_entry f h) = hv_stats h" "hyp_inv (trap_entry f h) = hyp_inv h"
  "hv_blk (trap_entry f h) = hv_blk h"
  "hv_plic (trap_entry f h) = hv_plic h" "hv_mtimecmp (trap_entry f h) = hv_mtimecmp h"
  by (simp_all add: trap_entry_def hyp_trace_record_def)

lemma hypervisor_off: "\<not> hv_running h \<Longrightarrow> hypervisor f h = Some (False, f, h)"
  unfolding hypervisor_def by (simp only: not_True_eq_False not_False_eq_True if_True simp_thms)

lemma hypervisor_cases:
  assumes "hypervisor f h = Some (b, f', h')"
  obtains (off) "\<not> hv_running h" "b = False" "f' = f" "h' = h"
    | (exc) outcome t h1 where "hv_running h" "\<not> bit (fr_mcause f) 31"
        "hypervisor_trap (trap_of f) (trap_entry f h) = Some (outcome, t, h1)"
        "trap_finish outcome t (account_exc (fr_mcause f) (fst (rv_utils_get_cycle_count h)) outcome h1)
           = (b, f', h')"
    | (irq) h1 where "hv_running h" "bit (fr_mcause f) 31" "b = True"
        "hyp_deliver_pending f (irq_entry f h) = (f', h1)"
        "h' = account_irq (stats_slot (fr_mcause f AND 0x7fffffff))
                (fst (rv_utils_get_cycle_count h)) h1"
proof (cases "hv_running h")
  case False
  with assms have "b = False" "f' = f" "h' = h" by (simp_all add: hypervisor_off)
  with off False show ?thesis by blast
next
  case running: True
  show ?thesis
  proof (cases "bit (fr_mcause f) 31")
    case True
    obtain f1 h1 where d: "hyp_deliver_pending f (irq_entry f h) = (f1, h1)"
      by (cases "hyp_deliver_pending f (irq_entry f h)")
    have "b = True" "f' = f1" "h' = account_irq (stats_slot (fr_mcause f AND 0x7fffffff))
        (fst (rv_utils_get_cycle_count h)) h1"
      using assms unfolding hypervisor_interrupt [OF running True] d by simp_all
    with irq [OF running True _ _ \<open>h' = _\<close>] d show ?thesis by blast
  next
    case False
    note eq = assms [unfolded hypervisor_exception [OF running False]]
    show ?thesis
    proof (cases "hypervisor_trap (trap_of f) (trap_entry f h)")
      case None
      with eq show ?thesis by simp
    next
      case (Some p)
      obtain outcome t h1 where p: "p = (outcome, t, h1)" by (cases p)
      from eq Some p have "trap_finish outcome t
          (account_exc (fr_mcause f) (fst (rv_utils_get_cycle_count h)) outcome h1) = (b, f', h')"
        by simp
      with exc [OF running False] Some p show ?thesis by blast
    qed
  qed
qed

lemma irq_entry_frame [simp, frame_simps]:
  "hv_mem (irq_entry f h) = hv_mem h" "hv_running (irq_entry f h) = hv_running h"
  "hv_shadow (irq_entry f h) = hv_shadow h" "hv_priv (irq_entry f h) = hv_priv h"
  "st_injections (hv_stats (irq_entry f h)) = st_injections (hv_stats h)"
  by (simp_all add: irq_entry_def)

lemma irq_entry_inv: "hyp_inv h \<Longrightarrow> hyp_inv (irq_entry f h)"
  by (simp add: irq_entry_def hyp_inv_poll)

section \<open>Properties of the monitor's entry point\<close>

lemma exception_injects_once:
  assumes "hypervisor_trap t h = Some (r, t', h')" and "hyp_inv h"
    and "trap_finish r t' g = (b, f, h'')"
    and "st_injections (hv_stats g) = st_injections (hv_stats h')" "hv_shadow g = hv_shadow h'"
  shows "st_injections (hv_stats h'') = st_injections (hv_stats h) \<or>
         st_injections (hv_stats h'') = st_injections (hv_stats h) + 1"
  using assms(1)
proof (cases rule: hypervisor_trap_cases)
  case csr
  then show ?thesis using csr_handler.finish_injects_once assms(3,4) by blast
next
  case mmio
  then have "Some (hypervisor_mmio t h) = Some (r, t', h')" by simp
  then show ?thesis using mmio_handler.finish_injects_once assms(3,4) by blast
next
  case refused
  with assms(3,4) show ?thesis by (simp add: trap_finish_def)
next
  case (inject x cause tval)
  then have "hv_priv x \<le> 3" "hv_stats x = hv_stats h" using assms(2) by (auto simp: hyp_inv_def)
  then have "\<not> bit (cs_mstatus (hv_shadow g)) 3"
    using inject assms(5) by (simp add: hyp_inject_gate_shut)
  then have "h'' = g" using assms(3) inject by (simp add: trap_finish_def hyp_deliver_shut)
  with inject assms(4) \<open>hv_stats x = hv_stats h\<close> show ?thesis by (simp add: hyp_inject_rest)
qed

text \<open>An injected exception: the gate is shut behind it, so nothing else is delivered.\<close>

lemma exception_injected:
  assumes "hv_running h" and "\<not> bit (fr_mcause f) 31" and "hv_priv g \<le> 3"
    and "hypervisor_trap (trap_of f) (trap_entry f h) = injected (trap_of f) g c v"
  shows "hypervisor f h =
    Some (True, fst (hyp_inject f c v g),
      account_exc (fr_mcause f) (fst (rv_utils_get_cycle_count h)) TRAP_RESUME
        (snd (hyp_inject f c v g)))"
proof -
  let ?g = "account_exc (fr_mcause f) (fst (rv_utils_get_cycle_count h)) TRAP_RESUME
        (snd (hyp_inject f c v g))"
  have "\<not> bit (cs_mstatus (hv_shadow ?g)) 3"
    using hyp_inject_gate_shut [OF assms(3)] by simp
  then have "hyp_deliver_pending x ?g = (x, ?g)" for x by (rule hyp_deliver_shut)
  moreover have "tr_frame (trap_of f) = f" by (simp add: trap_of_def)
  ultimately show ?thesis
    unfolding hypervisor_exception [OF assms(1,2)] assms(4)
    by (simp add: injected_def trap_finish_def)
qed

lemma hypervisor_keeps:
  assumes "hypervisor f h = Some (b, f', h')" and "hyp_inv h"
  shows "hv_mem h' = hv_mem h \<and> hv_running h' = hv_running h \<and> hyp_inv h' \<and>
         (st_injections (hv_stats h') = st_injections (hv_stats h) \<or>
          st_injections (hv_stats h') = st_injections (hv_stats h) + 1)"
  using assms(1)
proof (cases rule: hypervisor_cases)
  case off
  with assms(2) show ?thesis by simp
next
  case (exc outcome t h1)
  from dispatch.finish_keeps [OF exc(3,4)] have "hv_mem h' = hv_mem h" "hv_running h' = hv_running h"
      "hyp_inv h'"
    using assms(2) by simp_all
  moreover have "st_injections (hv_stats h') = st_injections (hv_stats h) \<or>
      st_injections (hv_stats h') = st_injections (hv_stats h) + 1"
    using exception_injects_once [OF exc(3) _ exc(4)] assms(2) by simp
  ultimately show ?thesis by simp
next
  case (irq h1)
  from deliver_facts [OF irq(4)] irq_entry_inv [OF assms(2), of f] irq(5) show ?thesis by auto
qed

text \<open>Handling a trap never takes back a kick of the block queue.\<close>

lemma hypervisor_keeps_kick:
  assumes "hypervisor f h = Some (b, f', h')"
  shows "kick_kept h h'"
  using assms
proof (cases rule: hypervisor_cases)
  case (exc outcome t h1)
  from dispatch.finish_keeps(4) [OF exc(3,4)] show ?thesis by (simp add: kick_kept_def)
next
  case (irq h1)
  with deliver_facts(8) [OF irq(4)] show ?thesis by (simp add: kick_kept_def irq_entry_def)
qed simp

text \<open>
  C1. Safety of the entry point. Whatever trap arrives, handling it never writes guest memory,
  never changes whether the guest runs, keeps the invariant of the monitor (device wiring,
  legal privilege, no stored interrupt wires), and enters the guest's trap handler at most once.
\<close>

theorem hypervisor_safe:
  assumes "hypervisor f h = Some (b, f', h')" and "hyp_inv h"
  shows "hv_mem h' = hv_mem h \<and> hv_running h' = hv_running h \<and> hyp_inv h' \<and>
         (st_injections (hv_stats h') = st_injections (hv_stats h) \<or>
          st_injections (hv_stats h') = st_injections (hv_stats h) + 1)"
  using assms by (rule hypervisor_keeps)

text \<open>
  C26. The only trap that may never return to the guest or the panic path is the \<open>wfi\<close>
  instruction: for every other trap \<open>hypervisor\<close> terminates.
\<close>

theorem hypervisor_terminates:
  assumes "hypervisor f h = None"
  shows "hv_running h \<and> fr_mcause f = 2 \<and> fr_mtval f = 0x10500073 \<and>
         hypervisor_wfi (trap_entry f h) = None"
proof -
  have run: "hv_running h" using assms hypervisor_off [of h f] by fastforce
  have "\<not> bit (fr_mcause f) 31" using assms hypervisor_interrupt [OF run] by auto
  with assms run have "hypervisor_trap (trap_of f) (trap_entry f h) = None"
    by (auto simp: hypervisor_exception split: option.splits)
  then have csr: "fr_mcause f = 2" "hypervisor_csr (trap_of f) (trap_entry f h) = None"
    by (auto simp: hypervisor_trap_eq injected_def trap_of_def split: if_splits)
  have dec: "trap_decode m (trap_of f) = Some ((trap_of f)\<lparr>tr_encoding := fr_mtval f,
      tr_length := (if fr_mtval f AND 0x3 = 0x3 then 4 else 2)\<rparr>)" for m
    using csr(1) by (simp add: trap_decode_def trap_of_def)
  from csr(2) have "fr_mtval f = 0x10500073 \<and> hypervisor_wfi (trap_entry f h) = None"
    by (auto simp: hypervisor_csr_def dec Let_def split: if_splits option.splits prod.splits)
  with run csr(1) show ?thesis by simp
qed

definition demo_wfi_frame :: frame where
  "demo_wfi_frame = \<lparr>slots = (\<lambda>_. 0)(0 := 0x48000000), fr_mstatus = 0, fr_mcause = 2,
                     fr_mtval = 0x10500073\<rparr>"

definition demo_stuck :: hyp where
  "demo_stuck = demo_hyp\<lparr>hv_shadow := reset_shadow\<lparr>cs_mie := 0x800\<rparr>\<rparr>"

theorem hypervisor_terminates_witness:
  "hypervisor demo_wfi_frame demo_stuck = None \<and> fr_mtval demo_wfi_frame = 0x10500073"
proof -
  have stuck: "hypervisor_wfi (trap_entry demo_wfi_frame demo_stuck) = None"
    by (rule wfi_hangs)
       (simp_all add: demo_stuck_def demo_hyp_def reset_defs flag_simps)
  have dec: "trap_decode m (trap_of demo_wfi_frame) = Some ((trap_of demo_wfi_frame)\<lparr>
      tr_encoding := 0x10500073, tr_length := 4\<rparr>)" for m
    by (simp add: trap_decode_def trap_of_def demo_wfi_frame_def)
  have "hypervisor_trap (trap_of demo_wfi_frame) (trap_entry demo_wfi_frame demo_stuck) = None"
    using stuck by (simp add: hypervisor_trap_eq hypervisor_csr_def dec Let_def)
      (simp add: trap_of_def demo_wfi_frame_def)
  then have none: "hypervisor demo_wfi_frame demo_stuck = None"
    by (subst hypervisor_exception)
       (simp_all add: demo_stuck_def demo_hyp_def demo_wfi_frame_def flag_simps)
  with hypervisor_terminates [OF none] show ?thesis by simp
qed

text \<open>
  The monitor gives up on a trap exactly when the guest is not running or the dispatcher
  refuses the trap. In particular the check for a handler that asked to advance without having
  decoded the instruction (which would loop on it for ever) never fires.
\<close>

theorem hypervisor_gives_up:
  assumes "hypervisor f h = Some (b, f', h')"
  shows "\<not> b \<longleftrightarrow> \<not> hv_running h \<or>
    \<not> bit (fr_mcause f) 31 \<and>
    (\<exists>t h1. hypervisor_trap (trap_of f) (trap_entry f h) = Some (TRAP_UNHANDLED, t, h1))"
  using assms
proof (cases rule: hypervisor_cases)
  case (exc outcome t h1)
  then show ?thesis using dispatch.finish_handled [OF exc(3)] by (metis fst_conv option.inject prod.inject)
qed auto

text \<open>A misaligned store (cause 6) is nobody's: the caller panics.\<close>

definition demo_misaligned :: frame where
  "demo_misaligned = \<lparr>slots = (\<lambda>_. 0), fr_mstatus = 0, fr_mcause = 6, fr_mtval = 1\<rparr>"

theorem hypervisor_gives_up_witness:
  "\<exists>f' h'. hypervisor demo_misaligned demo_hyp = Some (False, f', h')"
proof -
  have run: "hv_running demo_hyp" "\<not> bit (fr_mcause demo_misaligned) 31"
    by (simp_all add: demo_hyp_def demo_misaligned_def)
  have u: "hypervisor_trap (trap_of demo_misaligned) (trap_entry demo_misaligned demo_hyp) =
      Some (TRAP_UNHANDLED, trap_of demo_misaligned, trap_entry demo_misaligned demo_hyp)"
    by (simp add: hypervisor_trap_eq) (simp add: trap_of_def demo_misaligned_def)
  have eq: "hypervisor demo_misaligned demo_hyp = Some (False, tr_frame (trap_of demo_misaligned),
      account_exc (fr_mcause demo_misaligned) (fst (rv_utils_get_cycle_count demo_hyp))
        TRAP_UNHANDLED (trap_entry demo_misaligned demo_hyp))"
    by (simp add: hypervisor_exception [OF run] u trap_finish_def)
  with hypervisor_gives_up [OF eq] run u show ?thesis by auto
qed

text \<open>
  C7. Emulated instructions are executed exactly once. When the dispatcher emulates an instruction,
  the guest continues at the address right behind it, two bytes further for a compressed instruction
  and four for any other, by the two low bits of the instruction that trapped; or, if an interrupt is
  delivered, its handler starts with exactly that address saved. All other registers are those the
  emulation left.
\<close>

theorem hypervisor_advances:
  assumes "hv_running h" and "\<not> bit (fr_mcause f) 31"
    and "hypervisor_trap (trap_of f) (trap_entry f h) = Some (TRAP_ADVANCE, t, h1)"
    and "next_pc = fr_mepc f +
           insn_length (trapped_insn (hv_mem h) (fr_mcause f) (fr_mtval f) (fr_mepc f))"
  shows "\<exists>f' h'. hypervisor f h = Some (True, f', h') \<and>
    (fr_mepc f' = next_pc \<and> hv_shadow h' = hv_shadow h1 \<or>
     cs_mepc (hv_shadow h') = next_pc \<and> hv_priv h' = PRIV_M \<and>
       fr_mepc f' = cs_mtvec (hv_shadow h1) AND NOT 0x3) \<and>
    (\<forall>n. n \<noteq> 0 \<longrightarrow> slots f' n = slots (tr_frame t) n)"
proof -
  define g where "g = account_exc (fr_mcause f) (fst (rv_utils_get_cycle_count h)) TRAP_ADVANCE h1"
  obtain b f' h' where fin: "trap_finish TRAP_ADVANCE t g = (b, f', h')"
    by (cases "trap_finish TRAP_ADVANCE t g")
  have of: "tr_frame (trap_of f) = f" "tr_cause (trap_of f) = fr_mcause f" "tr_tval (trap_of f) = fr_mtval f"
    by (simp_all add: trap_of_def)
  from dispatch.finish_advance [OF assms(3) fin] hypervisor_exception [OF assms(1,2)] assms(3) fin
  show ?thesis by (auto simp: g_def of assms(4))
qed

text \<open>A \<open>wfi\<close> with nothing armed is skipped.\<close>

theorem hypervisor_advances_witness:
  "\<exists>f' h'. hypervisor demo_wfi_frame demo_hyp = Some (True, f', h') \<and>
     (fr_mepc f' = 0x48000004 \<or> cs_mepc (hv_shadow h') = 0x48000004)"
proof -
  have run: "hv_running demo_hyp" "\<not> bit (fr_mcause demo_wfi_frame) 31"
    by (simp_all add: demo_hyp_def demo_wfi_frame_def)
  have dec: "trap_decode m (trap_of demo_wfi_frame) = Some ((trap_of demo_wfi_frame)\<lparr>
      tr_encoding := 0x10500073, tr_length := 4\<rparr>)" for m
    by (simp add: trap_decode_def trap_of_def demo_wfi_frame_def)
  have "hypervisor_wfi h = Some (TRAP_ADVANCE,
      h\<lparr>hv_stats := (hv_stats h)\<lparr>st_wfi_spins := st_wfi_spins (hv_stats h) + 1\<rparr>\<rparr>)"
    if "cs_mie (hv_shadow h) = 0" for h
    using that by (simp add: hypervisor_wfi_def)
  moreover have "cs_mie (hv_shadow (trap_entry demo_wfi_frame demo_hyp)) = 0"
    by (simp add: demo_hyp_def reset_defs)
  ultimately obtain h1 where
    "hypervisor_wfi (trap_entry demo_wfi_frame demo_hyp) = Some (TRAP_ADVANCE, h1)" by blast
  then have step: "hypervisor_trap (trap_of demo_wfi_frame) (trap_entry demo_wfi_frame demo_hyp) =
      Some (TRAP_ADVANCE, (trap_of demo_wfi_frame)\<lparr>tr_encoding := 0x10500073, tr_length := 4\<rparr>, h1)"
    by (simp add: hypervisor_trap_eq hypervisor_csr_def dec Let_def)
       (simp add: trap_of_def demo_wfi_frame_def)
  from hypervisor_advances [OF run step refl] show ?thesis
    by (auto simp: demo_wfi_frame_def trapped_insn_def insn_length_def)
qed

text \<open>
  C8. Exceptions that belong to the guest are reflected into it. A system call, a breakpoint, and a
  load or store fault outside every device window enter the guest's own handler as the
  architecture's trap entry, the cause being the one the hardware reported to the monitor (a system
  call is always cause 8 there, the guest being in U-mode, whatever privilege it believes it has):
  with that cause, the faulting pc, the right trap
  value (the pc for a breakpoint, zero for a call, the address for a fault), the registers
  unchanged, \<open>mstatus\<close> stacked, and no second trap on top. The monitor does not give up on them.
\<close>

theorem hypervisor_reflects:
  assumes "hv_running h" and "hyp_inv h" and "cs_mtvec (hv_shadow h) \<noteq> 0"
    and "fr_mcause f \<in> {3, 5, 7, 8}"
    and "fr_mcause f \<in> {5, 7} \<longrightarrow> mmio_find (fr_mtval f) = None"
  shows "\<exists>h'. hypervisor f h = Some (True, set_mepc (cs_mtvec (hv_shadow h) AND NOT 0x3) f, h') \<and>
    cs_mcause (hv_shadow h') = fr_mcause f \<and> cs_mepc (hv_shadow h') = fr_mepc f \<and>
    cs_mtval (hv_shadow h') =
      (if fr_mcause f = 3 then fr_mepc f else if fr_mcause f = 8 then 0 else fr_mtval f) \<and>
    hv_priv h' = PRIV_M \<and>
    (\<forall>n. bit (cs_mstatus (hv_shadow h')) n =
       trap_entry_bit (cs_mstatus (hv_shadow h)) (hv_priv h) n)"
proof -
  define v where
    "v = (if fr_mcause f = 3 then fr_mepc f else if fr_mcause f = 8 then 0 else fr_mtval f)"
  define g where "g = (if fr_mcause f \<in> {5, 7}
      then hyp_trace_dump ''injecting access fault'' (trap_entry f h) else trap_entry f h)"
  have high: "\<not> bit (fr_mcause f) 31" using assms(4) by auto
  have g: "hv_shadow g = hv_shadow h" "hv_priv g = hv_priv h" by (simp_all add: g_def)
  have priv: "hv_priv g \<le> 3" using assms(2) g by (simp add: hyp_inv_def)
  have "hypervisor_trap (trap_of f) (trap_entry f h) = injected (trap_of f) g (fr_mcause f) v"
    using assms(3-5) by (auto simp: hypervisor_trap_eq trap_of_def g_def v_def)
  from exception_injected [OF assms(1) high priv this] show ?thesis
    using hyp_inject_mstatus [OF priv] g by (simp add: hyp_inject_rest v_def)
qed

definition demo_ecall_frame :: frame where
  "demo_ecall_frame = \<lparr>slots = (\<lambda>_. 0)(0 := 0x48200000, 17 := 64), fr_mstatus = 0, fr_mcause = 8,
                       fr_mtval = 0\<rparr>"

lemma demo_guest_facts:
  "hv_running demo_guest" "hyp_inv demo_guest" "cs_mtvec (hv_shadow demo_guest) = 0x48100001"
  by (simp_all add: demo_guest_def demo_hyp_def hyp_inv_def dev_inv_def reset_defs uart_wf_def
      UART_RX_RING_SIZE_def wiring_def uart_wired_def uart_line_def)

theorem hypervisor_reflects_witness:
  "\<exists>h'. hypervisor demo_ecall_frame demo_guest = Some (True, set_mepc 0x48100000 demo_ecall_frame, h') \<and>
     cs_mepc (hv_shadow h') = 0x48200000 \<and> cs_mcause (hv_shadow h') = 8"
  using hypervisor_reflects [of demo_guest demo_ecall_frame] demo_guest_facts
  by (auto simp: demo_ecall_frame_def)

theorem hypervisor_safe_witness:
  "\<exists>f' h'. hypervisor demo_ecall_frame demo_guest = Some (True, f', h') \<and> hyp_inv h'"
proof -
  have run: "hv_running demo_guest" "\<not> bit (fr_mcause demo_ecall_frame) 31"
    by (simp_all add: demo_guest_facts demo_ecall_frame_def)
  have priv: "hv_priv (trap_entry demo_ecall_frame demo_guest) \<le> 3" by (simp add: demo_guest_def)
  have inj: "hypervisor_trap (trap_of demo_ecall_frame) (trap_entry demo_ecall_frame demo_guest) =
      injected (trap_of demo_ecall_frame) (trap_entry demo_ecall_frame demo_guest) 8 0"
    by (simp add: hypervisor_trap_eq demo_guest_facts) (simp add: trap_of_def demo_ecall_frame_def)
  show ?thesis
    using hypervisor_safe [OF exception_injected [OF run priv inj]] exception_injected [OF run priv inj]
      demo_guest_facts by blast
qed

lemma host_interrupt:
  assumes "hv_running h" and "bit (fr_mcause f) 31"
  shows "\<exists>f' h'. hypervisor f h = Some (True, f', h') \<and>
    (\<forall>n. n \<noteq> 0 \<longrightarrow> slots f' n = slots f n) \<and>
    (if bit (cs_mstatus (hv_shadow h)) 3 \<and> deliverable (irq_entry f h) \<noteq> {} \<and>
        cs_mtvec (hv_shadow h) \<noteq> 0
     then fr_mepc f' = cs_mtvec (hv_shadow h) AND NOT 0x3 \<and>
          cs_mepc (hv_shadow h') = fr_mepc f \<and>
          cs_mcause (hv_shadow h') =
            0x80000000 OR of_nat (irq_code (Max (deliverable (irq_entry f h))))
     else f' = f \<and> hv_shadow h' = hv_shadow h \<and> hv_priv h' = hv_priv h)"
proof -
  define e where "e = irq_entry f h"
  define q where "q = snd (hyp_pending_cause e)"
  define c where "c = 0x80000000 OR (of_nat (irq_code (Max (deliverable e))) :: u32)"
  have e: "hv_shadow e = hv_shadow h" "hv_priv e = hv_priv h" by (simp_all add: e_def)
  have q: "hv_shadow q = hv_shadow h" "hv_priv q = hv_priv h"
    using hyp_pending_cause_state [of e] e by (auto simp: q_def)
  have del: "hyp_deliver_pending f e =
      (if bit (cs_mstatus (hv_shadow h)) 3 \<and> deliverable e \<noteq> {} \<and> cs_mtvec (hv_shadow h) \<noteq> 0
       then hyp_inject f c 0 q else (f, q))"
    using q unfolding hyp_deliver_pending_def case_prod_beta Let_def pending_cause_highest
      q_def [symmetric]
    by (simp add: e c_def)
  show ?thesis
    unfolding hypervisor_interrupt [OF assms] e_def [symmetric] del c_def [symmetric]
    using q by (simp add: hyp_inject_rest)
qed

text \<open>
  C9. A host interrupt is invisible to the guest except as an interrupt of the guest's own: the
  trap is always handled, no general register changes, and unless an interrupt that the guest
  enabled is pending after the host's devices were polled (with its global enable on and a trap
  vector set) neither its pc nor its CSRs nor its privilege change.
\<close>

theorem hypervisor_host_interrupt:
  assumes "hv_running h" and "bit (fr_mcause f) 31"
  shows "\<exists>f' h'. hypervisor f h = Some (True, f', h') \<and>
    (\<forall>n. n \<noteq> 0 \<longrightarrow> slots f' n = slots f n) \<and>
    (if bit (cs_mstatus (hv_shadow h)) 3 \<and> deliverable (irq_entry f h) \<noteq> {} \<and>
        cs_mtvec (hv_shadow h) \<noteq> 0
     then fr_mepc f' = cs_mtvec (hv_shadow h) AND NOT 0x3 \<and>
          cs_mepc (hv_shadow h') = fr_mepc f \<and>
          cs_mcause (hv_shadow h') =
            0x80000000 OR of_nat (irq_code (Max (deliverable (irq_entry f h))))
     else f' = f \<and> hv_shadow h' = hv_shadow h \<and> hv_priv h' = hv_priv h)"
  using assms by (rule host_interrupt)

definition demo_irq_frame :: frame where
  "demo_irq_frame = \<lparr>slots = (\<lambda>_. 0)(0 := 0x48300000), fr_mstatus = 0, fr_mcause = 0x80000024,
                     fr_mtval = 0\<rparr>"

text \<open>A software interrupt that the guest has enabled is waiting.\<close>

definition demo_soft :: hyp where
  "demo_soft = demo_guest\<lparr>hv_shadow := reset_shadow\<lparr>cs_mstatus := 0x8, cs_mtvec := 0x48100001,
                                                     cs_mie := 0x8, cs_mip := 0x8\<rparr>\<rparr>"

theorem hypervisor_host_interrupt_witness:
  "\<exists>f' h'. hypervisor demo_irq_frame demo_soft = Some (True, f', h') \<and> fr_mepc f' = 0x48100000 \<and>
     cs_mepc (hv_shadow h') = 0x48300000 \<and> cs_mcause (hv_shadow h') = 0x80000003"
proof -
  have facts: "hv_running demo_soft" "bit (fr_mcause demo_irq_frame) 31"
    "bit (cs_mstatus (hv_shadow demo_soft)) 3" "cs_mtvec (hv_shadow demo_soft) = 0x48100001"
    by (simp_all add: demo_soft_def demo_guest_def demo_hyp_def demo_irq_frame_def bit_numeral_rec)
  have "cs_mie (hv_shadow demo_soft) = 0x8" "cs_mip (hv_shadow demo_soft) = 0x8"
    by (simp_all add: demo_soft_def)
  then have "MSI \<in> deliverable (irq_entry demo_irq_frame demo_soft)"
    "MEI \<notin> deliverable (irq_entry demo_irq_frame demo_soft)"
    by (simp_all add: deliverable_mem bit_numeral_rec)
  with Max_irqs(2) have "deliverable (irq_entry demo_irq_frame demo_soft) \<noteq> {}"
    "Max (deliverable (irq_entry demo_irq_frame demo_soft)) = MSI"
    by blast+
  with hypervisor_host_interrupt [OF facts(1,2)] facts(3,4) show ?thesis
    by (auto simp: demo_irq_frame_def)
qed

end
