(* ===== verification/Hyp_Sd.thy ===== *)
theory Hyp_Sd
  imports Hyp_Virtio
begin

text \<open>
  \<open>main/hyp_sd.c\<close>: the microSD card as raw sectors, on core 0. ESP-IDF's SDMMC driver is not
  part of the repository, so it is a parameter: \<open>sd_driver\<close> holds the two transfer calls as
  functions of a driver state of any type \<open>'c\<close>, and \<open>sd_bringup\<close> what the calls of the card's
  initialisation return. \<open>sd_lawful\<close> names what their documentation promises.
\<close>

section \<open>The driver\<close>

text \<open>
  \<open>sdmmc_read_sectors\<close> gets the destination's bytes and returns the error code (0 is
  \<open>ESP_OK\<close>), the destination's new bytes and the driver's new state.
\<close>

record 'c sd_driver =
  sdmmc_read_sectors :: "'c \<Rightarrow> u8 list \<Rightarrow> u32 \<Rightarrow> u32 \<Rightarrow> u32 \<times> u8 list \<times> 'c"
  sdmmc_write_sectors :: "'c \<Rightarrow> u8 list \<Rightarrow> u32 \<Rightarrow> u32 \<Rightarrow> u32 \<times> 'c"

record sd_bringup =
  ldo_err :: u32
  host_init_err :: u32
  slot_err :: u32
  card_err :: u32
  csd_capacity :: u32
  csd_sector_size :: u32
  is_sdio :: bool
  is_mmc :: bool
  log_bus_width :: u32
  max_freq_khz :: u32

text \<open>
  Core 0's view: the monitor, the card behind the driver, and the bounce buffer \<open>s_bounce\<close>
  through which every transfer is staged.
\<close>

record 'c core0 =
  c0_hyp :: hyp
  c0_card :: 'c
  c0_bounce :: "u8 list"

abbreviation c0_mem :: "'c core0 \<Rightarrow> mem" where
  "c0_mem s \<equiv> hv_mem (c0_hyp s)"
abbreviation c0_blk :: "'c core0 \<Rightarrow> blk" where
  "c0_blk s \<equiv> hv_blk (c0_hyp s)"
abbreviation on_hyp :: "(hyp \<Rightarrow> hyp) \<Rightarrow> 'c core0 \<Rightarrow> 'c core0" where
  "on_hyp g s \<equiv> s\<lparr>c0_hyp := g (c0_hyp s)\<rparr>"
abbreviation on_mem :: "(mem \<Rightarrow> mem) \<Rightarrow> 'c core0 \<Rightarrow> 'c core0" where
  "on_mem g s \<equiv> on_hyp (\<lambda>h. h\<lparr>hv_mem := g (hv_mem h)\<rparr>) s"

section \<open>Operations\<close>

definition HYP_SD_LDO_CHANNEL :: u32 where "HYP_SD_LDO_CHANNEL = 4"
definition HYP_SD_SLOT :: u32 where "HYP_SD_SLOT = 0"
definition HYP_SD_BUS_WIDTH :: u32 where "HYP_SD_BUS_WIDTH = 4"

definition hyp_sd_init :: "sd_bringup \<Rightarrow> hyp \<Rightarrow> bool \<times> hyp" where
  "hyp_sd_init p h =
     (let h = hw (Call ''sd_pwr_ctrl_new_on_chip_ldo'' [HYP_SD_LDO_CHANNEL]) h
      in if ldo_err p \<noteq> 0 then
           (False, hw (Printf (Text ''E: sd: LDO ch%d: %s'' [HYP_SD_LDO_CHANNEL, ldo_err p])) h)
         else
           let h = hw (Call ''host.init'' []) h
           in if host_init_err p \<noteq> 0 then
                (False, hw (Printf (Text ''E: sd: host init: %s'' [host_init_err p])) h)
              else
                let h = hw (Call ''sdmmc_host_init_slot'' [HYP_SD_SLOT, HYP_SD_BUS_WIDTH]) h
                in if slot_err p \<noteq> 0 then
                     (False, hw (Printf (Text ''E: sd: slot init: %s'' [slot_err p])) h)
                   else
                     let h = hw (Call ''sdmmc_card_init'' []) h
                     in if card_err p \<noteq> 0 then
                          (False, hw (Printf (Text ''E: sd: no card (%s)'' [card_err p])) h)
                        else
                          (True,
                           hw (Printf (Text
                                 (''I: sd: '' @
                                  (if is_sdio p then ''SDIO'' else if is_mmc p then ''MMC'' else ''SD'') @
                                  '' %uMB, %u sectors of %u bytes, bus %ubit %ukHz'')
                                 [ucast (drop_bit 20 (ucast (csd_capacity p) * ucast (csd_sector_size p) :: u64)),
                                  csd_capacity p, csd_sector_size p, log_bus_width p, max_freq_khz p]))
                             (h\<lparr>hv_sd_ready := True, hv_sd_capacity := csd_capacity p\<rparr>)))"

definition hyp_sd_read :: "'c sd_driver \<Rightarrow> u32 \<Rightarrow> u32 \<Rightarrow> 'c core0 \<Rightarrow> bool \<times> 'c core0" where
  "hyp_sd_read drv sector count s =
     (if \<not> hv_sd_ready (c0_hyp s) then (False, s)
      else case sdmmc_read_sectors drv (c0_card s) (c0_bounce s) sector count of
        (err, dst, cd) \<Rightarrow>
          let s = s\<lparr>c0_card := cd, c0_bounce := dst\<rparr>
          in if err \<noteq> 0 then
               (False, on_hyp (hw (Printf (Text ''E: sd: read %u+%u: %s'' [sector, count, err]))) s)
             else (True, s))"

definition hyp_sd_write :: "'c sd_driver \<Rightarrow> u32 \<Rightarrow> u32 \<Rightarrow> 'c core0 \<Rightarrow> bool \<times> 'c core0" where
  "hyp_sd_write drv sector count s =
     (if \<not> hv_sd_ready (c0_hyp s) then (False, s)
      else case sdmmc_write_sectors drv (c0_card s) (c0_bounce s) sector count of
        (err, cd) \<Rightarrow>
          let s = s\<lparr>c0_card := cd\<rparr>
          in if err \<noteq> 0 then
               (False, on_hyp (hw (Printf (Text ''E: sd: write %u+%u: %s'' [sector, count, err]))) s)
             else (True, s))"

section \<open>What the driver promises\<close>

text \<open>
  \<open>disk c p\<close> is byte \<open>p\<close> of the card in driver state \<open>c\<close>. A read that reports success has
  put the sectors into the buffer and left the card alone; a write that reports success has put
  the buffer's bytes on the card and nothing else; the buffer keeps its size. Nothing is said of
  calls that fail.
\<close>

definition sd_lawful :: "'c sd_driver \<Rightarrow> ('c \<Rightarrow> nat \<Rightarrow> u8) \<Rightarrow> bool" where
  "sd_lawful drv disk \<longleftrightarrow>
     (\<forall>c b sec cnt. length (fst (snd (sdmmc_read_sectors drv c b sec cnt))) = length b) \<and>
     (\<forall>c b sec cnt b' c'. 512 * unat cnt \<le> length b \<longrightarrow>
        sdmmc_read_sectors drv c b sec cnt = (0, b', c') \<longrightarrow>
        disk c' = disk c \<and>
        b' = map (disk c) [512 * unat sec ..< 512 * unat sec + 512 * unat cnt] @
             drop (512 * unat cnt) b) \<and>
     (\<forall>c b sec cnt c'. 512 * unat cnt \<le> length b \<longrightarrow>
        sdmmc_write_sectors drv c b sec cnt = (0, c') \<longrightarrow>
        disk c' = (\<lambda>p. if 512 * unat sec \<le> p \<and> p < 512 * unat sec + 512 * unat cnt
                        then b ! (p - 512 * unat sec) else disk c p))"

text \<open>A driver for the concrete instances: a card whose bytes are a function, never failing.\<close>

definition ram_driver :: "(nat \<Rightarrow> u8) sd_driver" where
  "ram_driver = \<lparr>
     sdmmc_read_sectors = (\<lambda>c b sec cnt.
       (0, take (length b) (map c [512 * unat sec ..< 512 * unat sec + 512 * unat cnt] @
                            drop (512 * unat cnt) b), c)),
     sdmmc_write_sectors = (\<lambda>c b sec cnt.
       (0, \<lambda>p. if 512 * unat sec \<le> p \<and> p < 512 * unat sec + 512 * unat cnt
                then b ! (p - 512 * unat sec) else c p))\<rparr>"

lemma ram_driver_lawful: "sd_lawful ram_driver (\<lambda>c. c)"
  by (auto simp: sd_lawful_def ram_driver_def)

section \<open>Results\<close>

text \<open>
  The card is offered to the guest only when all four bring-up calls succeed, and then with the
  capacity the card reports.
\<close>

lemma hyp_sd_init_ready:
  "hyp_sd_init p h = (ok, h') \<Longrightarrow> \<not> hv_sd_ready h \<Longrightarrow>
     ok = (ldo_err p = 0 \<and> host_init_err p = 0 \<and> slot_err p = 0 \<and> card_err p = 0) \<and>
     hyp_sd_ready h' = ok \<and> hyp_sd_sector_count h' = (if ok then csd_capacity p else 0)"
  by (auto simp: hyp_sd_init_def Let_def hyp_sd_ready_def hyp_sd_sector_count_def
      split: if_splits)

lemma hyp_sd_read_ok:
  assumes "sd_lawful drv disk" and "hyp_sd_read drv sector count s = (True, s')"
    and "512 * unat count \<le> length (c0_bounce s)"
  shows "c0_hyp s' = c0_hyp s" "disk (c0_card s') = disk (c0_card s)"
    "c0_bounce s' =
       map (disk (c0_card s)) [512 * unat sector ..< 512 * unat sector + 512 * unat count] @
       drop (512 * unat count) (c0_bounce s)"
  using assms unfolding sd_lawful_def hyp_sd_read_def
  by (auto simp: Let_def split: if_splits prod.splits)

lemma hyp_sd_write_ok:
  assumes "sd_lawful drv disk" and "hyp_sd_write drv sector count s = (True, s')"
    and "512 * unat count \<le> length (c0_bounce s)"
  shows "c0_hyp s' = c0_hyp s" "c0_bounce s' = c0_bounce s"
    "disk (c0_card s') =
       (\<lambda>p. if 512 * unat sector \<le> p \<and> p < 512 * unat sector + 512 * unat count
             then c0_bounce s ! (p - 512 * unat sector) else disk (c0_card s) p)"
  using assms unfolding sd_lawful_def hyp_sd_write_def
  by (auto simp: Let_def split: if_splits prod.splits)

text \<open>Whatever happens, the card operations touch neither the guest's memory nor its devices.\<close>

lemma hyp_sd_frame [frame_simps]:
  "hyp_sd_read drv sector count s = (ok, s') \<Longrightarrow>
     cpu_view (c0_hyp s') = cpu_view (c0_hyp s) \<and> c0_mem s' = c0_mem s \<and> c0_blk s' = c0_blk s"
  "hyp_sd_write drv sector count s = (ok, s') \<Longrightarrow>
     cpu_view (c0_hyp s') = cpu_view (c0_hyp s) \<and> c0_mem s' = c0_mem s \<and> c0_blk s' = c0_blk s"
  by (auto simp: hyp_sd_read_def hyp_sd_write_def Let_def split: if_splits prod.splits)

end
