(* ===== verification/Hyp_Memory.thy ===== *)
theory Hyp_Memory
  imports Hyp_Prelude
begin

text \<open>
  Regions of guest memory and block copies: what \<open>memcpy\<close> and \<open>memset\<close> in pieces amount to, and
  the disjointness facts the ring and the image-loading proofs share.
\<close>

section \<open>Strings\<close>

text \<open>The bytes of a C string literal, without its terminating zero.\<close>

definition c_string :: "string \<Rightarrow> u8 list" where
  "c_string s = map of_char s"

section \<open>Regions\<close>

text \<open>The \<open>n\<close> bytes from address \<open>a\<close> on, wrapping at the top of the address space.\<close>

definition region :: "u32 \<Rightarrow> nat \<Rightarrow> u32 set" where
  "region a n = {a + of_nat k | k. k < n}"

lemma region_0 [simp]: "region a 0 = {}"
  by (simp add: region_def)

lemma regionI [intro]: "k < n \<Longrightarrow> a + of_nat k \<in> region a n"
  by (auto simp: region_def)

lemma regionE [elim]:
  assumes "x \<in> region a n" obtains k where "k < n" "x = a + of_nat k"
  using assms by (auto simp: region_def)

lemma region_mono: "m \<le> n \<Longrightarrow> region a m \<subseteq> region a n"
  by (fastforce simp: region_def)

lemma region_shift: "i + m \<le> n \<Longrightarrow> region (a + of_nat i) m \<subseteq> region a n"
proof
  fix x assume le: "i + m \<le> n" and "x \<in> region (a + of_nat i) m"
  then obtain k where k: "k < m" "x = a + of_nat i + of_nat k" by auto
  then have "x = a + of_nat (i + k)" "i + k < n" using le by (simp_all add: algebra_simps)
  then show "x \<in> region a n" unfolding region_def by blast
qed

text \<open>An address is in a region when its distance from the base is below the size.\<close>

lemma region_iff:
  assumes "n \<le> 2 ^ 32"
  shows "x \<in> region a n \<longleftrightarrow> unat (x - a) < n"
proof
  assume "x \<in> region a n"
  then obtain k where "k < n" "x = a + of_nat k" by auto
  moreover from this assms have "unat (of_nat k :: u32) = k" by (simp add: unat_of_nat)
  ultimately show "unat (x - a) < n" by simp
next
  assume "unat (x - a) < n"
  then have "a + of_nat (unat (x - a)) \<in> region a n" by (rule regionI)
  then show "x \<in> region a n" by (simp del: region_0)
qed

lemma region_unat:
  assumes "x \<in> region a n" and "unat a + n \<le> 2 ^ 32"
  shows "unat a \<le> unat x \<and> unat x < unat a + n"
proof -
  from assms(1) obtain k where k: "k < n" "x = a + of_nat k" by auto
  with assms(2) have "unat x = unat a + k"
    by (subst k(2), subst unat_add_lem [THEN iffD1]) (auto simp: unat_of_nat)
  with k(1) show ?thesis by simp
qed

lemma region_disjoint:
  assumes "unat a + n \<le> unat b \<or> unat b + k \<le> unat a"
    and "unat a + n \<le> 2 ^ 32" and "unat b + k \<le> 2 ^ 32"
  shows "region a n \<inter> region b k = {}"
  using region_unat [OF _ assms(2)] region_unat [OF _ assms(3)] assms(1)
  by (meson disjoint_iff leD le_trans not_le)

text \<open>Two pieces of one object, by their offsets from its base.\<close>

lemma region_offset:
  assumes "x \<in> region (a + of_nat i) m" and "i + m \<le> 2 ^ 32"
  shows "i \<le> unat (x - a) \<and> unat (x - a) < i + m"
proof -
  from assms(1) obtain k where k: "k < m" "x = a + of_nat i + of_nat k" by auto
  then have "x - a = of_nat (i + k)" by simp
  then have "unat (x - a) = (i + k) mod 2 ^ 32" by (simp only: unat_of_nat) simp
  with k(1) assms(2) show ?thesis by simp
qed

lemma region_offsets_disjoint:
  assumes "i + m \<le> j" and "j + n \<le> 2 ^ 32"
    and "x \<in> region (a + of_nat i) m" and "x \<in> region (a + of_nat j) n"
  shows False
  using region_offset [OF assms(3)] region_offset [OF assms(4)] assms(1,2) by linarith

section \<open>Copies\<close>

lemma wr_bytes_frame: "x \<notin> region a (length bs) \<Longrightarrow> wr_bytes a bs m x = m x"
  by (rule wr_bytes_outside) auto

lemma wr_bytes_append:
  "wr_bytes a (xs @ ys) m = wr_bytes (a + of_nat (length xs)) ys (wr_bytes a xs m)"
  by (induction xs arbitrary: a m) (simp_all add: algebra_simps)

lemma rd_bytes_append: "rd_bytes m a (i + n) = rd_bytes m a i @ rd_bytes m (a + of_nat i) n"
  by (induction i arbitrary: a) (simp_all add: algebra_simps)

lemma rd_bytes_cong:
  "(\<And>x. x \<in> region a n \<Longrightarrow> m x = m' x) \<Longrightarrow> rd_bytes m a n = rd_bytes m' a n"
  by (rule nth_equalityI) (auto simp: nth_rd_bytes)

lemma rd_bytes_map: "rd_bytes m a n = map (\<lambda>k. m (a + of_nat k)) [0..<n]"
  by (rule nth_equalityI) (simp_all add: nth_rd_bytes)

lemma rd_bytes_inside:
  assumes "k + n \<le> length bs" and "length bs \<le> 2 ^ 32"
  shows "rd_bytes (wr_bytes a bs m) (a + of_nat k) n = take n (drop k bs)"
proof (rule nth_equalityI)
  fix i assume "i < length (rd_bytes (wr_bytes a bs m) (a + of_nat k) n)"
  then have i: "i < n" by simp
  have "wr_bytes a bs m (a + of_nat (k + i)) = bs ! (k + i)"
    using i assms by (intro wr_bytes_inside) auto
  with i assms show "rd_bytes (wr_bytes a bs m) (a + of_nat k) n ! i = take n (drop k bs) ! i"
    by (simp add: nth_rd_bytes add.assoc)
qed (use assms in simp)

text \<open>Overwriting a part of what is read.\<close>

lemma rd_bytes_patch:
  assumes "i + length bs \<le> n" and "n \<le> 2 ^ 32"
  shows "rd_bytes (wr_bytes (a + of_nat i) bs m) a n =
         take i (rd_bytes m a n) @ bs @ drop (i + length bs) (rd_bytes m a n)" (is "?l = ?r")
proof (rule nth_equalityI)
  show "length ?l = length ?r" using assms by simp
  fix k assume "k < length ?l"
  then have k: "k < n" by simp
  show "?l ! k = ?r ! k"
  proof (cases "i \<le> k \<and> k < i + length bs")
    case True
    then have "a + of_nat k = (a + of_nat i) + of_nat (k - i)" by (simp add: of_nat_diff)
    with True assms k show ?thesis
      using wr_bytes_inside [of bs "k - i" "a + of_nat i" m] by (auto simp: nth_rd_bytes nth_append)
  next
    case False
    have "a + of_nat k \<notin> region (a + of_nat i) (length bs)"
    proof
      assume "a + of_nat k \<in> region (a + of_nat i) (length bs)"
      from region_offset [OF this] assms False k show False by (auto simp: unat_of_nat)
    qed
    with False assms k show ?thesis
      by (auto simp: nth_rd_bytes wr_bytes_frame nth_append)
  qed
qed

section \<open>Fields\<close>

text \<open>A field read depends on its own bytes only.\<close>

lemma region_num: "k < n \<Longrightarrow> x = a + of_nat k \<Longrightarrow> x \<in> region a n"
  by auto

lemma rd16_cong:
  assumes "\<And>x. x \<in> region a 2 \<Longrightarrow> m x = m' x"
  shows "rd16 m a = rd16 m' a"
  using assms [of a] assms [of "a + 1"] region_num [of 0 2 a a] region_num [of 1 2 "a + 1" a]
  by (simp add: rd16_def)

lemma rd32_cong:
  assumes "\<And>x. x \<in> region a 4 \<Longrightarrow> m x = m' x"
  shows "rd32 m a = rd32 m' a"
proof -
  have "rd16 m a = rd16 m' a"
    by (rule rd16_cong) (use assms region_mono [of 2 4 a] in auto)
  moreover have "rd16 m (a + 2) = rd16 m' (a + 2)"
    by (rule rd16_cong) (use assms region_shift [of 2 2 4 a] in auto)
  ultimately show ?thesis by (simp add: rd32_def)
qed

lemma rd64_cong:
  assumes "\<And>x. x \<in> region a 8 \<Longrightarrow> m x = m' x"
  shows "rd64 m a = rd64 m' a"
proof -
  have "rd32 m a = rd32 m' a"
    by (rule rd32_cong) (use assms region_mono [of 4 8 a] in auto)
  moreover have "rd32 m (a + 4) = rd32 m' (a + 4)"
    by (rule rd32_cong) (use assms region_shift [of 4 4 8 a] in auto)
  ultimately show ?thesis by (simp add: rd64_def)
qed

lemma wr16_frame: "x \<notin> region a 2 \<Longrightarrow> wr16 a v m x = m x"
  using region_num [of 0 2 x a] region_num [of 1 2 x a] by (auto simp: wr16_def)

lemma wr32_frame: "x \<notin> region a 4 \<Longrightarrow> wr32 a v m x = m x"
proof -
  assume x: "x \<notin> region a 4"
  then have "x \<notin> region a 2" "x \<notin> region (a + 2) 2"
    using region_mono [of 2 4 a] region_shift [of 2 2 4 a] by auto
  then show ?thesis by (simp add: wr32_def wr16_frame)
qed

end
