(* ===== verification/Hyp_Blk.thy ===== *)
theory Hyp_Blk
  imports Hyp_Sd Hyp_Memory
begin

text \<open>
  \<open>main/hyp_virtio_blk.c\<close>, the half that runs on core 0: the split virtqueue in guest memory, the
  execution of one descriptor chain, and the service task that drains the available ring. The
  chain walk and the drain loop follow what the guest left in its memory and need not end, so they
  are \<open>partial_function (option)\<close>: \<open>None\<close> is a core 0 that never comes back.

  \<open>s_kick\<close> and \<open>s_irq\<close> are the flags \<open>bk_kick\<close> and \<open>bk_irq\<close> of the device record, shared with the
  registers of \<open>Hyp_Virtio\<close>. The guest runs on core 1 meanwhile; here a call is one step. \<open>Hyp_Drain\<close>
  says what a whole drain comes to, and \<open>Hyp_Task\<close> splits it into steps so that core 1 runs in between.
\<close>

section \<open>The split virtqueue\<close>

definition gpa :: "u64 \<Rightarrow> u32" where
  "gpa addr = ucast addr"

definition desc_table :: "hyp \<Rightarrow> u32" where
  "desc_table h = bk_queue_pfn (hv_blk h) * bk_guest_page_size (hv_blk h)"

definition avail_ring :: "hyp \<Rightarrow> u32" where
  "avail_ring h = desc_table h + bk_queue_num (hv_blk h) * 16"

definition used_ring :: "hyp \<Rightarrow> u32" where
  "used_ring h =
     (let after_avail = avail_ring h + 4 + bk_queue_num (hv_blk h) * 2 + 2;
          align = (if bk_queue_align (hv_blk h) \<noteq> 0 then bk_queue_align (hv_blk h) else 4096)
      in (after_avail + align - 1) AND NOT (align - 1))"

text \<open>\<open>struct vring_desc\<close> at address \<open>d\<close>: its fields, and its place in the table.\<close>

definition desc_addr :: "mem \<Rightarrow> u32 \<Rightarrow> u64" where "desc_addr m d = rd64 m d"
definition desc_len :: "mem \<Rightarrow> u32 \<Rightarrow> u32" where "desc_len m d = rd32 m (d + 8)"
definition desc_flags :: "mem \<Rightarrow> u32 \<Rightarrow> u16" where "desc_flags m d = rd16 m (d + 12)"
definition desc_next :: "mem \<Rightarrow> u32 \<Rightarrow> u16" where "desc_next m d = rd16 m (d + 14)"

definition VRING_DESC_F_NEXT :: u16 where "VRING_DESC_F_NEXT = 1"

definition desc_has_next :: "mem \<Rightarrow> u32 \<Rightarrow> bool" where
  "desc_has_next m d = (desc_flags m d AND VRING_DESC_F_NEXT \<noteq> 0)"

text \<open>
  \<open>&desc[i % blk.queue_num]\<close>. The guest can set \<open>queue_num\<close> to 0 after the queue went live; C leaves
  the remainder undefined then, and the processor's \<open>remu\<close> gives the dividend, as HOL's does.
\<close>

definition desc_at :: "hyp \<Rightarrow> u16 \<Rightarrow> u32" where
  "desc_at h i = desc_table h + 16 * (ucast i mod bk_queue_num (hv_blk h))"

section \<open>Transfers\<close>

definition HYP_BLK_SECTOR_SIZE :: u32 where "HYP_BLK_SECTOR_SIZE = 512"
definition HYP_BLK_BOUNCE_SECTORS :: u32 where "HYP_BLK_BOUNCE_SECTORS = 64"

text \<open>One iteration: \<open>n\<close> bytes through the bounce buffer.\<close>

definition blk_chunk ::
  "'c sd_driver \<Rightarrow> bool \<Rightarrow> u32 \<Rightarrow> u32 \<Rightarrow> u32 \<Rightarrow> 'c core0 \<Rightarrow> bool \<times> 'c core0" where
  "blk_chunk drv write sector guest_buf n s =
     (let sectors = n div HYP_BLK_SECTOR_SIZE
      in if write then
           hyp_sd_write drv sector sectors
             (s\<lparr>c0_bounce := rd_bytes (c0_mem s) guest_buf (unat n) @ drop (unat n) (c0_bounce s)\<rparr>)
         else
           case hyp_sd_read drv sector sectors s of
             (ok, s) \<Rightarrow>
               if \<not> ok then (False, s)
               else (True, on_mem (wr_bytes guest_buf (take (unat n) (c0_bounce s))) s))"

lemma chunk_shrinks:
  fixes len :: u32
  shows "32768 < len \<Longrightarrow> unat (len - 32768) < unat len" "len \<noteq> 0 \<Longrightarrow> 0 < unat len"
  by (simp_all add: unat_sub_if_size word_less_nat_alt unat_gt_0)

function blk_transfer ::
  "'c sd_driver \<Rightarrow> bool \<Rightarrow> u32 \<Rightarrow> u32 \<Rightarrow> u32 \<Rightarrow> 'c core0 \<Rightarrow> bool \<times> 'c core0" where
  "blk_transfer drv write sector guest_buf len s =
     (let chunk_max = HYP_BLK_BOUNCE_SECTORS * HYP_BLK_SECTOR_SIZE;
          n = (if len > chunk_max then chunk_max else len)
      in if len = 0 then (True, s)
         else case blk_chunk drv write sector guest_buf n s of
                (ok, s) \<Rightarrow>
                  if \<not> ok then (False, s)
                  else blk_transfer drv write (sector + n div HYP_BLK_SECTOR_SIZE) (guest_buf + n)
                         (len - n) s)"
  by pat_completeness auto

termination
  by (relation "measure (\<lambda>(drv, write, sector, buf, len, s). unat len)")
     (auto simp: HYP_BLK_BOUNCE_SECTORS_def HYP_BLK_SECTOR_SIZE_def chunk_shrinks)

declare blk_transfer.simps [simp del]

section \<open>Requests\<close>

definition VIRTIO_BLK_T_IN :: u32 where "VIRTIO_BLK_T_IN = 0"
definition VIRTIO_BLK_T_OUT :: u32 where "VIRTIO_BLK_T_OUT = 1"
definition VIRTIO_BLK_T_FLUSH :: u32 where "VIRTIO_BLK_T_FLUSH = 4"
definition VIRTIO_BLK_T_GET_ID :: u32 where "VIRTIO_BLK_T_GET_ID = 8"
definition VIRTIO_BLK_S_OK :: u8 where "VIRTIO_BLK_S_OK = 0"
definition VIRTIO_BLK_S_IOERR :: u8 where "VIRTIO_BLK_S_IOERR = 1"
definition VIRTIO_BLK_S_UNSUPP :: u8 where "VIRTIO_BLK_S_UNSUPP = 2"

text \<open>\<open>"esp32p4-sd"\<close> with its terminating zero: \<open>sizeof(id)\<close> is 11.\<close>

definition blk_id :: "u8 list" where
  "blk_id = [0x65, 0x73, 0x70, 0x33, 0x32, 0x70, 0x34, 0x2d, 0x73, 0x64, 0]"

text \<open>The \<open>switch\<close> on one data descriptor: success, the next sector and the bytes written so far.\<close>

definition blk_segment ::
  "'c sd_driver \<Rightarrow> u32 \<Rightarrow> u32 \<Rightarrow> u32 \<Rightarrow> u32 \<Rightarrow> u32 \<Rightarrow> 'c core0 \<Rightarrow> bool \<times> u32 \<times> u32 \<times> 'c core0"
where
  "blk_segment drv type buf len sector written s =
     (if type = VIRTIO_BLK_T_IN then
        (if len mod HYP_BLK_SECTOR_SIZE \<noteq> 0 then (False, sector, written, s)
         else case blk_transfer drv False sector buf len s of
                (ok, s) \<Rightarrow> (ok, sector + len div HYP_BLK_SECTOR_SIZE, written + len,
                            on_hyp (on_blk (\<lambda>b. b\<lparr>bk_reads := bk_reads b + 1\<rparr>)) s))
      else if type = VIRTIO_BLK_T_OUT then
        (if len mod HYP_BLK_SECTOR_SIZE \<noteq> 0 then (False, sector, written, s)
         else case blk_transfer drv True sector buf len s of
                (ok, s) \<Rightarrow> (ok, sector + len div HYP_BLK_SECTOR_SIZE, written,
                            on_hyp (on_blk (\<lambda>b. b\<lparr>bk_writes := bk_writes b + 1\<rparr>)) s))
      else if type = VIRTIO_BLK_T_GET_ID then
        (let n = (if len < 11 then len else 11)
         in (True, sector, written + len,
             on_mem (wr_bytes buf (take (unat n) blk_id))
               (on_mem (wr_bytes buf (replicate (unat len) 0)) s)))
      else if type = VIRTIO_BLK_T_FLUSH then (True, sector, written, s)
      else (False, sector, written, s))"

text \<open>
  The walk from descriptor \<open>idx\<close>: what comes back is \<open>ok\<close>, \<open>status_byte\<close> (\<open>None\<close> is the null
  pointer) and \<open>written\<close>.
\<close>

partial_function (option) blk_walk ::
  "'c sd_driver \<Rightarrow> u32 \<Rightarrow> u32 \<Rightarrow> u16 \<Rightarrow> u32 \<Rightarrow> 'c core0 \<Rightarrow>
     ((bool \<times> u32 option \<times> u32) \<times> 'c core0) option" where
  "blk_walk drv type sector idx written s =
     (let d = desc_at (c0_hyp s) idx
      in if \<not> desc_has_next (c0_mem s) d then
           Some ((True, Some (gpa (desc_addr (c0_mem s) d)), written), s)
         else
           case blk_segment drv type (gpa (desc_addr (c0_mem s) d)) (desc_len (c0_mem s) d)
                  sector written s of
             (ok, sector, written, s') \<Rightarrow>
               if \<not> ok then Some ((False, None, written), s')
               else blk_walk drv type sector (desc_next (c0_mem s') d) written s')"

definition blk_status_byte :: "bool \<Rightarrow> u32 \<Rightarrow> u8" where
  "blk_status_byte ok type =
     (if ok then VIRTIO_BLK_S_OK
      else if type > VIRTIO_BLK_T_GET_ID then VIRTIO_BLK_S_UNSUPP else VIRTIO_BLK_S_IOERR)"

definition blk_finish ::
  "u32 \<Rightarrow> (bool \<times> u32 option \<times> u32) \<times> 'c core0 \<Rightarrow> u32 \<times> 'c core0" where
  "blk_finish type r =
     (case r of ((ok, status_byte, written), s) \<Rightarrow>
        let (written, s) =
              (case status_byte of
                 None \<Rightarrow> (written, s)
               | Some a \<Rightarrow> (written + 1, on_mem (\<lambda>m. m(a := blk_status_byte ok type)) s));
            s = (if \<not> ok then on_hyp (on_blk (\<lambda>b. b\<lparr>bk_errors := bk_errors b + 1\<rparr>)) s else s)
        in (written, on_hyp (on_blk (\<lambda>b. b\<lparr>bk_requests := bk_requests b + 1\<rparr>)) s))"

definition blk_do_request ::
  "'c sd_driver \<Rightarrow> u16 \<Rightarrow> 'c core0 \<Rightarrow> (u32 \<times> 'c core0) option" where
  "blk_do_request drv head s =
     (let m = c0_mem s; d = desc_at (c0_hyp s) head
      in if desc_len m d < 16 then
           Some (0, on_hyp (on_blk (\<lambda>b. b\<lparr>bk_errors := bk_errors b + 1\<rparr>)) s)
         else
           let hdr = gpa (desc_addr m d);
               type = rd32 m hdr;
               sector = ucast (rd64 m (hdr + 8))
           in if desc_has_next m d then
                map_option (blk_finish type) (blk_walk drv type sector (desc_next m d) 0 s)
              else Some (blk_finish type ((True, None, 0), s)))"

section \<open>The service task\<close>

text \<open>The head at \<open>last_avail\<close>, and the publication of a finished request.\<close>

definition avail_head :: "u32 \<Rightarrow> 'c core0 \<Rightarrow> u16" where
  "avail_head avail s =
     rd16 (c0_mem s)
       (avail + 4 + 2 * (ucast (bk_last_avail (c0_blk s)) mod bk_queue_num (c0_blk s)))"

definition used_slot :: "u32 \<Rightarrow> 'c core0 \<Rightarrow> u32" where
  "used_slot used s =
     used + 4 + 8 * (ucast (rd16 (c0_mem s) (used + 2)) mod bk_queue_num (c0_blk s))"

definition blk_publish :: "u32 \<Rightarrow> u16 \<Rightarrow> u32 \<Rightarrow> 'c core0 \<Rightarrow> 'c core0" where
  "blk_publish used head written s =
     (let s = on_mem (wr32 (used_slot used s) (ucast head)) s;
          s = on_mem (wr32 (used_slot used s + 4) written) s;
          s = on_mem (wr16 (used + 2) (rd16 (c0_mem s) (used + 2) + 1)) s
      in on_hyp (on_blk (\<lambda>b. b\<lparr>bk_last_avail := bk_last_avail b + 1\<rparr>)) s)"

partial_function (option) blk_drain ::
  "'c sd_driver \<Rightarrow> u32 \<Rightarrow> u32 \<Rightarrow> bool \<Rightarrow> 'c core0 \<Rightarrow> (bool \<times> 'c core0) option" where
  "blk_drain drv avail used published s =
     (if bk_last_avail (c0_blk s) = rd16 (c0_mem s) (avail + 2) then Some (published, s)
      else
        let head = avail_head avail s
        in Option.bind (blk_do_request drv head s)
             (\<lambda>(written, s). blk_drain drv avail used True (blk_publish used head written s)))"

definition blk_service :: "'c sd_driver \<Rightarrow> 'c core0 \<Rightarrow> 'c core0 option" where
  "blk_service drv s =
     (if \<not> bk_live (c0_blk s) then Some s
      else map_option
             (\<lambda>(published, s).
                if published then on_hyp (on_blk (\<lambda>b. b\<lparr>bk_irq := True\<rparr>)) s else s)
             (blk_drain drv (avail_ring (c0_hyp s)) (used_ring (c0_hyp s)) False s))"

text \<open>One iteration of the task's endless loop (it yields after each).\<close>

definition blk_task_iteration :: "'c sd_driver \<Rightarrow> 'c core0 \<Rightarrow> 'c core0 option" where
  "blk_task_iteration drv s =
     (if bk_kick (c0_blk s) then
        blk_service drv (on_hyp (on_blk (\<lambda>b. b\<lparr>bk_kick := False\<rparr>)) s)
      else Some s)"

text \<open>
  Start-up: whether the allocation and the task creation succeed is up to the operating system.
\<close>

definition hyp_virtio_blk_init :: "bool \<Rightarrow> bool \<Rightarrow> hyp \<Rightarrow> bool \<times> hyp" where
  "hyp_virtio_blk_init have_memory have_task h =
     (if \<not> hyp_sd_ready h then (False, h)
      else
        let h = hw (Call ''heap_caps_malloc'' [HYP_BLK_BOUNCE_SECTORS * HYP_BLK_SECTOR_SIZE]) h
        in if \<not> have_memory then
             (False, hw (Printf (Text ''E: virtio-blk: no DMA memory for the bounce buffer'' [])) h)
           else
             let h = hw (Call ''xTaskCreatePinnedToCore'' [4096, 0, 0]) h
             in if \<not> have_task then
                  (False, hw (Printf (Text ''E: virtio-blk: could not start the service task'' [])) h)
                else
                  (True,
                   hw (Printf (Text ''I: virtio-blk at 0x%08x, %u sectors, /dev/vda in the guest''
                                 [0x10001000, hyp_sd_sector_count h])) h))"

section \<open>Transfers move the right bytes\<close>

lemmas blk_consts = HYP_BLK_SECTOR_SIZE_def HYP_BLK_BOUNCE_SECTORS_def

lemma blk_transfer_0 [simp]: "blk_transfer drv write sector buf 0 s = (True, s)"
  by (subst blk_transfer.simps) (simp add: Let_def)

lemma blk_transfer_step:
  "len \<noteq> 0 \<Longrightarrow> n = (if len > 32768 then 32768 else len) \<Longrightarrow>
     blk_transfer drv write sector buf len s =
       (case blk_chunk drv write sector buf n s of
          (ok, s) \<Rightarrow> if \<not> ok then (False, s)
                      else blk_transfer drv write (sector + n div 512) (buf + n) (len - n) s)"
  by (subst blk_transfer.simps) (simp add: Let_def blk_consts cong: if_cong)

text \<open>Induction over the chunks: \<open>P\<close> relates the arguments, the state and what comes back.\<close>

lemma blk_transfer_chunks [consumes 1, case_names finished failed chunk]:
  assumes "blk_transfer drv write sector buf len s = (ok, s')"
    and "\<And>sector buf s. P sector buf 0 s True s"
    and "\<And>sector buf len n s s'. len \<noteq> 0 \<Longrightarrow> n = (if len > 32768 then 32768 else len) \<Longrightarrow>
           blk_chunk drv write sector buf n s = (False, s') \<Longrightarrow> P sector buf len s False s'"
    and "\<And>sector buf len n s s1 ok s'. len \<noteq> 0 \<Longrightarrow> n = (if len > 32768 then 32768 else len) \<Longrightarrow>
           blk_chunk drv write sector buf n s = (True, s1) \<Longrightarrow>
           P (sector + n div 512) (buf + n) (len - n) s1 ok s' \<Longrightarrow> P sector buf len s ok s'"
  shows "P sector buf len s ok s'"
  using assms(1)
proof (induction "unat len" arbitrary: sector buf len s rule: less_induct)
  case (less len sector buf s)
  show ?case
  proof (cases "len = 0")
    case True
    with less.prems assms(2) show ?thesis by simp
  next
    case False
    define n where "n = (if len > 32768 then 32768 else len)"
    obtain ok1 s1 where c: "blk_chunk drv write sector buf n s = (ok1, s1)" by fastforce
    have smaller: "unat (len - n) < unat len"
      using False by (auto simp: n_def chunk_shrinks)
    show ?thesis
    proof (cases ok1)
      case True
      with c less.prems blk_transfer_step [OF False n_def, of drv "write" sector buf s]
      have "blk_transfer drv write (sector + n div 512) (buf + n) (len - n) s1 = (ok, s')" by simp
      then have "P (sector + n div 512) (buf + n) (len - n) s1 ok s'"
        by (rule less.hyps [OF smaller])
      with True c show ?thesis by (intro assms(4) [OF False n_def]) simp_all
    next
      case f: False
      with c less.prems blk_transfer_step [OF False n_def, of drv "write" sector buf s]
      have "ok = False" "s' = s1" by simp_all
      with f c show ?thesis using assms(3) [OF False n_def] by simp
    qed
  qed
qed

text \<open>Arithmetic of the chunks.\<close>

lemma chunk_arith:
  fixes len n sector :: u32
  assumes "n = (if len > 32768 then 32768 else len)" and "512 dvd unat len"
    and "unat sector + unat len div 512 < 2 ^ 32"
  shows "unat n \<le> 32768" "512 * unat (n div 512) = unat n" "unat (len - n) = unat len - unat n"
    "unat n \<le> unat len" "512 dvd unat (len - n)"
    "unat (sector + n div 512) = unat sector + unat n div 512"
    "unat (sector + n div 512) + unat (len - n) div 512 < 2 ^ 32"
proof -
  show n: "unat n \<le> 32768" and le: "unat n \<le> unat len"
    using assms(1) by (auto simp: word_less_nat_alt)
  have dvd: "512 dvd unat n"
    using assms(1,2) by (auto simp: word_less_nat_alt)
  then show "512 * unat (n div 512) = unat n" by (simp add: unat_div)
  show sub: "unat (len - n) = unat len - unat n"
    using le by (simp add: unat_sub_if_size)
  show "512 dvd unat (len - n)"
    using sub dvd assms(2) by simp
  have "unat sector + unat n div 512 \<le> unat sector + unat len div 512"
    using le by (simp add: div_le_mono)
  with assms(3) show add: "unat (sector + n div 512) = unat sector + unat n div 512"
    by (simp add: unat_add_lem [THEN iffD1] unat_div)
  have "unat n div 512 + (unat len - unat n) div 512 = unat len div 512"
    using dvd assms(2) le by (auto elim!: dvdE)
  with add sub assms(3) show "unat (sector + n div 512) + unat (len - n) div 512 < 2 ^ 32" by simp
qed

lemma upt_split: "a \<le> b \<Longrightarrow> b \<le> c \<Longrightarrow> [a..<c] = [a..<b] @ [b..<c]"
  by (metis le_add_diff_inverse upt_add_eq_append)

text \<open>Card bytes \<open>p \<dots> p + n\<close>, and the guest's.\<close>

abbreviation card_bytes :: "('c \<Rightarrow> nat \<Rightarrow> u8) \<Rightarrow> 'c \<Rightarrow> u32 \<Rightarrow> nat \<Rightarrow> u8 list" where
  "card_bytes disk c sector n \<equiv> map (disk c) [512 * unat sector ..< 512 * unat sector + n]"

abbreviation bounce_ready :: "'c core0 \<Rightarrow> bool" where
  "bounce_ready s \<equiv> length (c0_bounce s) = 32768"

lemma blk_chunk_read:
  assumes "sd_lawful drv disk" and "blk_chunk drv False sector buf n s = (True, s')"
    and "512 * unat (n div 512) = unat n" and "unat n \<le> 32768" and "bounce_ready s"
  shows "c0_hyp s' = (c0_hyp s)\<lparr>hv_mem := wr_bytes buf (card_bytes disk (c0_card s) sector (unat n))
                                          (c0_mem s)\<rparr> \<and>
         disk (c0_card s') = disk (c0_card s) \<and> bounce_ready s'"
proof -
  obtain s1 where r: "hyp_sd_read drv sector (n div 512) s = (True, s1)"
    and s': "s' = on_mem (wr_bytes buf (take (unat n) (c0_bounce s1))) s1"
    using assms(2) by (auto simp: blk_chunk_def blk_consts split: prod.splits if_splits)
  have "512 * unat (n div 512) \<le> length (c0_bounce s)" using assms(3-5) by simp
  from hyp_sd_read_ok [OF assms(1) r this] s' assms(3-5) show ?thesis by simp
qed

lemma blk_chunk_write:
  assumes "sd_lawful drv disk" and "blk_chunk drv True sector buf n s = (True, s')"
    and "512 * unat (n div 512) = unat n" and "unat n \<le> 32768" and "bounce_ready s"
  shows "c0_hyp s' = c0_hyp s \<and>
         disk (c0_card s') =
           (\<lambda>p. if 512 * unat sector \<le> p \<and> p < 512 * unat sector + unat n
                 then c0_mem s (buf + of_nat (p - 512 * unat sector)) else disk (c0_card s) p) \<and>
         bounce_ready s'"
proof -
  let ?s = "s\<lparr>c0_bounce := rd_bytes (c0_mem s) buf (unat n) @ drop (unat n) (c0_bounce s)\<rparr>"
  have w: "hyp_sd_write drv sector (n div 512) ?s = (True, s')"
    using assms(2) by (simp add: blk_chunk_def blk_consts)
  have "512 * unat (n div 512) \<le> length (c0_bounce ?s)" using assms(3-5) by simp
  from hyp_sd_write_ok [OF assms(1) w this] assms(3-5) show ?thesis
    by (auto simp: fun_eq_iff nth_append nth_rd_bytes)
qed

lemma blk_transfer_read:
  assumes "sd_lawful drv disk" and "blk_transfer drv False sector buf len s = (True, s')"
    and "bounce_ready s" and "512 dvd unat len" and "unat sector + unat len div 512 < 2 ^ 32"
  shows "c0_hyp s' = (c0_hyp s)\<lparr>hv_mem := wr_bytes buf
                                  (card_bytes disk (c0_card s) sector (unat len)) (c0_mem s)\<rparr> \<and>
         disk (c0_card s') = disk (c0_card s) \<and> bounce_ready s'"
  using assms(2-5)
proof (induction "sector" buf len s True s' rule: blk_transfer_chunks)
  case (finished sector buf s)
  then show ?case by simp
next
  case (failed sector buf len n s s')
  then show ?case by simp
next
  case (chunk sector buf len n s s1 s')
  note a = chunk_arith [OF chunk(2) chunk.prems(2,3)]
  have c: "c0_hyp s1 = (c0_hyp s)\<lparr>hv_mem := wr_bytes buf
               (card_bytes disk (c0_card s) sector (unat n)) (c0_mem s)\<rparr>"
    "disk (c0_card s1) = disk (c0_card s)" "bounce_ready s1"
    using blk_chunk_read [OF assms(1) chunk(3) a(2,1) chunk.prems(1)] by simp_all
  have pos: "512 * unat (sector + n div 512) = 512 * unat sector + unat n"
    using a(2,6) by (simp add: unat_div)
  have len: "512 * unat sector + unat n + unat (len - n) = 512 * unat sector + unat len"
    using a(3,4) by simp
  have bytes: "card_bytes disk (c0_card s1) (sector + n div 512) (unat (len - n)) =
      map (disk (c0_card s)) [512 * unat sector + unat n ..< 512 * unat sector + unat len]"
    by (simp only: pos len c(2))
  have "card_bytes disk (c0_card s) sector (unat len) =
      card_bytes disk (c0_card s) sector (unat n) @
      card_bytes disk (c0_card s1) (sector + n div 512) (unat (len - n))"
    unfolding bytes using a(4)
    by (subst upt_split [of _ "512 * unat sector + unat n"]) simp_all
  moreover have "wr_bytes (buf + n) bs (wr_bytes buf (card_bytes disk (c0_card s) sector (unat n)) m) =
      wr_bytes buf (card_bytes disk (c0_card s) sector (unat n) @ bs) m" for bs m
    by (simp add: wr_bytes_append)
  ultimately show ?case
    using chunk.hyps(4) [OF c(3) a(5,7)] c(1,2) by (simp del: map_map upt.simps)
qed

lemma blk_transfer_write:
  assumes "sd_lawful drv disk" and "blk_transfer drv True sector buf len s = (True, s')"
    and "bounce_ready s" and "512 dvd unat len" and "unat sector + unat len div 512 < 2 ^ 32"
  shows "c0_hyp s' = c0_hyp s \<and>
         disk (c0_card s') =
           (\<lambda>p. if 512 * unat sector \<le> p \<and> p < 512 * unat sector + unat len
                 then c0_mem s (buf + of_nat (p - 512 * unat sector)) else disk (c0_card s) p) \<and>
         bounce_ready s'"
  using assms(2-5)
proof (induction "sector" buf len s True s' rule: blk_transfer_chunks)
  case (finished sector buf s)
  then show ?case by (auto simp: fun_eq_iff)
next
  case (failed sector buf len n s s')
  then show ?case by simp
next
  case (chunk sector buf len n s s1 s')
  note a = chunk_arith [OF chunk(2) chunk.prems(2,3)]
  have c: "c0_hyp s1 = c0_hyp s" "bounce_ready s1"
    "disk (c0_card s1) =
       (\<lambda>p. if 512 * unat sector \<le> p \<and> p < 512 * unat sector + unat n
             then c0_mem s (buf + of_nat (p - 512 * unat sector)) else disk (c0_card s) p)"
    using blk_chunk_write [OF assms(1) chunk(3) a(2,1) chunk.prems(1)] by simp_all
  have pos: "512 * unat (sector + n div 512) = 512 * unat sector + unat n"
    using a(2,6) by (simp add: unat_div)
  have IH: "c0_hyp s' = c0_hyp s1" "bounce_ready s'"
    "disk (c0_card s') p =
       (if 512 * unat sector + unat n \<le> p \<and> p < 512 * unat sector + unat n + unat (len - n)
        then c0_mem s1 (buf + n + of_nat (p - (512 * unat sector + unat n)))
        else disk (c0_card s1) p)" for p
    using chunk.hyps(4) [OF c(2) a(5,7)] by (simp_all add: pos)
  have shift: "buf + n + of_nat (p - (512 * unat sector + unat n)) =
      buf + of_nat (p - 512 * unat sector)" if "512 * unat sector + unat n \<le> p" for p
    using that by (simp add: of_nat_diff)
  have "disk (c0_card s') p =
     (if 512 * unat sector \<le> p \<and> p < 512 * unat sector + unat len
      then c0_mem s (buf + of_nat (p - 512 * unat sector)) else disk (c0_card s) p)" for p
    unfolding IH(3) c(3) c(1) a(3) using a(4) shift [of p] by auto
  with IH(1,2) c(1) show ?case by (simp add: fun_eq_iff)
qed

text \<open>A card that answers makes every transfer succeed.\<close>

definition sd_reliable :: "'c sd_driver \<Rightarrow> bool" where
  "sd_reliable drv \<longleftrightarrow>
     (\<forall>c b sec cnt. fst (sdmmc_read_sectors drv c b sec cnt) = 0 \<and>
                    fst (sdmmc_write_sectors drv c b sec cnt) = 0)"

lemma ram_driver_reliable: "sd_reliable ram_driver"
  by (simp add: sd_reliable_def ram_driver_def)

text \<open>What no transfer changes, successful or not: everything but the buffer it reads into.\<close>

definition core0_view where
  "core0_view s = (cpu_view ((c0_hyp s)\<lparr>hv_mem := \<lambda>_. 0\<rparr>), c0_blk s)"

lemma core0_viewD: "core0_view s = core0_view s' \<Longrightarrow> c0_blk s = c0_blk s'"
  by (simp add: core0_view_def)

lemma core0_view_updates [simp]:
  "core0_view (s\<lparr>c0_bounce := b\<rparr>) = core0_view s" "core0_view (on_mem (\<lambda>_. m) s) = core0_view s"
  by (simp_all add: core0_view_def)

lemma core0_view_sd:
  assumes "cpu_view (c0_hyp s') = cpu_view (c0_hyp s) \<and> c0_mem s' = c0_mem s \<and> c0_blk s' = c0_blk s"
  shows "core0_view s' = core0_view s" "c0_mem s' = c0_mem s"
  using assms by (simp_all add: core0_view_def cpu_view_def)

lemma blk_chunk_frame:
  assumes "blk_chunk drv write sector buf n s = (ok, s')"
  shows "core0_view s' = core0_view s \<and> (\<forall>x. x \<notin> region buf (unat n) \<longrightarrow> c0_mem s' x = c0_mem s x)"
proof (cases "write")
  case True
  with assms have "hyp_sd_write drv sector (n div 512)
      (s\<lparr>c0_bounce := rd_bytes (c0_mem s) buf (unat n) @ drop (unat n) (c0_bounce s)\<rparr>) = (ok, s')"
    by (simp add: blk_chunk_def blk_consts)
  from core0_view_sd [OF hyp_sd_frame(2) [OF this]] show ?thesis by simp
next
  case False
  then obtain ok1 s1 where r: "hyp_sd_read drv sector (n div 512) s = (ok1, s1)"
    and s': "s' = (if ok1 then on_mem (wr_bytes buf (take (unat n) (c0_bounce s1))) s1 else s1)"
    using assms by (auto simp: blk_chunk_def blk_consts split: prod.splits if_splits)
  have "x \<notin> region buf (length (take (unat n) (c0_bounce s1)))" if "x \<notin> region buf (unat n)" for x
    using that region_mono [of "length (take (unat n) (c0_bounce s1))" "unat n" buf] by auto
  with core0_view_sd [OF hyp_sd_frame(1) [OF r]] s' show ?thesis
    by (simp add: wr_bytes_frame)
qed

lemma blk_transfer_frame:
  assumes "blk_transfer drv write sector buf len s = (ok, s')"
  shows "core0_view s' = core0_view s \<and> (\<forall>x. x \<notin> region buf (unat len) \<longrightarrow> c0_mem s' x = c0_mem s x)"
  using assms
proof (induction "sector" buf len s ok s' rule: blk_transfer_chunks)
  case (finished sector buf s)
  then show ?case by simp
next
  case (failed sector buf len n s s')
  have "unat n \<le> unat len" using failed(2) by (auto simp: word_less_nat_alt)
  with blk_chunk_frame [OF failed(3)] region_mono show ?case by blast
next
  case (chunk sector buf len n s s1 ok s')
  have n: "unat n \<le> unat len" using chunk(2) by (auto simp: word_less_nat_alt)
  then have "region buf (unat n) \<subseteq> region buf (unat len)" by (rule region_mono)
  moreover have "region (buf + n) (unat (len - n)) \<subseteq> region buf (unat len)"
    using region_shift [of "unat n" "unat (len - n)" "unat len" buf] n
    by (simp add: unat_sub_if_size)
  ultimately have sub: "x \<notin> region buf (unat n)" "x \<notin> region (buf + n) (unat (len - n))"
    if "x \<notin> region buf (unat len)" for x
    using that by auto
  have "c0_mem s' x = c0_mem s x" if "x \<notin> region buf (unat len)" for x
    using sub [OF that] blk_chunk_frame [OF chunk(3)] chunk(4) by simp
  with blk_chunk_frame [OF chunk(3)] chunk(4) show ?case by simp
qed

lemma blk_chunk_reliable:
  assumes "sd_reliable drv" and "hv_sd_ready (c0_hyp s)"
  shows "\<exists>s'. blk_chunk drv write sector buf n s = (True, s') \<and> hv_sd_ready (c0_hyp s')"
  using assms unfolding sd_reliable_def blk_chunk_def hyp_sd_read_def hyp_sd_write_def
  by (auto simp: Let_def split: prod.splits) (metis fst_conv)+

lemma blk_transfer_reliable:
  assumes "sd_reliable drv" and "hv_sd_ready (c0_hyp s)"
  shows "fst (blk_transfer drv write sector buf len s)"
proof -
  obtain ok s' where "blk_transfer drv write sector buf len s = (ok, s')" by fastforce
  then have "hv_sd_ready (c0_hyp s) \<Longrightarrow> ok"
  proof (induction "sector" buf len s ok s' rule: blk_transfer_chunks)
    case (failed sector buf len n s s')
    then show ?case using blk_chunk_reliable [OF assms(1)] by (metis Pair_inject)
  next
    case (chunk sector buf len n s s1 ok s')
    then show ?case using blk_chunk_reliable [OF assms(1) chunk(5)] by (metis Pair_inject)
  qed simp
  with assms(2) \<open>blk_transfer drv write sector buf len s = (ok, s')\<close> show ?thesis by simp
qed

definition demo_core0 :: "(nat \<Rightarrow> u8) core0" where
  "demo_core0 = \<lparr>c0_hyp = demo_hyp\<lparr>hv_sd_ready := True, hv_sd_capacity := 1000\<rparr>,
                 c0_card = \<lambda>_. 0, c0_bounce = replicate 32768 0\<rparr>"

lemma demo_core0_ready [simp]:
  "hv_sd_ready (c0_hyp demo_core0)" "length (c0_bounce demo_core0) = 32768"
  by (simp_all add: demo_core0_def)

section \<open>Chains\<close>

text \<open>
  The descriptor table of \<open>num\<close> entries at \<open>tbl\<close>, and a well-formed chain in it: a list of data
  buffers and, last, the address of the status byte. The predicate is the specification the walk
  is proved against.
\<close>

definition desc_pos :: "u32 \<Rightarrow> u32 \<Rightarrow> u16 \<Rightarrow> u32" where
  "desc_pos tbl num i = tbl + 16 * (ucast i mod num)"

lemma desc_at_pos: "desc_at h i = desc_pos (desc_table h) (bk_queue_num (hv_blk h)) i"
  by (simp add: desc_at_def desc_pos_def)

definition table_region :: "u32 \<Rightarrow> u32 \<Rightarrow> u32 set" where
  "table_region tbl num = region tbl (16 * unat num)"

inductive chain :: "mem \<Rightarrow> u32 \<Rightarrow> u32 \<Rightarrow> u16 \<Rightarrow> (u32 \<times> u32) list \<Rightarrow> u32 \<Rightarrow> bool"
  for m tbl num where
  chain_status:
    "\<not> desc_has_next m d \<Longrightarrow> d = desc_pos tbl num i \<Longrightarrow> st = gpa (desc_addr m d) \<Longrightarrow>
       chain m tbl num i [] st"
| chain_data:
    "desc_has_next m d \<Longrightarrow> d = desc_pos tbl num i \<Longrightarrow> chain m tbl num (desc_next m d) segs st \<Longrightarrow>
       chain m tbl num i ((gpa (desc_addr m d), desc_len m d) # segs) st"

inductive_simps chain_nil [simp]: "chain m tbl num i [] st"
inductive_simps chain_cons: "chain m tbl num i (seg # segs) st"

text \<open>The data buffers executed in order, stopping at the first that fails.\<close>

fun blk_segments ::
  "'c sd_driver \<Rightarrow> u32 \<Rightarrow> (u32 \<times> u32) list \<Rightarrow> u32 \<Rightarrow> u32 \<Rightarrow> 'c core0 \<Rightarrow> bool \<times> u32 \<times> 'c core0"
where
  "blk_segments drv type [] sector written s = (True, written, s)"
| "blk_segments drv type ((a, l) # segs) sector written s =
     (case blk_segment drv type a l sector written s of
        (ok, sector, written, s) \<Rightarrow>
          if ok then blk_segments drv type segs sector written s else (False, written, s))"

text \<open>The registers that say where the rings are, which no segment changes.\<close>

definition ring_regs where
  "ring_regs s = (bk_queue_pfn (c0_blk s), bk_guest_page_size (c0_blk s), bk_queue_num (c0_blk s),
                  bk_queue_align (c0_blk s), bk_last_avail (c0_blk s), bk_live (c0_blk s))"

lemma ring_regsD:
  assumes "ring_regs s' = ring_regs s"
  shows "desc_table (c0_hyp s') = desc_table (c0_hyp s)"
    "bk_queue_num (c0_blk s') = bk_queue_num (c0_blk s)"
    "desc_at (c0_hyp s') i = desc_at (c0_hyp s) i"
    "bk_last_avail (c0_blk s') = bk_last_avail (c0_blk s)"
  using assms by (simp_all add: ring_regs_def desc_table_def desc_at_def)

lemma blk_segment_frame:
  assumes "blk_segment drv type buf len sector written s = (ok, sector', written', s')"
  shows "ring_regs s' = ring_regs s \<and> (\<forall>x. x \<notin> region buf (unat len) \<longrightarrow> c0_mem s' x = c0_mem s x)"
proof -
  have rd: "ring_regs s1 = ring_regs s \<and> (\<forall>x. x \<notin> region buf (unat len) \<longrightarrow> c0_mem s1 x = c0_mem s x)"
    if "blk_transfer drv w sector buf len s = (ok1, s1)" for w ok1 s1
    using blk_transfer_frame [OF that] by (simp add: core0_view_def ring_regs_def)
  have "region buf (length (take (unat n) blk_id)) \<subseteq> region buf (unat len)"
    if "n = (if len < 11 then len else 11)" for n
    using that by (intro region_mono) (auto simp: word_less_nat_alt blk_id_def split: if_splits)
  then have id: "wr_bytes buf (take (unat n) blk_id) (wr_bytes buf (replicate (unat len) 0) m) x = m x"
    if "n = (if len < 11 then len else 11)" "x \<notin> region buf (unat len)" for n m x
    using that by (subst wr_bytes_frame; auto simp: wr_bytes_frame)
  show ?thesis
    using assms rd id unfolding blk_segment_def
    by (auto simp: ring_regs_def Let_def split: if_splits prod.splits)
qed

text \<open>A descriptor is read off the table's bytes alone.\<close>

lemma desc_pos_region:
  assumes "num \<noteq> 0" and "k + n \<le> 16"
  shows "region (desc_pos tbl num i + of_nat k) n \<subseteq> table_region tbl num"
proof -
  define j where "j = unat (ucast i mod num :: u32)"
  have "j < unat num"
    using assms(1) by (simp add: j_def unat_mod unat_gt_0)
  then have "16 * j + k + n \<le> 16 * unat num" using assms(2) by linarith
  from region_shift [OF this, of tbl] show ?thesis
    by (simp add: desc_pos_def table_region_def j_def algebra_simps)
qed

lemma desc_fields_cong:
  assumes "num \<noteq> 0" and "\<And>x. x \<in> table_region tbl num \<Longrightarrow> m x = m' x" and "d = desc_pos tbl num i"
  shows "desc_addr m d = desc_addr m' d" "desc_len m d = desc_len m' d"
    "desc_next m d = desc_next m' d" "desc_has_next m d = desc_has_next m' d"
proof -
  note sub = desc_pos_region [OF assms(1), of _ _ tbl i, folded assms(3)]
  have "rd64 m d = rd64 m' d"
    using assms(2) sub [of 0 8] by (intro rd64_cong) auto
  moreover have "rd32 m (d + 8) = rd32 m' (d + 8)"
    using assms(2) sub [of 8 4] by (intro rd32_cong) auto
  moreover have "rd16 m (d + 14) = rd16 m' (d + 14)" "rd16 m (d + 12) = rd16 m' (d + 12)"
    using assms(2) sub [of 14 2] sub [of 12 2] by (auto intro!: rd16_cong)
  ultimately show "desc_addr m d = desc_addr m' d" "desc_len m d = desc_len m' d"
    "desc_next m d = desc_next m' d" "desc_has_next m d = desc_has_next m' d"
    by (simp_all add: desc_addr_def desc_len_def desc_next_def desc_has_next_def desc_flags_def)
qed

text \<open>
  The walk of a well-formed chain ends, and is the execution of its segments, provided that no data
  buffer overlaps the descriptor table.
\<close>

definition off_table :: "u32 \<Rightarrow> u32 \<Rightarrow> (u32 \<times> u32) list \<Rightarrow> bool" where
  "off_table tbl num segs = (\<forall>(a, l) \<in> set segs. region a (unat l) \<inter> table_region tbl num = {})"

lemma blk_walk_chain:
  assumes "chain m tbl num idx segs st" and "num \<noteq> 0" and "off_table tbl num segs"
    and "\<And>x. x \<in> table_region tbl num \<Longrightarrow> c0_mem s x = m x"
    and "desc_table (c0_hyp s) = tbl" "bk_queue_num (c0_blk s) = num"
  shows "blk_walk drv type sector idx written s =
    (case blk_segments drv type segs sector written s of
       (ok, w, s') \<Rightarrow> Some ((ok, if ok then Some st else None, w), s'))"
  using assms
proof (induction arbitrary: s "sector" written rule: chain.induct)
  case (chain_status d i st)
  then have "desc_at (c0_hyp s) i = d" by (simp add: desc_at_pos)
  with chain_status desc_fields_cong [OF chain_status(4), of tbl "c0_mem s" m d i]
  show ?case by (subst blk_walk.simps) (simp add: Let_def)
next
  case (chain_data d i segs st)
  have d: "desc_at (c0_hyp s) i = d" using chain_data by (simp add: desc_at_pos)
  note f = desc_fields_cong [OF chain_data.prems(1,3) chain_data.hyps(2)]
  let ?seg = "blk_segment drv type (gpa (desc_addr m d)) (desc_len m d) sector written s"
  obtain ok sector' w' s1 where seg: "?seg = (ok, sector', w', s1)" by (metis prod_cases4)
  have fr: "ring_regs s1 = ring_regs s"
    and mem: "\<And>x. x \<in> table_region tbl num \<Longrightarrow> c0_mem s1 x = m x"
    using blk_segment_frame [OF seg] chain_data.prems(2,3) unfolding off_table_def by auto
  have IH: "blk_walk drv type sector' (desc_next m d) w' s1 =
    (case blk_segments drv type segs sector' w' s1 of
       (ok, w, s') \<Rightarrow> Some ((ok, if ok then Some st else None, w), s'))"
    using chain_data.prems(2,4,5) ring_regsD [OF fr] mem chain_data.prems(1)
    by (intro chain_data.IH) (auto simp: off_table_def)
  have "desc_next (c0_mem s1) d = desc_next m d"
    using desc_fields_cong(3) [OF chain_data.prems(1) mem chain_data.hyps(2)] .
  with IH seg d f chain_data.hyps(1) show ?case
    by (subst blk_walk.simps) (simp add: Let_def)
qed

section \<open>Requests\<close>

text \<open>A well-formed request at \<open>head\<close>: header, data buffers, status byte.\<close>

definition request_at ::
  "'c core0 \<Rightarrow> u16 \<Rightarrow> u32 \<Rightarrow> u32 \<Rightarrow> (u32 \<times> u32) list \<Rightarrow> u32 \<Rightarrow> bool"
where
  "request_at s head type sector segs st =
     (let m = c0_mem s; tbl = desc_table (c0_hyp s); num = bk_queue_num (c0_blk s);
          d = desc_pos tbl num head; hdr = gpa (desc_addr m d)
      in num \<noteq> 0 \<and> 16 \<le> desc_len m d \<and> desc_has_next m d \<and> type = rd32 m hdr \<and>
         sector = ucast (rd64 m (hdr + 8)) \<and> chain m tbl num (desc_next m d) segs st \<and>
         off_table tbl num segs)"

lemma blk_do_request_chain:
  assumes "request_at s head type sector segs st"
    and "blk_segments drv type segs sector 0 s = (ok, w, s1)"
  shows "blk_do_request drv head s = Some (blk_finish type ((ok, if ok then Some st else None, w), s1))"
proof -
  define d where "d = desc_pos (desc_table (c0_hyp s)) (bk_queue_num (c0_blk s)) head"
  define hdr where "hdr = gpa (desc_addr (c0_mem s) d)"
  note r = assms(1) [unfolded request_at_def Let_def, folded d_def, folded hdr_def]
  have "blk_walk drv type sector (desc_next (c0_mem s) d) 0 s =
      Some ((ok, if ok then Some st else None, w), s1)"
  proof -
    have c: "chain (c0_mem s) (desc_table (c0_hyp s)) (bk_queue_num (c0_blk s))
        (desc_next (c0_mem s) d) segs st"
      and num: "bk_queue_num (c0_blk s) \<noteq> 0"
      and off: "off_table (desc_table (c0_hyp s)) (bk_queue_num (c0_blk s)) segs"
      using r by blast+
    show ?thesis
      by (subst blk_walk_chain [OF c num off]) (simp_all add: assms(2))
  qed
  moreover have "desc_at (c0_hyp s) head = d" "\<not> desc_len (c0_mem s) d < 16"
    using r by (simp_all add: desc_at_pos d_def not_less)
  ultimately show ?thesis
    using r by (simp add: blk_do_request_def Let_def flip: hdr_def)
qed

lemma blk_segments_frame:
  assumes "blk_segments drv type segs sector written s = (ok, w, s')"
  shows "ring_regs s' = ring_regs s \<and>
         (\<forall>x. (\<forall>(a, l) \<in> set segs. x \<notin> region a (unat l)) \<longrightarrow> c0_mem s' x = c0_mem s x)"
  using assms
proof (induction segs arbitrary: "sector" written s)
  case Nil
  then show ?case by simp
next
  case (Cons seg segs)
  obtain a l where al: "seg = (a, l)" by fastforce
  obtain ok1 sector1 w1 s1
    where seg: "blk_segment drv type a l sector written s = (ok1, sector1, w1, s1)"
    by (metis prod_cases4)
  show ?case
  proof (cases ok1)
    case True
    with Cons.prems al seg have "blk_segments drv type segs sector1 w1 s1 = (ok, w, s')" by simp
    from Cons.IH [OF this] blk_segment_frame [OF seg] al show ?thesis by simp
  next
    case False
    with Cons.prems al seg have "s' = s1" by simp
    with blk_segment_frame [OF seg] al show ?thesis by simp
  qed
qed

text \<open>
  C36. A failed request is never acknowledged. When a data buffer of a well-formed chain fails (a
  card error, a length that is not a whole number of sectors, an unknown request type), the walk
  stops there with \<open>status_byte\<close> still null: the request is counted as an error, but the guest's
  status byte keeps whatever it held, so neither \<open>S_IOERR\<close> nor \<open>S_UNSUPP\<close> is ever reported.
\<close>

theorem blk_error_unreported:
  assumes "request_at s head type sector segs st"
    and "blk_segments drv type segs sector 0 s = (False, w, s1)"
    and "\<forall>(a, l) \<in> set segs. st \<notin> region a (unat l)"
  shows "\<exists>s'. blk_do_request drv head s = Some (w, s') \<and> c0_mem s' st = c0_mem s st \<and>
              bk_requests (c0_blk s') = bk_requests (c0_blk s1) + 1 \<and>
              bk_errors (c0_blk s') = bk_errors (c0_blk s1) + 1"
  using blk_do_request_chain [OF assms(1,2)] blk_segments_frame [OF assms(2)] assms(3)
  by (auto simp: blk_finish_def Let_def)

text \<open>A set of descriptors that is closed under \<open>next\<close> and in which every one has the flag.\<close>

definition cyclic :: "mem \<Rightarrow> u32 \<Rightarrow> u32 \<Rightarrow> u16 set \<Rightarrow> bool" where
  "cyclic m tbl num C =
     (\<forall>i \<in> C. desc_has_next m (desc_pos tbl num i) \<and> desc_next m (desc_pos tbl num i) \<in> C)"

lemma blk_walk_cyclic:
  assumes "blk_walk drv type sector idx written s = Some r"
  shows "\<not> (type = VIRTIO_BLK_T_FLUSH \<and> idx \<in> C \<and>
            cyclic (c0_mem s) (desc_table (c0_hyp s)) (bk_queue_num (c0_blk s)) C)"
proof (rule blk_walk.raw_induct [OF _ assms, where P = "\<lambda>drv type sector idx written s r.
    \<not> (type = VIRTIO_BLK_T_FLUSH \<and> idx \<in> C \<and>
       cyclic (c0_mem s) (desc_table (c0_hyp s)) (bk_queue_num (c0_blk s)) C)"], goal_cases)
  case (1 walk drv type sector idx written s r)
  show ?case
  proof
    let ?d = "desc_at (c0_hyp s) idx"
    assume c: "type = VIRTIO_BLK_T_FLUSH \<and> idx \<in> C \<and>
       cyclic (c0_mem s) (desc_table (c0_hyp s)) (bk_queue_num (c0_blk s)) C"
    then have "desc_has_next (c0_mem s) ?d" "desc_next (c0_mem s) ?d \<in> C"
      by (auto simp: cyclic_def desc_at_pos)
    moreover from this c 1(2) have "walk drv type sector (desc_next (c0_mem s) ?d) written s = Some r"
      by (simp add: Let_def blk_segment_def VIRTIO_BLK_T_FLUSH_def VIRTIO_BLK_T_IN_def
          VIRTIO_BLK_T_OUT_def VIRTIO_BLK_T_GET_ID_def)
    ultimately show False using 1(1) c by blast
  qed
qed

text \<open>
  C37. A cyclic chain hangs core 0. If the descriptors from the request's second one on lead into a
  set that is closed under \<open>next\<close> and in which every descriptor has the \<open>NEXT\<close> flag, a flush
  request never returns: nothing bounds the number of links the walk follows, although a ring of
  \<open>queue_num\<close> descriptors has no longer chain.
\<close>

theorem blk_cyclic_request_hangs:
  assumes "cyclic (c0_mem s) (desc_table (c0_hyp s)) (bk_queue_num (c0_blk s)) C"
    and "d = desc_at (c0_hyp s) head" and "16 \<le> desc_len (c0_mem s) d"
    and "desc_has_next (c0_mem s) d" and "desc_next (c0_mem s) d \<in> C"
    and "rd32 (c0_mem s) (gpa (desc_addr (c0_mem s) d)) = VIRTIO_BLK_T_FLUSH"
  shows "blk_do_request drv head s = None"
proof -
  have "blk_walk drv VIRTIO_BLK_T_FLUSH sector (desc_next (c0_mem s) d) 0 s = None" for sector
    using blk_walk_cyclic [of drv VIRTIO_BLK_T_FLUSH sector "desc_next (c0_mem s) d" 0 s _ C]
      assms(1,5) by (cases "blk_walk drv VIRTIO_BLK_T_FLUSH sector (desc_next (c0_mem s) d) 0 s") auto
  with assms show ?thesis
    by (simp add: blk_do_request_def Let_def not_less)
qed

text \<open>
  A ring for the concrete instances: three descriptors at \<open>0x48100000\<close> (header, one 20-byte
  buffer, status), the first of them available, and the request header at \<open>0x48100800\<close>, with the
  type and the second descriptor's \<open>next\<close> as parameters.
\<close>

definition ring_bytes :: "u8 \<Rightarrow> u8 list" where
  "ring_bytes nxt =
     [0x00, 0x08, 0x10, 0x48, 0, 0, 0, 0,  16, 0, 0, 0,  1, 0,  1, 0,
      0x00, 0x0a, 0x10, 0x48, 0, 0, 0, 0,  20, 0, 0, 0,  1, 0,  nxt, 0,
      0x00, 0x0c, 0x10, 0x48, 0, 0, 0, 0,   1, 0, 0, 0,  0, 0,  0, 0]"

definition ring_mem :: "u8 \<Rightarrow> u8 \<Rightarrow> mem" where
  "ring_mem type nxt a =
     (let k = unat (a - 0x48100000)
      in if k < 48 then ring_bytes nxt ! k else if k = 0x82 then 1
         else if k = 0x800 then type else if k = 0xc00 then 0xFF else 0)"

definition demo_ring :: "u8 \<Rightarrow> u8 \<Rightarrow> (nat \<Rightarrow> u8) core0" where
  "demo_ring type nxt =
     on_hyp (\<lambda>h. h\<lparr>hv_mem := ring_mem type nxt,
                  hv_blk := (hv_blk h)\<lparr>bk_queue_pfn := 0x48100, bk_guest_page_size := 4096,
                                      bk_queue_num := 8, bk_live := True\<rparr>\<rparr>) demo_core0"

lemma demo_ring_regs [simp]:
  "desc_table (c0_hyp (demo_ring t n)) = 0x48100000" "bk_queue_num (c0_blk (demo_ring t n)) = 8"
  "c0_mem (demo_ring t n) = ring_mem t n"
  by (simp_all add: demo_ring_def desc_table_def)

lemma ucast_byte_twice: "(ucast (ucast (t :: u8) :: u16) :: u32) = ucast t"
  by (rule bit_word_eqI) (auto simp: bit_simps dest: bit_imp_le_length)

lemma demo_desc [simp]:
  "desc_pos 0x48100000 8 0 = 0x48100000" "desc_pos 0x48100000 8 1 = 0x48100010"
  "desc_pos 0x48100000 8 2 = 0x48100020"
  "gpa (desc_addr (ring_mem t n) 0x48100000) = 0x48100800" "desc_len (ring_mem t n) 0x48100000 = 16"
  "desc_has_next (ring_mem t n) 0x48100000" "desc_next (ring_mem t n) 0x48100000 = 1"
  "gpa (desc_addr (ring_mem t n) 0x48100010) = 0x48100a00" "desc_len (ring_mem t n) 0x48100010 = 20"
  "desc_has_next (ring_mem t n) 0x48100010" "desc_next (ring_mem t n) 0x48100010 = ucast n"
  "gpa (desc_addr (ring_mem t n) 0x48100020) = 0x48100c00" "\<not> desc_has_next (ring_mem t n) 0x48100020"
  "rd32 (ring_mem t n) 0x48100800 = ucast t" "rd64 (ring_mem t n) 0x48100808 = 0"
  by (simp_all add: desc_pos_def gpa_def desc_addr_def desc_len_def desc_has_next_def desc_next_def
      desc_flags_def VRING_DESC_F_NEXT_def rd64_def rd32_def rd16_def ring_mem_def ring_bytes_def Let_def ucast_byte_twice)

lemma demo_request:
  "ucast t = type \<Longrightarrow> request_at (demo_ring t 2) 0 type 0 [(0x48100a00, 20)] 0x48100c00"
  by (simp add: request_at_def Let_def chain_cons off_table_def table_region_def region_disjoint)

theorem blk_error_unreported_witness:
  "\<exists>s'. blk_do_request ram_driver 0 (demo_ring 5 2) = Some (0, s') \<and> c0_mem s' 0x48100c00 = 0xFF"
proof -
  have "blk_segments ram_driver 5 [(0x48100a00, 20)] 0 0 (demo_ring 5 2) = (False, 0, demo_ring 5 2)"
    by (simp add: blk_segment_def VIRTIO_BLK_T_FLUSH_def VIRTIO_BLK_T_IN_def
        VIRTIO_BLK_T_OUT_def VIRTIO_BLK_T_GET_ID_def)
  from blk_error_unreported [OF demo_request this] show ?thesis
    by (auto simp: region_iff ring_mem_def)
qed

theorem blk_cyclic_request_hangs_witness: "blk_do_request ram_driver 0 (demo_ring 4 1) = None"
  by (rule blk_cyclic_request_hangs [where C = "{1}" and d = "0x48100000"])
     (simp_all add: cyclic_def desc_at_pos VIRTIO_BLK_T_FLUSH_def)

text \<open>
  Buffers are not confined to the guest's memory: a \<open>GET_ID\<close> request writes through whatever
  address its descriptor holds, the monitor's own memory included, since \<open>gpa()\<close> is the identity and
  nothing compares the address with the guest's window.
\<close>

lemma blk_buffer_not_confined:
  assumes "len \<noteq> 0"
  shows "\<exists>s'. blk_segment drv VIRTIO_BLK_T_GET_ID buf len sector written s =
                (True, sector, written + len, s') \<and> c0_mem s' buf = 0x65"
proof -
  define n where "n = (if len < 11 then len else 11)"
  have "take (unat n) blk_id ! 0 = 0x65" "0 < length (take (unat n) blk_id)"
    "length (take (unat n) blk_id) \<le> 2 ^ 32"
    using assms by (auto simp: n_def blk_id_def unat_gt_0)
  from wr_bytes_inside [OF this(3,2), of buf] this(1)
  show ?thesis
    by (simp add: blk_segment_def VIRTIO_BLK_T_IN_def VIRTIO_BLK_T_OUT_def
        VIRTIO_BLK_T_GET_ID_def Let_def flip: n_def)
qed

end
