(* ===== verification/Hyp_Request.thy ===== *)
theory Hyp_Request
  imports Hyp_Blk
begin

text \<open>
  What a block request means, end to end. The specification is a disk of bytes and a scatter list:
  a read puts consecutive bytes of the disk into the buffers one after the other, a write puts the
  buffers' bytes on the disk one after the other. The theory shows that \<open>blk_do_request\<close>, with its
  descriptor walk, its sector counter and its 32 KB bounce buffer, does exactly that.
\<close>

section \<open>The specification\<close>

definition bytes_of :: "(u32 \<times> u32) list \<Rightarrow> nat" where
  "bytes_of segs = (\<Sum>(a, l) \<leftarrow> segs. unat l)"

definition gather :: "mem \<Rightarrow> (u32 \<times> u32) list \<Rightarrow> u8 list" where
  "gather m segs = concat (map (\<lambda>(a, l). rd_bytes m a (unat l)) segs)"

definition put_at :: "nat \<Rightarrow> u8 list \<Rightarrow> (nat \<Rightarrow> u8) \<Rightarrow> nat \<Rightarrow> u8" where
  "put_at p bs d = (\<lambda>q. if p \<le> q \<and> q < p + length bs then bs ! (q - p) else d q)"

text \<open>The buffers: whole sectors, and no two overlap.\<close>

definition whole_sectors :: "(u32 \<times> u32) list \<Rightarrow> bool" where
  "whole_sectors segs = (\<forall>(a, l) \<in> set segs. 512 dvd unat l)"

definition apart :: "(u32 \<times> u32) list \<Rightarrow> bool" where
  "apart segs = sorted_wrt (\<lambda>(a, l) (b, k). region a (unat l) \<inter> region b (unat k) = {}) segs"

lemma segs_simps [simp]:
  "bytes_of [] = 0" "bytes_of ((a, l) # segs) = unat l + bytes_of segs"
  "gather m [] = []" "gather m ((a, l) # segs) = rd_bytes m a (unat l) @ gather m segs"
  "whole_sectors []" "whole_sectors ((a, l) # segs) \<longleftrightarrow> 512 dvd unat l \<and> whole_sectors segs"
  "apart []"
  "apart ((a, l) # segs) \<longleftrightarrow>
     (\<forall>(b, k) \<in> set segs. region a (unat l) \<inter> region b (unat k) = {}) \<and> apart segs"
  by (simp_all add: bytes_of_def gather_def whole_sectors_def apart_def case_prod_beta)

lemma length_gather [simp]: "length (gather m segs) = bytes_of segs"
  by (induction segs) auto

lemma gather_cong:
  assumes "\<And>x a l. (a, l) \<in> set segs \<Longrightarrow> x \<in> region a (unat l) \<Longrightarrow> m x = m' x"
  shows "gather m segs = gather m' segs"
  unfolding gather_def using assms
  by (intro arg_cong [where f = concat] map_cong) (auto intro!: rd_bytes_cong)

lemma put_at_append: "put_at p (xs @ ys) d = put_at (p + length xs) ys (put_at p xs d)"
  by (auto simp: put_at_def fun_eq_iff nth_append)

lemma put_at_Nil [simp]: "put_at p [] d = d"
  by (auto simp: put_at_def fun_eq_iff)

section \<open>One buffer\<close>

lemma unat_bounded: "unat (l :: u32) \<le> 4294967296"
proof -
  have "unat l < 2 ^ LENGTH(32)" by (rule unsigned_less)
  then show ?thesis by simp
qed

lemma sector_multiple: "512 dvd unat (l :: u32) \<Longrightarrow> l mod 512 = 0"
  by (simp add: word_unat_eq_iff unat_mod dvd_eq_mod_eq_0)

lemma sector_step:
  fixes sector l :: u32
  assumes "unat sector + (unat l + n) div 512 < 2 ^ 32" and "512 dvd unat l"
  shows "unat (sector + l div 512) = unat sector + unat l div 512"
    "unat (sector + l div 512) + n div 512 < 2 ^ 32" "unat sector + unat l div 512 < 2 ^ 32"
    "512 * unat (sector + l div 512) = 512 * unat sector + unat l"
proof -
  have split: "(unat l + n) div 512 = unat l div 512 + n div 512"
    using assms(2) by (auto elim!: dvdE)
  with assms(1) show "unat sector + unat l div 512 < 2 ^ 32" by simp
  then show sum: "unat (sector + l div 512) = unat sector + unat l div 512"
    by (simp add: unat_add_lem [THEN iffD1] unat_div)
  with assms(1) split show "unat (sector + l div 512) + n div 512 < 2 ^ 32" by simp
  from sum assms(2) show "512 * unat (sector + l div 512) = 512 * unat sector + unat l"
    by (auto elim!: dvdE)
qed

text \<open>The standing assumptions on the driver and the state.\<close>

definition card_ready :: "'c sd_driver \<Rightarrow> ('c \<Rightarrow> nat \<Rightarrow> u8) \<Rightarrow> 'c core0 \<Rightarrow> bool" where
  "card_ready drv disk s \<longleftrightarrow>
     sd_lawful drv disk \<and> sd_reliable drv \<and> hv_sd_ready (c0_hyp s) \<and> bounce_ready s"

lemma segment_read:
  assumes "card_ready drv disk s" and "512 dvd unat l" and "unat sector + unat l div 512 < 2 ^ 32"
  obtains s1 where "blk_segment drv VIRTIO_BLK_T_IN a l sector w s = (True, sector + l div 512, w + l, s1)"
    and "c0_mem s1 = wr_bytes a (card_bytes disk (c0_card s) sector (unat l)) (c0_mem s)"
    and "disk (c0_card s1) = disk (c0_card s)" and "card_ready drv disk s1"
proof -
  obtain s0 where t: "blk_transfer drv False sector a l s = (True, s0)"
    using blk_transfer_reliable [of drv s False sector a l] assms(1)
    by (cases "blk_transfer drv False sector a l s") (auto simp: card_ready_def)
  with blk_transfer_read [OF _ t _ assms(2,3)] assms(1) sector_multiple [OF assms(2)]
  show thesis
    by (intro that [of "on_hyp (on_blk (\<lambda>b. b\<lparr>bk_reads := bk_reads b + 1\<rparr>)) s0"])
       (auto simp: blk_segment_def blk_consts card_ready_def VIRTIO_BLK_T_IN_def)
qed

lemma segment_write:
  assumes "card_ready drv disk s" and "512 dvd unat l" and "unat sector + unat l div 512 < 2 ^ 32"
  obtains s1 where "blk_segment drv VIRTIO_BLK_T_OUT a l sector w s = (True, sector + l div 512, w, s1)"
    and "c0_mem s1 = c0_mem s"
    and "disk (c0_card s1) = put_at (512 * unat sector) (rd_bytes (c0_mem s) a (unat l)) (disk (c0_card s))"
    and "card_ready drv disk s1"
proof -
  obtain s0 where t: "blk_transfer drv True sector a l s = (True, s0)"
    using blk_transfer_reliable [of drv s True sector a l] assms(1)
    by (cases "blk_transfer drv True sector a l s") (auto simp: card_ready_def)
  from assms(1) have law: "sd_lawful drv disk" and ready: "bounce_ready s" "hv_sd_ready (c0_hyp s)" "sd_reliable drv"
    by (simp_all add: card_ready_def)
  note w = blk_transfer_write [OF law t ready(1) assms(2,3)]
  have "disk (c0_card s0) = put_at (512 * unat sector) (rd_bytes (c0_mem s) a (unat l)) (disk (c0_card s))"
  proof
    fix p show "disk (c0_card s0) p = put_at (512 * unat sector) (rd_bytes (c0_mem s) a (unat l)) (disk (c0_card s)) p"
      using w by (auto simp: put_at_def nth_rd_bytes simp del: of_nat_diff)
  qed
  with w t law ready sector_multiple [OF assms(2)] show thesis
    by (intro that [of "on_hyp (on_blk (\<lambda>b. b\<lparr>bk_writes := bk_writes b + 1\<rparr>)) s0"])
       (simp_all add: blk_segment_def blk_consts card_ready_def VIRTIO_BLK_T_OUT_def VIRTIO_BLK_T_IN_def)
qed

section \<open>All of them\<close>

lemma region_own:
  assumes "\<forall>x. (\<forall>(b, k) \<in> set segs. x \<notin> region b (unat k)) \<longrightarrow> m' x = m x"
    and "\<forall>(b, k) \<in> set segs. region a (unat l) \<inter> region b (unat k) = {}"
  shows "rd_bytes m' a (unat l) = rd_bytes m a (unat l)"
  using assms by (intro rd_bytes_cong) blast

lemma segments_read:
  assumes "card_ready drv disk s" and "whole_sectors segs" and "apart segs"
    and "unat sector + bytes_of segs div 512 < 2 ^ 32"
  shows "\<exists>s'. blk_segments drv VIRTIO_BLK_T_IN segs sector w s = (True, w + of_nat (bytes_of segs), s') \<and>
              gather (c0_mem s') segs = card_bytes disk (c0_card s) sector (bytes_of segs) \<and>
              disk (c0_card s') = disk (c0_card s)"
  using assms
proof (induction segs arbitrary: "sector" w s)
  case Nil
  then show ?case by simp
next
  case (Cons seg segs)
  obtain a l where [simp]: "seg = (a, l)" by fastforce
  note step = sector_step [of "sector" l "bytes_of segs"]
  have dvd: "512 dvd unat l" and lim: "unat sector + (unat l + bytes_of segs) div 512 < 2 ^ 32"
    using Cons.prems by simp_all
  obtain s1 where seg: "blk_segment drv VIRTIO_BLK_T_IN a l sector w s = (True, sector + l div 512, w + l, s1)"
    and m1: "c0_mem s1 = wr_bytes a (card_bytes disk (c0_card s) sector (unat l)) (c0_mem s)"
    and d1: "disk (c0_card s1) = disk (c0_card s)" and ready: "card_ready drv disk s1"
    using segment_read [OF Cons.prems(1) dvd step(3) [OF lim dvd]] by blast
  from Cons.IH [OF ready _ _ step(2) [OF lim dvd], of "w + l"] Cons.prems obtain s' where
    run: "blk_segments drv VIRTIO_BLK_T_IN segs (sector + l div 512) (w + l) s1 =
        (True, w + l + of_nat (bytes_of segs), s')"
    and g: "gather (c0_mem s') segs = card_bytes disk (c0_card s1) (sector + l div 512) (bytes_of segs)"
    and d: "disk (c0_card s') = disk (c0_card s1)"
    by auto
  have "rd_bytes (c0_mem s') a (unat l) = rd_bytes (c0_mem s1) a (unat l)"
    using blk_segments_frame [OF run] Cons.prems(3) by (intro region_own [of segs]) auto
  also have "\<dots> = card_bytes disk (c0_card s) sector (unat l)"
    unfolding m1 using rd_bytes_wr_bytes [of "card_bytes disk (c0_card s) sector (unat l)" a "c0_mem s"]
      unat_bounded [of l] by simp
  finally have "gather (c0_mem s') (seg # segs) = card_bytes disk (c0_card s) sector (bytes_of (seg # segs))"
    using g by (simp add: d1 step(4) [OF lim dvd] add.assoc
        upt_split [of "512 * unat sector" "512 * unat sector + unat l" "512 * unat sector + (unat l + bytes_of segs)"])
  with seg run d d1 show ?case by simp
qed

lemma segments_write:
  assumes "card_ready drv disk s" and "whole_sectors segs"
    and "unat sector + bytes_of segs div 512 < 2 ^ 32"
  shows "\<exists>s'. blk_segments drv VIRTIO_BLK_T_OUT segs sector w s = (True, w, s') \<and>
              disk (c0_card s') = put_at (512 * unat sector) (gather (c0_mem s) segs) (disk (c0_card s)) \<and>
              c0_mem s' = c0_mem s"
  using assms
proof (induction segs arbitrary: "sector" s)
  case Nil
  then show ?case by simp
next
  case (Cons seg segs)
  obtain a l where [simp]: "seg = (a, l)" by fastforce
  note step = sector_step [of "sector" l "bytes_of segs"]
  have dvd: "512 dvd unat l" and lim: "unat sector + (unat l + bytes_of segs) div 512 < 2 ^ 32"
    using Cons.prems by simp_all
  obtain s1 where seg: "blk_segment drv VIRTIO_BLK_T_OUT a l sector w s = (True, sector + l div 512, w, s1)"
    and m1: "c0_mem s1 = c0_mem s"
    and d1: "disk (c0_card s1) = put_at (512 * unat sector) (rd_bytes (c0_mem s) a (unat l)) (disk (c0_card s))"
    and ready: "card_ready drv disk s1"
    using segment_write [OF Cons.prems(1) dvd step(3) [OF lim dvd]] by blast
  from Cons.IH [OF ready _ step(2) [OF lim dvd]] Cons.prems(2) m1 obtain s' where
    run: "blk_segments drv VIRTIO_BLK_T_OUT segs (sector + l div 512) w s1 = (True, w, s')"
    and d: "disk (c0_card s') =
        put_at (512 * unat (sector + l div 512)) (gather (c0_mem s) segs) (disk (c0_card s1))"
    and m: "c0_mem s' = c0_mem s"
    by auto
  with seg d1 step(4) [OF lim dvd] show ?case
    by (simp add: put_at_append)
qed

section \<open>Requests\<close>

lemma request_done:
  assumes "request_at s head type sector segs st"
    and "blk_segments drv type segs sector 0 s = (True, w, s1)"
  obtains s' where "blk_do_request drv head s = Some (w + 1, s')"
    and "c0_mem s' = (c0_mem s1)(st := VIRTIO_BLK_S_OK)" and "c0_card s' = c0_card s1"
  using blk_do_request_chain [OF assms] by (simp add: blk_finish_def blk_status_byte_def Let_def)

lemma request_reads:
  assumes "request_at s head VIRTIO_BLK_T_IN sector segs st" and "card_ready drv disk s"
    and "whole_sectors segs" and "apart segs" and "unat sector + bytes_of segs div 512 < 2 ^ 32"
    and "\<forall>(a, l) \<in> set segs. st \<notin> region a (unat l)"
  shows "\<exists>s'. blk_do_request drv head s = Some (of_nat (bytes_of segs) + 1, s') \<and>
              gather (c0_mem s') segs = card_bytes disk (c0_card s) sector (bytes_of segs) \<and>
              c0_mem s' st = VIRTIO_BLK_S_OK \<and> disk (c0_card s') = disk (c0_card s) \<and>
              (\<forall>x. x \<noteq> st \<longrightarrow> (\<forall>(a, l) \<in> set segs. x \<notin> region a (unat l)) \<longrightarrow> c0_mem s' x = c0_mem s x)"
proof -
  obtain s1 where run: "blk_segments drv VIRTIO_BLK_T_IN segs sector 0 s = (True, of_nat (bytes_of segs), s1)"
    and s1: "gather (c0_mem s1) segs = card_bytes disk (c0_card s) sector (bytes_of segs)"
      "disk (c0_card s1) = disk (c0_card s)"
    using segments_read [OF assms(2-5), of 0] by auto
  obtain s' where s': "blk_do_request drv head s = Some (of_nat (bytes_of segs) + 1, s')"
    "c0_mem s' = (c0_mem s1)(st := VIRTIO_BLK_S_OK)" "c0_card s' = c0_card s1"
    using request_done [OF assms(1) run] .
  moreover have "gather (c0_mem s') segs = gather (c0_mem s1) segs"
    using assms(6) s'(2) by (intro gather_cong) auto
  ultimately show ?thesis
    using s1 blk_segments_frame [OF run] by auto
qed

lemma request_writes:
  assumes "request_at s head VIRTIO_BLK_T_OUT sector segs st" and "card_ready drv disk s"
    and "whole_sectors segs" and "unat sector + bytes_of segs div 512 < 2 ^ 32"
  shows "\<exists>s'. blk_do_request drv head s = Some (1, s') \<and>
              disk (c0_card s') = put_at (512 * unat sector) (gather (c0_mem s) segs) (disk (c0_card s)) \<and>
              c0_mem s' = (c0_mem s)(st := VIRTIO_BLK_S_OK)"
proof -
  obtain s1 where run: "blk_segments drv VIRTIO_BLK_T_OUT segs sector 0 s = (True, 0, s1)"
    and s1: "disk (c0_card s1) = put_at (512 * unat sector) (gather (c0_mem s) segs) (disk (c0_card s))"
      "c0_mem s1 = c0_mem s"
    using segments_write [OF assms(2-4), of 0] by auto
  with request_done [OF assms(1) run] show ?thesis by (metis add_0)
qed

text \<open>
  C15. A read request delivers the disk. For a well-formed chain whose data buffers are whole
  sectors and overlap neither each other nor the status byte, with a card that answers,
  \<open>blk_do_request\<close> returns; the buffers, taken in chain order, then hold the consecutive bytes of
  the disk from the request's sector on; the status byte is 0 (\<open>S_OK\<close>), the reported length is the
  buffers' plus the status byte's, the disk is unchanged and so is every other byte of memory.
\<close>

theorem blk_do_request_reads:
  assumes "request_at s head VIRTIO_BLK_T_IN sector segs st" and "card_ready drv disk s"
    and "whole_sectors segs" and "apart segs" and "unat sector + bytes_of segs div 512 < 2 ^ 32"
    and "\<forall>(a, l) \<in> set segs. st \<notin> region a (unat l)"
  shows "\<exists>s'. blk_do_request drv head s = Some (of_nat (bytes_of segs) + 1, s') \<and>
              gather (c0_mem s') segs = card_bytes disk (c0_card s) sector (bytes_of segs) \<and>
              c0_mem s' st = VIRTIO_BLK_S_OK \<and> disk (c0_card s') = disk (c0_card s) \<and>
              (\<forall>x. x \<noteq> st \<longrightarrow> (\<forall>(a, l) \<in> set segs. x \<notin> region a (unat l)) \<longrightarrow> c0_mem s' x = c0_mem s x)"
  using assms by (rule request_reads)

text \<open>
  C16. A write request stores the buffers. Under the same conditions (the buffers may overlap here)
  the disk's bytes from the request's sector on become the buffers' bytes in chain order and all
  its others stay; in memory only the status byte changes, to 0, and the reported length is 1.
\<close>

theorem blk_do_request_writes:
  assumes "request_at s head VIRTIO_BLK_T_OUT sector segs st" and "card_ready drv disk s"
    and "whole_sectors segs" and "unat sector + bytes_of segs div 512 < 2 ^ 32"
  shows "\<exists>s'. blk_do_request drv head s = Some (1, s') \<and>
              disk (c0_card s') = put_at (512 * unat sector) (gather (c0_mem s) segs) (disk (c0_card s)) \<and>
              c0_mem s' = (c0_mem s)(st := VIRTIO_BLK_S_OK)"
  using assms by (rule request_writes)

text \<open>
  C17. What the guest writes to the card it reads back, from any later state in which the card still
  holds it: after a write request, a read request for the same sectors puts the bytes of the
  written buffers into its own, however differently the two requests cut them into buffers.
\<close>

theorem blk_request_roundtrip:
  assumes "request_at s head VIRTIO_BLK_T_OUT sector segs st" and "card_ready drv disk s"
    and "whole_sectors segs" and "unat sector + bytes_of segs div 512 < 2 ^ 32"
    and "blk_do_request drv head s = Some (w, s1)"
    and "disk (c0_card s2) = disk (c0_card s1)" and "card_ready drv disk s2"
    and "request_at s2 head2 VIRTIO_BLK_T_IN sector segs2 st2"
    and "whole_sectors segs2" and "apart segs2" and "bytes_of segs2 = bytes_of segs"
    and "\<forall>(a, l) \<in> set segs2. st2 \<notin> region a (unat l)"
  shows "\<exists>w2 s3. blk_do_request drv head2 s2 = Some (w2, s3) \<and>
                 gather (c0_mem s3) segs2 = gather (c0_mem s) segs \<and> c0_mem s3 st2 = VIRTIO_BLK_S_OK"
proof -
  have "disk (c0_card s1) = put_at (512 * unat sector) (gather (c0_mem s) segs) (disk (c0_card s))"
    using request_writes [OF assms(1-4)] assms(5) by auto
  then have "card_bytes disk (c0_card s2) sector (bytes_of segs2) = gather (c0_mem s) segs"
    using assms(6,11) by (intro nth_equalityI) (simp_all add: put_at_def)
  with request_reads [OF assms(8,7,9,10) _ assms(12)] assms(4,11) show ?thesis by auto
qed

text \<open>
  C38. Buffers are not confined to the guest's memory: a well-formed \<open>GET_ID\<close> request writes through
  whatever address its data descriptor holds, the monitor's own memory included, since \<open>gpa()\<close> is the
  identity and nothing compares the address with the guest's window.
\<close>

theorem blk_request_not_confined:
  assumes "request_at s head VIRTIO_BLK_T_GET_ID sector [(buf, len)] st" and "len \<noteq> 0" and "st \<noteq> buf"
  shows "\<exists>s'. blk_do_request drv head s = Some (len + 1, s') \<and> c0_mem s' buf = 0x65"
proof -
  obtain s1 where "blk_segment drv VIRTIO_BLK_T_GET_ID buf len sector 0 s = (True, sector, 0 + len, s1)"
    and mem: "c0_mem s1 buf = 0x65"
    using blk_buffer_not_confined [OF assms(2), of drv buf sector 0 s] by blast
  then have "blk_segments drv VIRTIO_BLK_T_GET_ID [(buf, len)] sector 0 s = (True, len, s1)" by simp
  from request_done [OF assms(1) this] mem assms(3) show ?thesis by (metis fun_upd_apply)
qed

section \<open>Concrete requests\<close>

text \<open>The ring of \<open>Hyp_Blk\<close> with one data buffer of a sector, right before the status byte.\<close>

definition demo_io :: "u8 \<Rightarrow> (nat \<Rightarrow> u8) core0" where
  "demo_io type =
     (on_mem (\<lambda>m. m(0x48100018 := 0, 0x48100019 := 2)) (demo_ring type 2))\<lparr>c0_card := \<lambda>p. of_nat p\<rparr>"

lemma demo_io_mem:
  "c0_mem (demo_io t) = (ring_mem t 2)(0x48100018 := 0, 0x48100019 := 2)"
  by (simp add: demo_io_def)

lemma demo_io_request: "ucast t = type \<Longrightarrow> request_at (demo_io t) 0 type 0 [(0x48100a00, 512)] 0x48100c00"
  by (simp add: request_at_def Let_def chain_cons off_table_def table_region_def region_disjoint demo_io_def
      desc_pos_def gpa_def desc_addr_def desc_len_def desc_has_next_def desc_next_def desc_table_def demo_ring_def
      desc_flags_def VRING_DESC_F_NEXT_def rd64_def rd32_def rd16_def ring_mem_def ring_bytes_def ucast_byte_twice)

lemma demo_io_ready: "card_ready ram_driver (\<lambda>c. c) (demo_io t)"
  by (simp add: card_ready_def ram_driver_lawful ram_driver_reliable demo_io_def demo_ring_def)

theorem blk_do_request_reads_witness:
  "\<exists>s'. blk_do_request ram_driver 0 (demo_io 0) = Some (513, s') \<and>
        rd_bytes (c0_mem s') 0x48100a00 512 = map of_nat [0..<512] \<and> c0_mem s' 0x48100c00 = 0"
proof -
  have "request_at (demo_io 0) 0 VIRTIO_BLK_T_IN 0 [(0x48100a00, 512)] 0x48100c00"
    by (rule demo_io_request) (simp add: VIRTIO_BLK_T_IN_def)
  from blk_do_request_reads [OF this demo_io_ready] show ?thesis
    by (auto simp: region_iff demo_io_def VIRTIO_BLK_S_OK_def simp del: upt_rec_numeral)
qed

theorem blk_do_request_writes_witness:
  "\<exists>s'. blk_do_request ram_driver 0 (demo_io 1) = Some (1, s') \<and> c0_card s' 3 = 0 \<and> c0_card s' 600 = of_nat 600"
proof -
  have "request_at (demo_io 1) 0 VIRTIO_BLK_T_OUT 0 [(0x48100a00, 512)] 0x48100c00"
    by (rule demo_io_request) (simp add: VIRTIO_BLK_T_OUT_def)
  from blk_do_request_writes [OF this demo_io_ready] show ?thesis
    by (auto simp: put_at_def nth_rd_bytes demo_io_def ring_mem_def Let_def)
qed

theorem blk_request_roundtrip_witness:
  "\<exists>s1 w s3. blk_do_request ram_driver 0 (demo_io 1) = Some (1, s1) \<and>
     blk_do_request ram_driver 0 ((demo_io 0)\<lparr>c0_card := c0_card s1\<rparr>) = Some (w, s3) \<and>
     rd_bytes (c0_mem s3) 0x48100a00 512 = rd_bytes (c0_mem (demo_io 1)) 0x48100a00 512"
proof -
  have out: "request_at (demo_io 1) 0 VIRTIO_BLK_T_OUT 0 [(0x48100a00, 512)] 0x48100c00"
    by (rule demo_io_request) (simp add: VIRTIO_BLK_T_OUT_def)
  obtain s1 where s1: "blk_do_request ram_driver 0 (demo_io 1) = Some (1, s1)"
    using request_writes [OF out demo_io_ready] by auto
  have "request_at (demo_io 0) 0 VIRTIO_BLK_T_IN 0 [(0x48100a00, 512)] 0x48100c00"
    by (rule demo_io_request) (simp add: VIRTIO_BLK_T_IN_def)
  then have inp: "request_at ((demo_io 0)\<lparr>c0_card := c0_card s1\<rparr>) 0 VIRTIO_BLK_T_IN 0 [(0x48100a00, 512)] 0x48100c00"
    by (simp add: request_at_def)
  have ready: "card_ready ram_driver (\<lambda>c. c) ((demo_io 0)\<lparr>c0_card := c0_card s1\<rparr>)"
    using demo_io_ready [of 0] by (simp add: card_ready_def)
  from blk_request_roundtrip [OF out demo_io_ready _ _ s1 _ ready inp] s1 show ?thesis
    by (auto simp: region_iff simp del: upt_rec_numeral)
qed

text \<open>A \<open>GET_ID\<close> request whose buffer is in the monitor's own memory.\<close>

definition demo_stray :: "(nat \<Rightarrow> u8) core0" where
  "demo_stray = on_mem (\<lambda>m. m(0x48100012 := 0xF0, 0x48100013 := 0x4F)) (demo_ring 8 2)"

lemma demo_stray_request:
  "request_at demo_stray 0 VIRTIO_BLK_T_GET_ID 0 [(0x4FF00a00, 20)] 0x48100c00"
  by (simp add: request_at_def Let_def chain_cons off_table_def table_region_def region_disjoint demo_stray_def
      desc_pos_def gpa_def desc_addr_def desc_len_def desc_has_next_def desc_next_def desc_table_def demo_ring_def
      desc_flags_def VRING_DESC_F_NEXT_def rd64_def rd32_def rd16_def ring_mem_def ring_bytes_def
      VIRTIO_BLK_T_GET_ID_def)

theorem blk_request_not_confined_witness:
  "\<exists>s'. blk_do_request ram_driver 0 demo_stray = Some (21, s') \<and> c0_mem s' 0x4FF00a00 = 0x65"
  using blk_request_not_confined [OF demo_stray_request, of ram_driver] by simp

end
