(* ===== verification/Hyp_Load.thy ===== *)
theory Hyp_Load
  imports Hyp_State Hyp_Memory
begin

text \<open>
  \<open>main/hyp_boot.c\<close>, the first half: assembling the guest before FreeRTOS starts. The kernel and
  the device tree are copied from flash partitions into the guest's memory, the file system
  partitions stay mapped in flash and their addresses are patched into the device tree, and the
  command line built into an older kernel is rewritten in place.

  The flash (partition table, mappings and their contents) and the chip's address constants come
  from ESP-IDF and are parameters.
\<close>

section \<open>Flash\<close>

definition ESP_OK :: u32 where "ESP_OK = 0"
definition ESP_FAIL :: u32 where "ESP_FAIL = 0xFFFFFFFF"
definition ESP_ERR_INVALID_ARG :: u32 where "ESP_ERR_INVALID_ARG = 0x102"
definition ESP_ERR_INVALID_STATE :: u32 where "ESP_ERR_INVALID_STATE = 0x103"
definition ESP_ERR_NOT_FOUND :: u32 where "ESP_ERR_NOT_FOUND = 0x105"

lemmas esp_err_defs =
  ESP_OK_def ESP_FAIL_def ESP_ERR_INVALID_ARG_def ESP_ERR_INVALID_STATE_def ESP_ERR_NOT_FOUND_def

text \<open>
  A data partition by label: its size, if there is one; what mapping its first \<open>span\<close> bytes
  returns (error code and address); its bytes.
\<close>

record flash =
  esp_partition_find_first :: "string \<Rightarrow> u32 option"
  esp_partition_mmap :: "string \<Rightarrow> u32 \<Rightarrow> u32 \<times> u32"
  partition_byte :: "string \<Rightarrow> nat \<Rightarrow> u8"
  SOC_DROM_LOW :: u32
  SOC_DROM_HIGH :: u32

definition partition_bytes :: "flash \<Rightarrow> string \<Rightarrow> u32 \<Rightarrow> u8 list" where
  "partition_bytes fl label span = map (partition_byte fl label) [0..<unat span]"

abbreviation put_bytes :: "u32 \<Rightarrow> u8 list \<Rightarrow> hyp \<Rightarrow> hyp" where
  "put_bytes a bs h \<equiv> h\<lparr>hv_mem := wr_bytes a bs (hv_mem h)\<rparr>"

definition partition_cp_to_psram ::
  "flash \<Rightarrow> string \<Rightarrow> u32 \<Rightarrow> u32 \<Rightarrow> hyp \<Rightarrow> u32 \<times> hyp" where
  "partition_cp_to_psram fl label destination limit h =
     (case esp_partition_find_first fl label of
        None \<Rightarrow> (ESP_ERR_NOT_FOUND, h)
      | Some psize \<Rightarrow>
          let span = (if limit \<noteq> 0 \<and> psize > limit then limit else psize);
              err_code = fst (esp_partition_mmap fl label span)
          in if err_code \<noteq> ESP_OK then (err_code, h)
             else (ESP_OK, hw (Call ''esp_partition_munmap'' [])
                             (put_bytes destination (partition_bytes fl label span) h)))"

section \<open>File system windows\<close>

record guest_window =
  gw_label :: string
  gw_mountpoint :: string
  gw_placeholder :: "u8 list"
  gw_mapping :: u32
  gw_span :: u32

definition guest_windows :: "guest_window list" where
  "guest_windows =
     [\<lparr>gw_label = ''rootfs'', gw_mountpoint = ''/'',
       gw_placeholder = [0x49, 0xD0, 0x00, 0x00, 0x00, 0x20, 0x00, 0x00],
       gw_mapping = 0, gw_span = 0\<rparr>]"

text \<open>\<open>__builtin_clz\<close>, counting down from bit 31.\<close>

fun clz_from :: "nat \<Rightarrow> u32 \<Rightarrow> nat" where
  "clz_from 0 w = (if bit w 0 then 31 else 32)"
| "clz_from (Suc n) w = (if bit w (Suc n) then 30 - n else clz_from n w)"

definition builtin_clz :: "u32 \<Rightarrow> nat" where
  "builtin_clz w = clz_from 31 w"

definition window_map_from_flash ::
  "flash \<Rightarrow> guest_window \<Rightarrow> hyp \<Rightarrow> u32 \<times> guest_window \<times> hyp" where
  "window_map_from_flash fl w h =
     (case esp_partition_find_first fl (gw_label w) of
        None \<Rightarrow> (ESP_ERR_NOT_FOUND, w, h)
      | Some psize \<Rightarrow>
          case esp_partition_mmap fl (gw_label w) psize of
            (err, va) \<Rightarrow>
              if err \<noteq> ESP_OK then (err, w, h)
              else
                let w = w\<lparr>gw_mapping := va, gw_span := psize\<rparr>
                in if va < SOC_DROM_LOW fl \<or> va + gw_span w > SOC_DROM_HIGH fl then
                     (ESP_ERR_INVALID_STATE, w,
                      hw (Printf (Text (''E: '' @ gw_label w @ '' mapped at 0x%08x, outside the PMP-granted flash window 0x%08x-0x%08x'')
                                    [va, SOC_DROM_LOW fl, SOC_DROM_HIGH fl])) h)
                   else
                     (ESP_OK, w,
                      if gw_span w AND (gw_span w - 1) \<noteq> 0 then
                        hw (Printf (Text (''W: '' @ gw_label w @ '' is %u KB, not a power of two -- the guest sees only %u KB of it (physmap rounds down)'')
                              [gw_span w div 1024, push_bit (31 - builtin_clz (gw_span w)) 1 div 1024])) h
                      else h))"

section \<open>Patching the device tree\<close>

text \<open>A big-endian word, as the device tree stores it.\<close>

definition be32_bytes :: "u32 \<Rightarrow> u8 list" where
  "be32_bytes v = [ucast (drop_bit 24 v), ucast (drop_bit 16 v), ucast (drop_bit 8 v), ucast v]"

definition be32 :: "mem \<Rightarrow> u32 \<Rightarrow> u32" where
  "be32 m a = push_bit 24 (ucast (m a)) OR push_bit 16 (ucast (m (a + 1))) OR
              push_bit 8 (ucast (m (a + 2))) OR ucast (m (a + 3))"

text \<open>
  \<open>for (i = 0; ...; i++) if (memcmp(base + i, needle, ...) == 0)\<close>: the first of \<open>starts\<close> positions at
  which the needle is. Both loops of the source are instances: \<open>i + 8 <= total\<close> leaves
  \<open>total - 7\<close> positions, \<open>i + needle_len < span\<close> leaves \<open>span - needle_len\<close>. The bounds passed are
  far below the 32-bit range, so \<open>i\<close> does not wrap.
\<close>

function mem_find :: "mem \<Rightarrow> u32 \<Rightarrow> u8 list \<Rightarrow> nat \<Rightarrow> nat \<Rightarrow> nat option" where
  "mem_find m base needle starts i =
     (if i < starts then
        if rd_bytes m (base + of_nat i) (length needle) = needle then Some i
        else mem_find m base needle starts (Suc i)
      else None)"
  by pat_completeness auto
termination
  by (relation "measure (\<lambda>(m, base, needle, starts, i). starts - i)") auto

declare mem_find.simps [simp del]

definition patch_dtb_window :: "u8 list \<Rightarrow> u32 \<Rightarrow> u32 \<Rightarrow> hyp \<Rightarrow> bool \<times> hyp" where
  "patch_dtb_window needle address span h =
     (let totalsize = be32 (hv_mem h) (dtb_address + 4)
      in if totalsize < 8 \<or> totalsize > 0x00100000 then (False, h)
         else case mem_find (hv_mem h) dtb_address needle (unat totalsize - 7) 0 of
                None \<Rightarrow> (False, h)
              | Some i \<Rightarrow>
                  (True, put_bytes (dtb_address + of_nat i) (be32_bytes address @ be32_bytes span) h))"

section \<open>Patching the command line\<close>

partial_function (option) c_strlen :: "mem \<Rightarrow> u32 \<Rightarrow> nat \<Rightarrow> nat option" where
  "c_strlen m a n = (if m (a + of_nat n) = 0 then Some n else c_strlen m a (Suc n))"

definition cmdline_needle :: "u8 list" where
  "cmdline_needle = c_string ''root=/dev/vda rw earlycon=''"

definition cmdline_replacement :: "u8 list" where
  "cmdline_replacement =
     c_string ''earlycon=uart8250,mmio,0x10000000 console=ttyS0 keep_bootcon''"

text \<open>\<open>None\<close>: the string at the match has no end and \<open>strlen\<close> never returns.\<close>

definition patch_guest_cmdline :: "u32 \<Rightarrow> hyp \<Rightarrow> (bool \<times> hyp) option" where
  "patch_guest_cmdline span h =
     (case mem_find (hv_mem h) linux_base_address cmdline_needle
             (unat span - length cmdline_needle) 0 of
        None \<Rightarrow> Some (False, h)
      | Some i \<Rightarrow>
          map_option
            (\<lambda>original.
               if length cmdline_replacement > original then (False, h)
               else (True,
                     put_bytes (linux_base_address + of_nat i) cmdline_replacement
                       (put_bytes (linux_base_address + of_nat i) (replicate original 0) h)))
            (c_strlen (hv_mem h) (linux_base_address + of_nat i) 0))"

section \<open>Loading the guest\<close>

fun load_windows ::
  "flash \<Rightarrow> guest_window list \<Rightarrow> hyp \<Rightarrow> bool \<times> guest_window list \<times> hyp" where
  "load_windows fl [] h = (True, [], h)"
| "load_windows fl (w # ws) h =
     (case window_map_from_flash fl w h of
        (result, w, h) \<Rightarrow>
          if result \<noteq> ESP_OK then
            (case load_windows fl ws
                    (hw (Printf (Text (''W: '' @ gw_label w @ '': %s (no '' @ gw_mountpoint w @ '' mount)'')
                                   [result])) h) of
               (ok, ws, h) \<Rightarrow> (ok, w # ws, h))
          else
            case patch_dtb_window (gw_placeholder w) (gw_mapping w) (gw_span w) h of
              (found, h) \<Rightarrow>
                if \<not> found then
                  (False, w # ws,
                   hw (Printf (Text (''E: '' @ gw_label w @ '' mapped at 0x%08x but its DTB placeholder was not found -- guest would read the wrong address'')
                                 [gw_mapping w])) h)
                else
                  (case load_windows fl ws
                          (hw (Printf (Text (''I: '' @ gw_label w @ '' XIP from flash at 0x%08x (%u KB) -> '' @ gw_mountpoint w)
                                         [gw_mapping w, gw_span w div 1024])) h) of
                     (ok, ws, h) \<Rightarrow> (ok, w # ws, h)))"

definition hyp_load_guest :: "flash \<Rightarrow> hyp \<Rightarrow> (bool \<times> hyp) option" where
  "hyp_load_guest fl h =
     (case partition_cp_to_psram fl ''kernel'' linux_base_address 0 h of
        (result, h) \<Rightarrow>
          if result \<noteq> ESP_OK then Some (False, hw (Printf (Text ''E: kernel: %s'' [result])) h)
          else
            let h = hw (Printf (Text ''I: Copied Linux Image to PSRAM'' [])) h
            in case partition_cp_to_psram fl ''dtb'' dtb_address 0 h of
                 (result, h) \<Rightarrow>
                   if result \<noteq> ESP_OK then Some (False, hw (Printf (Text ''E: dtb: %s'' [result])) h)
                   else
                     let h = hw (Printf (Text ''I: Copied DTB to PSRAM'' [])) h
                     in case load_windows fl guest_windows h of
                          (ok, ws, h) \<Rightarrow>
                            if \<not> ok then Some (False, h)
                            else
                              map_option
                                (\<lambda>(patched, h).
                                   (True,
                                    if patched
                                    then hw (Printf (Text ''I: Patched guest command line'' [])) h
                                    else hw (Printf (Text ''I: Guest command line left as built'' [])) h))
                                (patch_guest_cmdline 0x00400000 h))"

section \<open>The search\<close>

abbreviation at_pos :: "mem \<Rightarrow> u32 \<Rightarrow> u8 list \<Rightarrow> nat \<Rightarrow> bool" where
  "at_pos m base needle i \<equiv> rd_bytes m (base + of_nat i) (length needle) = needle"

lemma all_from_Suc: "(\<forall>k. i \<le> k \<longrightarrow> Q k) \<longleftrightarrow> Q i \<and> (\<forall>k. Suc i \<le> k \<longrightarrow> Q k)"
  by (metis Suc_leD Suc_leI le_neq_implies_less order_refl)

lemma mem_find_None:
  "mem_find m base needle starts i = None \<longleftrightarrow>
     (\<forall>k. i \<le> k \<longrightarrow> k < starts \<longrightarrow> \<not> at_pos m base needle k)"
proof (induction m base needle starts i rule: mem_find.induct)
  case (1 m base needle starts i)
  show ?case
  proof (cases "i < starts \<and> \<not> at_pos m base needle i")
    case True
    with 1 show ?thesis by (subst mem_find.simps, subst all_from_Suc) simp
  next
    case False
    then show ?thesis by (subst mem_find.simps) auto
  qed
qed

lemma mem_find_Some:
  "mem_find m base needle starts i = Some j \<longleftrightarrow>
     i \<le> j \<and> j < starts \<and> at_pos m base needle j \<and> (\<forall>k. i \<le> k \<longrightarrow> k < j \<longrightarrow> \<not> at_pos m base needle k)"
proof (induction m base needle starts i rule: mem_find.induct)
  case (1 m base needle starts i)
  show ?case
  proof (cases "i < starts \<and> \<not> at_pos m base needle i")
    case True
    have "i \<noteq> j" if "at_pos m base needle j" using that True by blast
    then have eq: "(Suc i \<le> j \<and> at_pos m base needle j) \<longleftrightarrow> (i \<le> j \<and> at_pos m base needle j)"
      by auto
    from 1 True show ?thesis
      by (subst mem_find.simps, subst all_from_Suc) (use eq True in auto)
  next
    case False
    show ?thesis
    proof (cases "i < starts")
      case True
      with False have at: "at_pos m base needle i" by simp
      then have "j = i" if "i \<le> j" "\<forall>k. i \<le> k \<longrightarrow> k < j \<longrightarrow> \<not> at_pos m base needle k"
        using that by (metis le_neq_implies_less order_refl)
      with at True show ?thesis by (subst mem_find.simps) auto
    qed (subst mem_find.simps, auto)
  qed
qed

section \<open>Big-endian words\<close>

lemma length_be32_bytes [simp]: "length (be32_bytes v) = 4"
  by (simp add: be32_bytes_def)

lemma be32_bytes_word:
  "push_bit 24 (ucast (ucast (drop_bit 24 v) :: u8)) OR push_bit 16 (ucast (ucast (drop_bit 16 v) :: u8)) OR
   push_bit 8 (ucast (ucast (drop_bit 8 v) :: u8)) OR ucast (ucast v :: u8) = (v :: u32)" (is "?l = v")
proof (rule u32_eqI)
  fix n :: nat assume "n < 32"
  then consider "n < 8" | "8 \<le> n" "n < 16" | "16 \<le> n" "n < 24" | "24 \<le> n" "n < 32" by linarith
  then show "bit ?l n = bit v n"
    by cases (auto simp: bit_simps)
qed

lemma be32_rd: "rd_bytes m a 4 = be32_bytes v \<Longrightarrow> be32 m a = v"
  using be32_bytes_word [of v] by (simp add: numeral_eq_Suc be32_bytes_def be32_def add.assoc)

section \<open>The device tree tells the guest where its file system is\<close>

abbreviation dtb_total :: "mem \<Rightarrow> u32" where
  "dtb_total m \<equiv> be32 m (dtb_address + 4)"

text \<open>Where the pair first occurs, if the blob's size is plausible.\<close>

definition dtb_pos :: "mem \<Rightarrow> u8 list \<Rightarrow> nat option" where
  "dtb_pos m needle =
     (if dtb_total m < 8 \<or> dtb_total m > 0x00100000 then None
      else mem_find m dtb_address needle (unat (dtb_total m) - 7) 0)"

lemma patch_dtb_window_pos:
  "patch_dtb_window needle address span h =
     (case dtb_pos (hv_mem h) needle of
        None \<Rightarrow> (False, h)
      | Some i \<Rightarrow> (True, put_bytes (dtb_address + of_nat i) (be32_bytes address @ be32_bytes span) h))"
  by (simp add: patch_dtb_window_def dtb_pos_def Let_def)

text \<open>
  C28. Patching a window into the device tree rewrites exactly one \<open>reg\<close> pair: the first occurrence
  of the placeholder inside the blob's own \<open>totalsize\<close>. Afterwards the pair reads, big-endian, as
  the mapping's address and size, and no other byte of memory has changed. When the blob's size is
  implausible or the placeholder does not occur, the memory is untouched and the failure reported.
\<close>

theorem patch_dtb_window_patches:
  assumes "length needle = 8" and "patch_dtb_window needle address span h = (found, h')"
  shows "if found
    then \<exists>i. i + 8 \<le> unat (dtb_total (hv_mem h)) \<and>
             rd_bytes (hv_mem h) (dtb_address + of_nat i) 8 = needle \<and>
             (\<forall>k < i. rd_bytes (hv_mem h) (dtb_address + of_nat k) 8 \<noteq> needle) \<and>
             be32 (hv_mem h') (dtb_address + of_nat i) = address \<and>
             be32 (hv_mem h') (dtb_address + of_nat i + 4) = span \<and>
             (\<forall>x. x \<notin> region (dtb_address + of_nat i) 8 \<longrightarrow> hv_mem h' x = hv_mem h x)
    else h' = h \<and>
         (dtb_total (hv_mem h) < 8 \<or> dtb_total (hv_mem h) > 0x00100000 \<or>
          (\<forall>k. k + 8 \<le> unat (dtb_total (hv_mem h)) \<longrightarrow>
               rd_bytes (hv_mem h) (dtb_address + of_nat k) 8 \<noteq> needle))"
proof -
  let ?m = "hv_mem h" and ?t = "unat (dtb_total (hv_mem h))"
  show ?thesis
  proof (cases "dtb_pos ?m needle")
    case None
    then have "\<not> found" "h' = h"
      using assms(2) by (auto simp: patch_dtb_window_pos)
    moreover from None have "dtb_total ?m < 8 \<or> dtb_total ?m > 0x00100000 \<or>
        mem_find ?m dtb_address needle (?t - 7) 0 = None"
      by (auto simp: dtb_pos_def split: if_splits)
    moreover have "k < ?t - 7 \<longleftrightarrow> k + 8 \<le> ?t" for k by linarith
    ultimately show ?thesis by (auto simp: mem_find_None assms(1))
  next
    case (Some i)
    let ?a = "dtb_address + of_nat i" and ?bs = "be32_bytes address @ be32_bytes span"
    from Some assms(2) have found: "found" and h': "h' = put_bytes ?a ?bs h"
      by (simp_all add: patch_dtb_window_pos)
    from Some have "mem_find ?m dtb_address needle (?t - 7) 0 = Some i"
      by (auto simp: dtb_pos_def split: if_splits)
    then have i: "i < ?t - 7" "rd_bytes ?m ?a 8 = needle"
      "\<forall>k < i. rd_bytes ?m (dtb_address + of_nat k) 8 \<noteq> needle"
      by (simp_all add: mem_find_Some assms(1))
    have "rd_bytes (hv_mem h') ?a 4 = be32_bytes address"
      "rd_bytes (hv_mem h') (?a + of_nat 4) 4 = be32_bytes span"
      using rd_bytes_inside [of 0 4 ?bs ?a ?m] rd_bytes_inside [of 4 4 ?bs ?a ?m] by (simp_all add: h')
    then have "be32 (hv_mem h') ?a = address" "be32 (hv_mem h') (?a + 4) = span"
      by (simp_all add: be32_rd)
    moreover have "\<forall>x. x \<notin> region ?a 8 \<longrightarrow> hv_mem h' x = ?m x"
      by (simp add: h' wr_bytes_frame)
    ultimately show ?thesis using found i by (auto intro!: exI [of _ i])
  qed
qed

text \<open>A blob for the concrete instances: \<open>totalsize\<close> 24, the placeholder at offset 16.\<close>

definition demo_dtb :: "u8 list" where
  "demo_dtb = [0xd0, 0x0d, 0xfe, 0xed, 0, 0, 0, 24, 0, 0, 0, 0, 0, 0, 0, 0,
               0x49, 0xD0, 0x00, 0x00, 0x00, 0x20, 0x00, 0x00]"

definition rootfs_placeholder :: "u8 list" where
  "rootfs_placeholder = [0x49, 0xD0, 0x00, 0x00, 0x00, 0x20, 0x00, 0x00]"

lemma demo_dtb_total: "dtb_total (wr_bytes dtb_address demo_dtb m) = 24"
  by (simp add: be32_def demo_dtb_def dtb_address_def)

lemma demo_dtb_pos: "dtb_pos (wr_bytes dtb_address demo_dtb m) rootfs_placeholder = Some 16"
proof -
  have "rd_bytes (wr_bytes dtb_address demo_dtb m) (dtb_address + of_nat k) 8 = take 8 (drop k demo_dtb)"
    if "k \<le> 16" for k
    using that by (intro rd_bytes_inside) (simp_all add: demo_dtb_def)
  moreover have "take 8 (drop k demo_dtb) \<noteq> rootfs_placeholder" if "k < 16" for k
  proof -
    have "list_all (\<lambda>k. take 8 (drop k demo_dtb) \<noteq> rootfs_placeholder) [0..<16]" by code_simp
    with that show ?thesis by (simp add: list_all_iff)
  qed
  moreover have "take 8 (drop 16 demo_dtb) = rootfs_placeholder" "length rootfs_placeholder = 8"
    by (simp_all add: demo_dtb_def rootfs_placeholder_def)
  ultimately have "mem_find (wr_bytes dtb_address demo_dtb m) dtb_address rootfs_placeholder 17 0 = Some 16"
    by (simp add: mem_find_Some del: of_nat_numeral)
  then show ?thesis by (simp add: dtb_pos_def demo_dtb_total)
qed

theorem patch_dtb_window_patches_witness:
  "\<exists>i h'. patch_dtb_window rootfs_placeholder 0x40500000 0x400000
              (put_bytes dtb_address demo_dtb demo_hyp) = (True, h') \<and>
          be32 (hv_mem h') (dtb_address + of_nat i) = 0x40500000"
proof -
  obtain h' where h': "patch_dtb_window rootfs_placeholder 0x40500000 0x400000
      (put_bytes dtb_address demo_dtb demo_hyp) = (True, h')"
    by (simp add: patch_dtb_window_pos demo_dtb_pos)
  have "length rootfs_placeholder = 8" by (simp add: rootfs_placeholder_def)
  from patch_dtb_window_patches [OF this h'] h' show ?thesis by auto
qed

section \<open>The command line stays inside its field\<close>

lemma c_strlen_zero:
  assumes "c_strlen m a n = Some k"
  shows "m (a + of_nat k) = 0"
  using assms
  by (rule c_strlen.raw_induct [rotated, where P = "\<lambda>m a n k. m (a + of_nat k) = 0"])
     (auto split: if_splits)

text \<open>\<open>memset\<close> over a string and \<open>memcpy\<close> of a shorter one: what is then there, and what is not touched.\<close>

lemma cleared_overwrite:
  assumes "m (a + of_nat n) = 0" and "length bs \<le> n" and "n < 2 ^ 32"
  shows "rd_bytes (wr_bytes a bs (wr_bytes a (replicate n 0) m)) a (n + 1) =
         bs @ replicate (n - length bs) 0 @ [0]"
proof -
  have "drop n (rd_bytes m a (n + 1)) = [0]"
    unfolding rd_bytes_append using assms(1) by simp
  then have "rd_bytes (wr_bytes a (replicate n 0) m) a (n + 1) = replicate n 0 @ [0]"
    using rd_bytes_patch [of 0 "replicate n 0" "n + 1" a m] assms(3) by simp
  then show ?thesis
    using rd_bytes_patch [of 0 bs "n + 1" a "wr_bytes a (replicate n 0) m"] assms(2,3) by simp
qed

lemma cleared_overwrite_frame:
  assumes "length bs \<le> n" and "x \<notin> region a n"
  shows "wr_bytes a bs (wr_bytes a (replicate n 0) m) x = m x"
proof -
  from assms region_mono have "x \<notin> region a (length bs)" by blast
  with assms(2) show ?thesis by (simp add: wr_bytes_frame)
qed

lemma length_cmdline: "length cmdline_needle = 26" "length cmdline_replacement = 60"
  by (simp_all add: cmdline_needle_def cmdline_replacement_def c_string_def)

text \<open>
  C29. Rewriting the command line never leaves its field. If the search finds the old text, the
  string there is replaced only when the new one fits into its length; then exactly that string's
  bytes change: they become the new text followed by zeros, and the terminating zero behind them is
  still there. If the old text is absent or too short, memory is untouched.
\<close>

theorem patch_guest_cmdline_in_place:
  assumes "patch_guest_cmdline span h = Some (patched, h')"
  shows "if patched
    then \<exists>i original.
           i + 26 < unat span \<and> rd_bytes (hv_mem h) (linux_base_address + of_nat i) 26 = cmdline_needle \<and>
           c_strlen (hv_mem h) (linux_base_address + of_nat i) 0 = Some original \<and> 60 \<le> original \<and>
           (original < 2 ^ 32 \<longrightarrow>
             rd_bytes (hv_mem h') (linux_base_address + of_nat i) (original + 1) =
               cmdline_replacement @ replicate (original - 60) 0 @ [0] \<and>
             (\<forall>x. x \<notin> region (linux_base_address + of_nat i) original \<longrightarrow> hv_mem h' x = hv_mem h x))
    else h' = h"
proof (cases "patched")
  case False
  with assms show ?thesis
    by (auto simp: patch_guest_cmdline_def split: option.splits if_splits)
next
  case True
  let ?m = "hv_mem h"
  from assms True obtain i original where find: "mem_find ?m linux_base_address cmdline_needle (unat span - 26) 0 = Some i"
    and len: "c_strlen ?m (linux_base_address + of_nat i) 0 = Some original"
    and fits: "60 \<le> original"
    and h': "h' = put_bytes (linux_base_address + of_nat i) cmdline_replacement
                    (put_bytes (linux_base_address + of_nat i) (replicate original 0) h)"
    by (auto simp: patch_guest_cmdline_def length_cmdline not_less split: option.splits if_splits)
  let ?a = "linux_base_address + of_nat i"
  have m': "hv_mem h' = wr_bytes ?a cmdline_replacement (wr_bytes ?a (replicate original 0) ?m)"
    by (simp add: h')
  have fits': "length cmdline_replacement \<le> original" using fits by (simp add: length_cmdline)
  have frame: "hv_mem h' x = ?m x" if "x \<notin> region ?a original" for x
    using cleared_overwrite_frame [OF fits' that] by (simp add: m')
  have "rd_bytes (hv_mem h') ?a (original + 1) = cmdline_replacement @ replicate (original - 60) 0 @ [0]"
    if small: "original < 2 ^ 32"
    using cleared_overwrite [where m = ?m and a = ?a, OF c_strlen_zero [OF len] fits' small]
    by (simp add: m' length_cmdline)
  moreover from find have "i + 26 < unat span"
    "rd_bytes (hv_mem h) (linux_base_address + of_nat i) 26 = cmdline_needle"
    by (auto simp: mem_find_Some length_cmdline)
  ultimately show ?thesis
    using len fits frame unfolding if_P [OF True] by (intro exI [of _ i] exI [of _ original]) blast
qed

text \<open>A command line for the concrete instances: the old text padded to 70 characters.\<close>

definition demo_cmdline :: "u8 list" where
  "demo_cmdline = cmdline_needle @ replicate 44 0x78 @ [0]"

lemma c_strlen_field:
  assumes "\<And>k. k < n \<Longrightarrow> m (a + of_nat (i + k)) \<noteq> 0" and "m (a + of_nat (i + n)) = 0"
  shows "c_strlen m a i = Some (i + n)"
  using assms
proof (induction n arbitrary: i)
  case 0
  then show ?case by (subst c_strlen.simps) simp
next
  case (Suc n)
  have "c_strlen m a (Suc i) = Some (Suc i + n)"
    using Suc.prems(1) [of "Suc _"] Suc.prems(2) by (intro Suc.IH) simp_all
  with Suc.prems(1) [of 0] show ?case by (subst c_strlen.simps) simp
qed

theorem patch_guest_cmdline_in_place_witness:
  "\<exists>i original h'.
     patch_guest_cmdline 0x400000 (put_bytes linux_base_address demo_cmdline demo_hyp) = Some (True, h') \<and>
     60 \<le> original \<and>
     c_strlen (hv_mem (put_bytes linux_base_address demo_cmdline demo_hyp))
       (linux_base_address + of_nat i) 0 = Some original"
proof -
  let ?h = "put_bytes linux_base_address demo_cmdline demo_hyp"
  have len: "length demo_cmdline = 71" by (simp add: demo_cmdline_def length_cmdline)
  have at: "hv_mem ?h (linux_base_address + of_nat k) = demo_cmdline ! k" if "k < 71" for k
    using wr_bytes_inside [of demo_cmdline k linux_base_address] that len by simp
  have "rd_bytes (hv_mem ?h) linux_base_address 26 = cmdline_needle"
    using rd_bytes_inside [of 0 26 demo_cmdline linux_base_address] len
    by (simp add: demo_cmdline_def length_cmdline)
  then have find: "mem_find (hv_mem ?h) linux_base_address cmdline_needle (0x400000 - 26) 0 = Some 0"
    by (simp add: mem_find_Some length_cmdline)
  have nz: "list_all (\<lambda>k. demo_cmdline ! k \<noteq> 0) [0..<70]" "demo_cmdline ! 70 = 0" by code_simp+
  have "c_strlen (hv_mem ?h) linux_base_address 0 = Some (0 + 70)"
  proof (rule c_strlen_field)
    show "hv_mem ?h (linux_base_address + of_nat (0 + k)) \<noteq> 0" if "k < 70" for k
      using at [of k] nz(1) that by (simp add: list_all_iff)
    show "hv_mem ?h (linux_base_address + of_nat (0 + 70)) = 0"
      using at [of 70] nz(2) by simp
  qed
  then have strlen: "c_strlen (hv_mem ?h) (linux_base_address + of_nat 0) 0 = Some 70" by simp
  obtain h' where patch: "patch_guest_cmdline 0x400000 ?h = Some (True, h')"
    using find strlen by (simp add: patch_guest_cmdline_def length_cmdline)
  from patch_guest_cmdline_in_place [OF this] this show ?thesis by auto
qed

section \<open>When the guest is loaded\<close>

text \<open>Whether a partition is there and maps, and whether it maps into the flash window.\<close>

definition partition_maps :: "flash \<Rightarrow> string \<Rightarrow> bool" where
  "partition_maps fl label =
     (case esp_partition_find_first fl label of
        None \<Rightarrow> False | Some psize \<Rightarrow> fst (esp_partition_mmap fl label psize) = ESP_OK)"

definition window_usable :: "flash \<Rightarrow> string \<Rightarrow> bool" where
  "window_usable fl label =
     (case esp_partition_find_first fl label of
        None \<Rightarrow> False
      | Some psize \<Rightarrow>
          let va = snd (esp_partition_mmap fl label psize)
          in fst (esp_partition_mmap fl label psize) = ESP_OK \<and>
             SOC_DROM_LOW fl \<le> va \<and> va + psize \<le> SOC_DROM_HIGH fl)"

definition image_bytes :: "flash \<Rightarrow> string \<Rightarrow> u8 list" where
  "image_bytes fl label =
     (case esp_partition_find_first fl label of
        None \<Rightarrow> [] | Some psize \<Rightarrow> partition_bytes fl label psize)"

text \<open>Memory once kernel and device tree have been copied.\<close>

definition copied_mem :: "flash \<Rightarrow> mem \<Rightarrow> mem" where
  "copied_mem fl m =
     wr_bytes dtb_address (image_bytes fl ''dtb'')
       (wr_bytes linux_base_address (image_bytes fl ''kernel'') m)"

text \<open>
  The address and size of a mapped partition as the device tree takes them, and memory once they
  have been put where its placeholder first occurs.
\<close>

definition window_pair :: "flash \<Rightarrow> string \<Rightarrow> u8 list" where
  "window_pair fl label =
     (case esp_partition_find_first fl label of
        None \<Rightarrow> []
      | Some psize \<Rightarrow> be32_bytes (snd (esp_partition_mmap fl label psize)) @ be32_bytes psize)"

definition windowed_mem :: "flash \<Rightarrow> mem \<Rightarrow> mem" where
  "windowed_mem fl m =
     (case dtb_pos m rootfs_placeholder of
        Some i \<Rightarrow> if window_usable fl ''rootfs''
                 then wr_bytes (dtb_address + of_nat i) (window_pair fl ''rootfs'') m else m
      | None \<Rightarrow> m)"

lemma partition_cp_whole:
  assumes "partition_cp_to_psram fl label a 0 h = (err, h')"
  shows "(err = ESP_OK) = partition_maps fl label"
    "hv_mem h' = (if partition_maps fl label then wr_bytes a (image_bytes fl label) (hv_mem h) else hv_mem h)"
  using assms
  by (auto simp: partition_cp_to_psram_def partition_maps_def image_bytes_def Let_def esp_err_defs
      split: option.splits if_splits)

lemma window_map_usable:
  assumes "window_map_from_flash fl w h = (err, w', h')"
  shows "(err = ESP_OK) = window_usable fl (gw_label w)" "hv_mem h' = hv_mem h"
    "gw_placeholder w' = gw_placeholder w" "gw_label w' = gw_label w"
    "err = ESP_OK \<Longrightarrow> be32_bytes (gw_mapping w') @ be32_bytes (gw_span w') = window_pair fl (gw_label w)"
  using assms
  by (auto simp: window_map_from_flash_def window_usable_def window_pair_def Let_def esp_err_defs not_less
      split: option.splits if_splits prod.splits)

text \<open>The command line is left alone, or its field is cleared and overwritten.\<close>

lemma patch_cmdline_mem:
  assumes "patch_guest_cmdline 0x00400000 h = Some (patched, h')"
  shows "case mem_find (hv_mem h) linux_base_address cmdline_needle (0x00400000 - 26) 0 of
      None \<Rightarrow> hv_mem h' = hv_mem h
    | Some i \<Rightarrow> \<exists>n. c_strlen (hv_mem h) (linux_base_address + of_nat i) 0 = Some n \<and>
        hv_mem h' = (if n < 60 then hv_mem h
          else wr_bytes (linux_base_address + of_nat i) cmdline_replacement
                 (wr_bytes (linux_base_address + of_nat i) (replicate n 0) (hv_mem h)))"
proof -
  have span: "unat (0x00400000 :: u32) - length cmdline_needle = 0x00400000 - 26" by (simp add: length_cmdline)
  show ?thesis
  proof (cases "mem_find (hv_mem h) linux_base_address cmdline_needle (0x00400000 - 26) 0")
    case None
    with assms show ?thesis unfolding patch_guest_cmdline_def span by simp
  next
    case (Some i)
    with assms obtain n where "c_strlen (hv_mem h) (linux_base_address + of_nat i) 0 = Some n"
      unfolding patch_guest_cmdline_def span by auto
    with Some assms show ?thesis
      unfolding patch_guest_cmdline_def span by (auto simp: length_cmdline split: if_splits)
  qed
qed

text \<open>The one window there is.\<close>

lemma load_rootfs:
  assumes "load_windows fl guest_windows h = (ok, ws, h')"
  shows "ok = (if window_usable fl ''rootfs'' then dtb_pos (hv_mem h) rootfs_placeholder \<noteq> None else True)"
    "hv_mem h' = windowed_mem fl (hv_mem h)"
proof -
  obtain w0 where gw: "guest_windows = [w0]" "gw_label w0 = ''rootfs''" "gw_placeholder w0 = rootfs_placeholder"
    by (simp add: guest_windows_def rootfs_placeholder_def)
  obtain e w h1 where m: "window_map_from_flash fl w0 h = (e, w, h1)"
    by (metis prod_cases3)
  note m' = window_map_usable [OF m, unfolded gw(2,3)]
  note load = assms [unfolded gw(1) load_windows.simps m prod.case]
  have "ok = (if window_usable fl ''rootfs'' then dtb_pos (hv_mem h) rootfs_placeholder \<noteq> None else True) \<and>
    hv_mem h' = windowed_mem fl (hv_mem h)"
  proof (cases "e = ESP_OK")
    case False
    with load m' show ?thesis by (auto simp: windowed_mem_def split: option.split)
  next
    case True
    with load m' show ?thesis
      by (cases "dtb_pos (hv_mem h) rootfs_placeholder")
         (auto simp: patch_dtb_window_pos windowed_mem_def)
  qed
  then show "ok = (if window_usable fl ''rootfs'' then dtb_pos (hv_mem h) rootfs_placeholder \<noteq> None else True)"
    "hv_mem h' = windowed_mem fl (hv_mem h)" by simp_all
qed

lemma load_guest_decides:
  assumes "hyp_load_guest fl h = Some (ok, h')"
  shows "ok = (partition_maps fl ''kernel'' \<and> partition_maps fl ''dtb'' \<and>
               (if window_usable fl ''rootfs''
                then dtb_pos (copied_mem fl (hv_mem h)) rootfs_placeholder \<noteq> None else True)) \<and>
    (if \<not> partition_maps fl ''kernel'' then hv_mem h' = hv_mem h
     else if \<not> partition_maps fl ''dtb''
       then hv_mem h' = wr_bytes linux_base_address (image_bytes fl ''kernel'') (hv_mem h)
     else if \<not> ok then hv_mem h' = copied_mem fl (hv_mem h)
     else let m = windowed_mem fl (copied_mem fl (hv_mem h)) in
       case mem_find m linux_base_address cmdline_needle (0x00400000 - 26) 0 of
         None \<Rightarrow> hv_mem h' = m
       | Some i \<Rightarrow> \<exists>n. c_strlen m (linux_base_address + of_nat i) 0 = Some n \<and>
           hv_mem h' = (if n < 60 then m
             else wr_bytes (linux_base_address + of_nat i) cmdline_replacement
                    (wr_bytes (linux_base_address + of_nat i) (replicate n 0) m)))"
proof -
  obtain e1 h1 where k: "partition_cp_to_psram fl ''kernel'' linux_base_address 0 h = (e1, h1)" by fastforce
  note k' = partition_cp_whole [OF k]
  let ?h1 = "hw (Printf (Text ''I: Copied Linux Image to PSRAM'' [])) h1"
  obtain e2 h2 where d: "partition_cp_to_psram fl ''dtb'' dtb_address 0 ?h1 = (e2, h2)" by fastforce
  note d' = partition_cp_whole [OF d]
  let ?h2 = "hw (Printf (Text ''I: Copied DTB to PSRAM'' [])) h2"
  obtain ok4 ws h4 where l: "load_windows fl guest_windows ?h2 = (ok4, ws, h4)"
    by (metis prod_cases3)
  have l': "ok4 = (if window_usable fl ''rootfs'' then dtb_pos (hv_mem h2) rootfs_placeholder \<noteq> None else True)"
    "hv_mem h4 = windowed_mem fl (hv_mem h2)"
    using load_rootfs [OF l] by simp_all
  show ?thesis
  proof (cases "partition_maps fl ''kernel''")
    case False
    with assms k k' show ?thesis by (auto simp: hyp_load_guest_def)
  next
    case kernel: True
    show ?thesis
    proof (cases "partition_maps fl ''dtb''")
      case False
      with assms k k' d d' kernel show ?thesis by (auto simp: hyp_load_guest_def Let_def)
    next
      case dtb: True
      have copied: "hv_mem h2 = copied_mem fl (hv_mem h)"
        using kernel dtb k'(2) d'(2) by (simp add: copied_mem_def)
      have load: "hyp_load_guest fl h =
          (if \<not> ok4 then Some (False, h4)
           else map_option (\<lambda>(patched, h). (True,
                  if patched then hw (Printf (Text ''I: Patched guest command line'' [])) h
                  else hw (Printf (Text ''I: Guest command line left as built'' [])) h))
                (patch_guest_cmdline 0x00400000 h4))"
        using kernel dtb k'(1) d'(1) by (simp add: hyp_load_guest_def Let_def k d l)
      show ?thesis
      proof (cases ok4)
        case False
        with assms load have "ok = ok4" "h' = h4" by simp_all
        moreover from False l'(1) have "window_usable fl ''rootfs''" "dtb_pos (hv_mem h2) rootfs_placeholder = None"
          by (auto split: if_splits)
        ultimately show ?thesis
          using kernel dtb l' copied False by (simp add: windowed_mem_def)
      next
        case True
        with assms load obtain patched h5 where patch: "patch_guest_cmdline 0x00400000 h4 = Some (patched, h5)"
          and ok: "ok" and h': "hv_mem h' = hv_mem h5" by (auto split: if_splits)
        have m: "windowed_mem fl (copied_mem fl (hv_mem h)) = hv_mem h4" using l'(2) copied by simp
        show ?thesis
          unfolding m Let_def h' using patch_cmdline_mem [OF patch] ok kernel dtb True l'(1) copied by (auto split: if_splits)
      qed
    qed
  qed
qed

text \<open>
  C27. What it takes to load the guest, and what is then in memory. When \<open>hyp_load_guest\<close> returns, it
  reports success exactly if the kernel and the device tree partitions map and, should the root file
  system map into the flash window, its placeholder occurs in the copied device tree. A missing kernel
  leaves memory untouched; a missing device tree leaves exactly the kernel copied; a placeholder that is
  not found leaves exactly kernel and device tree copied. On success memory holds the kernel and the
  device tree, with the address and size of a usable root file system at the placeholder's first
  occurrence (a missing or unusable one is not fatal and patches nothing), and the built-in command
  line rewritten in its field if its old text occurs in the first 4 MB and the field is long enough;
  nothing else has changed.
\<close>

theorem hyp_load_guest_decides:
  assumes "hyp_load_guest fl h = Some (ok, h')"
  shows "ok = (partition_maps fl ''kernel'' \<and> partition_maps fl ''dtb'' \<and>
               (if window_usable fl ''rootfs''
                then dtb_pos (copied_mem fl (hv_mem h)) rootfs_placeholder \<noteq> None else True)) \<and>
    (if \<not> partition_maps fl ''kernel'' then hv_mem h' = hv_mem h
     else if \<not> partition_maps fl ''dtb''
       then hv_mem h' = wr_bytes linux_base_address (image_bytes fl ''kernel'') (hv_mem h)
     else if \<not> ok then hv_mem h' = copied_mem fl (hv_mem h)
     else let m = windowed_mem fl (copied_mem fl (hv_mem h)) in
       case mem_find m linux_base_address cmdline_needle (0x00400000 - 26) 0 of
         None \<Rightarrow> hv_mem h' = m
       | Some i \<Rightarrow> \<exists>n. c_strlen m (linux_base_address + of_nat i) 0 = Some n \<and>
           hv_mem h' = (if n < 60 then m
             else wr_bytes (linux_base_address + of_nat i) cmdline_replacement
                    (wr_bytes (linux_base_address + of_nat i) (replicate n 0) m)))"
  using assms by (rule load_guest_decides)

text \<open>A flash for the concrete instances: a blank 16-byte kernel, the blob above, no root file system.\<close>

definition demo_flash :: flash where
  "demo_flash = \<lparr>
     esp_partition_find_first =
       (\<lambda>l. if l = ''kernel'' then Some 16 else if l = ''dtb'' then Some 24 else None),
     esp_partition_mmap = (\<lambda>l n. (0, 0x40200000)),
     partition_byte = (\<lambda>l k. if l = ''dtb'' then demo_dtb ! k else 0),
     SOC_DROM_LOW = 0x40000000, SOC_DROM_HIGH = 0x44000000\<rparr>"

lemma no_cmdline:
  assumes "\<And>k. k < 0x400000 \<Longrightarrow> hv_mem h (linux_base_address + of_nat k) = 0"
  shows "patch_guest_cmdline 0x400000 h = Some (False, h)"
proof -
  have "mem_find (hv_mem h) linux_base_address cmdline_needle (0x400000 - 26) 0 = None"
    unfolding mem_find_None
  proof (intro allI impI)
    fix k :: nat assume "k < 0x400000 - 26"
    then have "hd (rd_bytes (hv_mem h) (linux_base_address + of_nat k) 26) = 0"
      using assms [of k] rd_bytes.simps(2) [of "hv_mem h" "linux_base_address + of_nat k" 25] by simp
    moreover have "hd cmdline_needle = 0x72" by (simp add: cmdline_needle_def c_string_def)
    ultimately show "\<not> at_pos (hv_mem h) linux_base_address cmdline_needle k"
      by (auto simp: length_cmdline)
  qed
  then show ?thesis by (simp add: patch_guest_cmdline_def length_cmdline)
qed

lemma wr_zeros [simp]: "wr_bytes a (replicate n 0) (\<lambda>_. 0) = (\<lambda>_. 0)"
  by (induction n arbitrary: a) (simp_all add: fun_upd_idem)

lemma demo_copied_zero:
  assumes "k < 0x400000"
  shows "copied_mem demo_flash (\<lambda>_. 0) (linux_base_address + of_nat k) = 0"
proof -
  let ?x = "linux_base_address + of_nat k"
  have len: "length (image_bytes demo_flash ''dtb'') = 24"
    and kernel: "image_bytes demo_flash ''kernel'' = replicate 16 0"
    by (simp_all add: image_bytes_def partition_bytes_def demo_flash_def map_replicate_const)
  have "region linux_base_address 0x400000 \<inter> region dtb_address 24 = {}"
    by (rule region_disjoint) (simp_all add: linux_base_address_def dtb_address_def)
  moreover have "?x \<in> region linux_base_address 0x400000" using assms by (rule regionI)
  ultimately have "?x \<notin> region dtb_address 24" by blast
  then show ?thesis by (simp add: copied_mem_def wr_bytes_frame len kernel)
qed

lemma demo_load:
  assumes "hv_mem h = (\<lambda>_. 0)"
  shows "\<exists>h'. hyp_load_guest demo_flash h = Some (True, h')"
proof -
  obtain e1 h1 where k: "partition_cp_to_psram demo_flash ''kernel'' linux_base_address 0 h = (e1, h1)"
    by fastforce
  let ?h1 = "hw (Printf (Text ''I: Copied Linux Image to PSRAM'' [])) h1"
  obtain e2 h2 where d: "partition_cp_to_psram demo_flash ''dtb'' dtb_address 0 ?h1 = (e2, h2)"
    by fastforce
  have maps: "partition_maps demo_flash ''kernel''" "partition_maps demo_flash ''dtb''"
    "\<not> window_usable demo_flash ''rootfs''"
    by (simp_all add: partition_maps_def window_usable_def demo_flash_def ESP_OK_def)
  with partition_cp_whole [OF k] partition_cp_whole [OF d] assms
  have ok: "e1 = ESP_OK" "e2 = ESP_OK" and mem: "hv_mem h2 = copied_mem demo_flash (\<lambda>_. 0)"
    by (simp_all add: copied_mem_def)
  have win: "load_windows demo_flash guest_windows h = (True, guest_windows, hw (Printf (Text ''W: rootfs: %s (no / mount)'' [ESP_ERR_NOT_FOUND])) h)" for h
    by (simp add: guest_windows_def window_map_from_flash_def demo_flash_def esp_err_defs)
  have "patch_guest_cmdline 0x400000 h = Some (False, h)" if "hv_mem h = hv_mem h2" for h
    by (rule no_cmdline) (simp add: that mem demo_copied_zero)
  with k d ok win have "hyp_load_guest demo_flash h \<noteq> None"
    by (simp add: hyp_load_guest_def Let_def)
  then obtain ok h' where r: "hyp_load_guest demo_flash h = Some (ok, h')" by auto
  with load_guest_decides [OF r] maps show ?thesis by simp
qed

theorem hyp_load_guest_decides_witness:
  "\<exists>h'. hyp_load_guest demo_flash demo_hyp = Some (True, h') \<and> partition_maps demo_flash ''kernel''"
proof -
  have "hv_mem demo_hyp = (\<lambda>_. 0)" by (simp add: demo_hyp_def reset_hyp_def)
  then obtain h' where r: "hyp_load_guest demo_flash demo_hyp = Some (True, h')"
    using demo_load by blast
  from hyp_load_guest_decides [OF r] r show ?thesis by simp
qed

end
