(* ===== verification/Hyp_Boot.thy ===== *)
theory Hyp_Boot
  imports Hyp_Load
begin

text \<open>
  \<open>main/hyp_boot.c\<close>, the second half: what core 1 does between being diverted out of FreeRTOS and
  the \<open>mret\<close> into the guest (memory protection, host interrupts, the jump), and the two link-time
  wraps that lead there. The chip's constants and what its registers read are parameters; every
  write to the hardware is a call in the output.
\<close>

section \<open>The chip\<close>

record soc =
  ETS_MAX_INTR_SOURCE :: nat
  ETS_INVALID_INUM :: u32
  ETS_SYSTIMER_TARGET1_INTR_SOURCE :: u32
  ETS_UART0_INTR_SOURCE :: u32
  RVHAL_INTR_ENABLE_THRESH_CLIC :: u32
  UART_LL_INTR_MASK :: u32
  UART_INTR_RXFIFO_FULL :: u32
  UART_INTR_RXFIFO_TOUT :: u32
  UART_INTR_RXFIFO_OVF :: u32
  INTR_TYPE_LEVEL :: u32

text \<open>
  What core 1 reads while it comes up: its number, the \<open>volatile\<close> flag \<open>guest_image_ready\<close> at each
  look, the PMP entry's configuration before and after it is written, the bytes in the UART's
  receive FIFO, and what \<open>mstatus\<close> holds when the guest is entered.
\<close>

record core1_env =
  ev_core_id :: u32
  ev_image_ready :: "bool stream"
  ev_pmp_cfg :: u8
  ev_pmp_readback :: u8
  ev_rxfifo :: "u8 list"
  ev_mstatus :: u32

definition HYP_INT_PRIO :: u32 where "HYP_INT_PRIO = 4"
definition HYP_SYSTIMER_COUNTER :: u32 where "HYP_SYSTIMER_COUNTER = 0"
definition HYP_SYSTIMER_ALARM :: u32 where "HYP_SYSTIMER_ALARM = 1"

section \<open>Memory protection\<close>

definition PMP_R :: u8 where "PMP_R = 1"
definition PMP_W :: u8 where "PMP_W = 2"
definition PMP_X :: u8 where "PMP_X = 4"
definition PMP_NAPOT :: u8 where "PMP_NAPOT = 0x18"
definition PMP_L :: u8 where "PMP_L = 0x80"
definition pmp_entery :: u32 where "pmp_entery = 5"

lemmas pmp_defs = PMP_R_def PMP_W_def PMP_X_def PMP_NAPOT_def PMP_L_def

text \<open>\<open>base | ((size - 1) >> 1)\<close>; the macro stores it shifted right by two, as \<open>pmpaddr\<close> holds it.\<close>

definition pmp_napot_addr :: "u32 \<Rightarrow> u32 \<Rightarrow> u32" where
  "pmp_napot_addr base size1 = base OR drop_bit 1 (size1 - 1)"

definition pmp_rwx_cfg :: u8 where
  "pmp_rwx_cfg = PMP_NAPOT OR PMP_R OR PMP_W OR PMP_X"

definition pmp_set_rwx_region :: "core1_env \<Rightarrow> u32 \<Rightarrow> u32 \<Rightarrow> hyp \<Rightarrow> u32 \<times> hyp" where
  "pmp_set_rwx_region ev base size1 h =
     (if size1 < 8 \<or> size1 AND (size1 - 1) \<noteq> 0 \<or> base AND (size1 - 1) \<noteq> 0 then
        (ESP_ERR_INVALID_ARG, h)
      else if ev_pmp_cfg ev AND PMP_L \<noteq> 0 then (ESP_ERR_INVALID_STATE, h)
      else
        let h = hw (Call ''PMP_RESET_AND_ENTRY_SET''
                      [pmp_entery, pmp_napot_addr base size1, ucast pmp_rwx_cfg]) h
        in if ev_pmp_readback ev \<noteq> pmp_rwx_cfg then (ESP_FAIL, h) else (ESP_OK, h))"

section \<open>Host interrupts\<close>

abbreviation hw_all :: "hwcall list \<Rightarrow> hyp \<Rightarrow> hyp" where
  "hw_all cs h \<equiv> fold hw cs h"

definition hyp_clic_sanitize :: "soc \<Rightarrow> u32 \<Rightarrow> hyp \<Rightarrow> hyp" where
  "hyp_clic_sanitize c core_id h =
     hw_all (concat (map (\<lambda>i. [Call ''ESP_INTR_DISABLE'' [of_nat i],
                              Call ''esprv_int_set_vectored'' [of_nat i, 0]]) [0..<32]))
       (hw_all (map (\<lambda>src. Call ''esp_rom_route_intr_matrix'' [core_id, of_nat src, ETS_INVALID_INUM c])
                  [0..<ETS_MAX_INTR_SOURCE c]) h)"

definition hyp_setup_interrupts :: "soc \<Rightarrow> core1_env \<Rightarrow> u32 \<Rightarrow> hyp \<Rightarrow> hyp" where
  "hyp_setup_interrupts c ev core_id h =
     (let h = hyp_clic_sanitize c core_id h;
          h = hw (Call ''rv_utils_restore_intlevel_regval'' [RVHAL_INTR_ENABLE_THRESH_CLIC c]) h;
          h = hw_all [Call ''systimer_ll_enable_clock'' [1],
                      Call ''systimer_ll_enable_counter'' [HYP_SYSTIMER_COUNTER, 1],
                      Call ''systimer_ll_counter_can_stall_by_cpu'' [HYP_SYSTIMER_COUNTER, 0, 0],
                      Call ''systimer_ll_counter_can_stall_by_cpu'' [HYP_SYSTIMER_COUNTER, 1, 0],
                      Call ''systimer_ll_enable_alarm'' [HYP_SYSTIMER_ALARM, 0],
                      Call ''systimer_ll_clear_alarm_int'' [HYP_SYSTIMER_ALARM]] h;
          h = hw_all [Call ''uart_ll_disable_intr_mask'' [UART_LL_INTR_MASK c],
                      Call ''uart_ll_clr_intsts_mask'' [UART_LL_INTR_MASK c]] h;
          h = hw_all (map (\<lambda>b. Call ''uart_ll_read_rxfifo'' [ucast b]) (ev_rxfifo ev)) h;
          h = hw_all [Call ''uart_ll_set_rxfifo_full_thr'' [1], Call ''uart_ll_set_rx_tout'' [10]] h;
          h = hw_all [Call ''esprv_int_set_type'' [HYP_INUM_TIMER, INTR_TYPE_LEVEL c],
                      Call ''esprv_int_set_priority'' [HYP_INUM_TIMER, HYP_INT_PRIO],
                      Call ''esprv_int_set_vectored'' [HYP_INUM_TIMER, 0],
                      Call ''esprv_int_set_type'' [HYP_INUM_UART, INTR_TYPE_LEVEL c],
                      Call ''esprv_int_set_priority'' [HYP_INUM_UART, HYP_INT_PRIO],
                      Call ''esprv_int_set_vectored'' [HYP_INUM_UART, 0],
                      Call ''esp_rom_route_intr_matrix''
                        [core_id, ETS_SYSTIMER_TARGET1_INTR_SOURCE c, HYP_INUM_TIMER],
                      Call ''esp_rom_route_intr_matrix''
                        [core_id, ETS_UART0_INTR_SOURCE c, HYP_INUM_UART],
                      Call ''ESP_INTR_ENABLE'' [HYP_INUM_TIMER],
                      Call ''ESP_INTR_ENABLE'' [HYP_INUM_UART],
                      Call ''uart_ll_ena_intr_mask''
                        [UART_INTR_RXFIFO_FULL c OR UART_INTR_RXFIFO_TOUT c OR UART_INTR_RXFIFO_OVF c]] h
      in h)"

section \<open>Starting the guest\<close>

text \<open>
  The processor right after the \<open>mret\<close> of \<open>linux_start\<close>: it continues at \<open>mepc\<close> with the privilege
  that the two bits of \<open>mstatus.MPP\<close> name.
\<close>

record guest_start =
  gs_pc :: u32
  gs_a0 :: u32
  gs_a1 :: u32
  gs_priv :: u32

definition linux_start :: "core1_env \<Rightarrow> hyp \<Rightarrow> hyp \<times> guest_start" where
  "linux_start ev h =
     (let mstatus = ev_mstatus ev AND NOT (push_bit 11 3);
          h = hw (Call ''csrc mstatus'' [push_bit 11 3]) h;
          mepc = linux_base_address;
          h = hw (Call ''csrw mepc'' [mepc]) h;
          a0 = 0;
          a1 = dtb_address;
          h = hw (Call ''mret'' []) h
      in (h, \<lparr>gs_pc = mepc, gs_a0 = a0, gs_a1 = a1, gs_priv = take_bit 2 (drop_bit 11 mstatus)\<rparr>))"

text \<open>\<open>while (!guest_image_ready) { }\<close>\<close>

partial_function (option) wait_image :: "bool stream \<Rightarrow> unit option" where
  "wait_image ready = (if shd ready then Some () else wait_image (stl ready))"

text \<open>
  \<open>None\<close>: core 1 waits for the image for ever. No \<open>guest_start\<close>: it parks in \<open>while (1) { }\<close> after
  reporting a PMP failure.
\<close>

definition hyp_guest_core_entry ::
  "soc \<Rightarrow> core1_env \<Rightarrow> hyp \<Rightarrow> (hyp \<times> guest_start option) option" where
  "hyp_guest_core_entry c ev h =
     (let h = hw (Call ''port_uxCoreStartupDone'' [ev_core_id ev, 1]) h
      in case wait_image (ev_image_ready ev) of
           None \<Rightarrow> None
         | Some _ \<Rightarrow>
             let h = hw (Call ''csrc mstatus'' [MSTATUS_MIE]) h;
                 core_id = ev_core_id ev
             in case pmp_set_rwx_region ev linux_base_address linux_size h of
                  (result, h) \<Rightarrow>
                    if result \<noteq> ESP_OK then
                      Some (hw (Printf (Text ''E: pmp: %s'' [result])) h, None)
                    else
                      let h = hw (Printf (Text ''I: Core %u: PMP RWX on guest window'' [core_id])) h;
                          h = hw (Call ''csrw mscratch, hyp_stack'' []) h;
                          h = hw (Call ''esp_cpu_intr_set_ivt_addr'' []) h;
                          h = hyp_setup_interrupts c ev core_id h;
                          h = hw (Printf (Text ''I: Core %u: interrupts armed (timer=%u uart=%u)''
                                            [core_id, HYP_INUM_TIMER, HYP_INUM_UART])) h;
                          h = h\<lparr>hv_running := True\<rparr>;
                          h = hw (Printf (Text ''W: Starting Linux on core %u'' [core_id])) h
                      in Some (case linux_start ev h of (h, g) \<Rightarrow> (h, Some g)))"

section \<open>The wraps\<close>

definition wrap_esp_startup_start_app :: "flash \<Rightarrow> hyp \<Rightarrow> (bool \<times> hyp) option" where
  "wrap_esp_startup_start_app fl h =
     map_option (\<lambda>(guest_loaded, h).
                   (guest_loaded, hw (Call ''__real_esp_startup_start_app'' []) h))
       (hyp_load_guest fl h)"

datatype scheduler_start = Guest_core "guest_start option" | Real_scheduler

definition wrap_xPortStartScheduler ::
  "soc \<Rightarrow> core1_env \<Rightarrow> hyp \<Rightarrow> (hyp \<times> scheduler_start) option" where
  "wrap_xPortStartScheduler c ev h =
     (if ev_core_id ev \<noteq> 0 then
        map_option (\<lambda>(h, g). (h, Guest_core g))
          (hyp_guest_core_entry c ev (hw (Call ''mv sp, hyp_boot_stack'' []) h))
      else Some (hw (Call ''__real_xPortStartScheduler'' []) h, Real_scheduler))"

section \<open>The window is exactly the guest's memory\<close>

text \<open>
  How the processor matches an address against a NAPOT entry: the trailing ones of \<open>pmpaddr\<close> and
  the zero above them are the bits that do not count; \<open>pmpaddr\<close> holds addresses shifted right by 2.
\<close>

definition napot_match :: "u32 \<Rightarrow> u32 \<Rightarrow> bool" where
  "napot_match pmpaddr a = ((drop_bit 2 a XOR pmpaddr) AND NOT (pmpaddr XOR (pmpaddr + 1)) = 0)"

lemma power_of_two_test:
  fixes w :: u32
  assumes "w AND (w - 1) = 0" and "w \<noteq> 0"
  obtains k where "w = 2 ^ k" "k < 32"
proof -
  have "1 \<le> unat w" using assms(2) by (simp add: unat_gt_0 Suc_le_eq)
  from ex_power_ivl1 [OF _ this, of 2] obtain k where k: "2 ^ k \<le> unat w" "unat w < 2 ^ (k + 1)" by auto
  have w32: "unat w < 2 ^ LENGTH(32)" by (rule unsigned_less)
  with k(1) have "(2::nat) ^ k < 2 ^ 32" by simp
  then have k32: "k < 32" by (simp only: power_strict_increasing_iff [of "2::nat"] one_less_numeral_iff semiring_norm)
  have top: "bit (v :: u32) k" if "2 ^ k \<le> unat v" "unat v < 2 ^ (k + 1)" for v
  proof -
    have "unat v div 2 ^ k = 1"
      using that by (intro div_nat_eqI) simp_all
    then have "bit (unat v) k" by (simp add: bit_iff_odd)
    then show ?thesis by (simp add: bit_unsigned_iff)
  qed
  have eq: "unat w = 2 ^ k"
  proof (rule ccontr)
    assume "unat w \<noteq> 2 ^ k"
    with k have "2 ^ k \<le> unat (w - 1)" "unat (w - 1) < 2 ^ (k + 1)"
      using assms(2) by (auto simp: unat_minus_one)
    with top k have "bit (w AND (w - 1)) k" by (simp add: bit_and_iff)
    with assms(1) show False by simp
  qed
  have "w = of_nat (unat w)" by simp
  also have "\<dots> = 2 ^ k" by (simp only: eq) simp
  finally show thesis using k32 by (rule that)
qed

lemma unat_pow2: "k < 32 \<Longrightarrow> unat (2 ^ k :: u32) = 2 ^ k"
proof -
  assume "k < 32"
  then have "(2::nat) ^ k < 2 ^ 32" by (intro power_strict_increasing) auto
  then have "unat (of_nat (2 ^ k) :: u32) = 2 ^ k" by (simp only: unat_of_nat) simp
  then show ?thesis by simp
qed

lemma u32_eq_0: "(x :: u32) = 0 \<longleftrightarrow> (\<forall>n < 32. \<not> bit x n)"
  by (auto intro: u32_eqI)

lemma napot_match_range:
  assumes "3 \<le> k" "k < 32" and "take_bit k base = (0 :: u32)"
  shows "napot_match (drop_bit 2 (pmp_napot_addr base (2 ^ k))) a \<longleftrightarrow> drop_bit k a = drop_bit k base"
proof -
  obtain j where k: "k = j + 3" using assms(1) by (metis le_add_diff_inverse2)
  let ?b = "drop_bit 2 base"
  let ?p = "drop_bit 2 (pmp_napot_addr base (2 ^ k))"
  have low: "\<not> bit base n" if "n < j + 3" for n
    using assms(3) that k by (metis bit_take_bit_iff bit_0_eq bot_apply bot_bool_def)
  have p: "?p = ?b OR mask j"
    using assms(2) by (intro u32_eqI)
      (auto simp: pmp_napot_addr_def k bit_simps simp flip: mask_eq_exp_minus_1)
  have "?b OR mask j = ?b + mask j"
    by (rule disjunctive_add [symmetric]) (auto simp: bit_simps low)
  then have "?p + 1 = ?b + 2 ^ j"
    by (simp add: p add.assoc inc_mask_eq_exp)
  also have "\<dots> = ?b OR 2 ^ j"
    by (intro disjunctive_add) (auto simp: bit_simps low)
  finally have care: "bit (?p XOR (?p + 1)) n = (n \<le> j)" if "n < 32" for n
    using that assms(2) low [of "n + 2"] unfolding p
    by (auto simp: bit_simps le_less k)
  have "napot_match ?p a \<longleftrightarrow> (\<forall>n < 32. j < n \<longrightarrow> bit (drop_bit 2 a) n = bit ?b n)"
    unfolding napot_match_def u32_eq_0 using care
    by (auto simp: bit_and_iff bit_not_iff bit_xor_iff p bit_or_iff bit_mask_iff not_le)
  also have "\<dots> \<longleftrightarrow> drop_bit k a = drop_bit k base"
  proof
    assume eq: "\<forall>n < 32. j < n \<longrightarrow> bit (drop_bit 2 a) n = bit ?b n"
    show "drop_bit k a = drop_bit k base"
    proof (rule u32_eqI)
      fix n
      show "bit (drop_bit k a) n = bit (drop_bit k base) n"
        using eq [rule_format, of "n + j + 1"]
        by (cases "n + j + 1 < 32") (auto simp: bit_drop_bit_eq k numeral_3_eq_3 algebra_simps dest: bit_imp_le_length)
    qed
  next
    assume "drop_bit k a = drop_bit k base"
    moreover have "bit (drop_bit 2 x) n = bit (drop_bit k x) (n - j - 1)" if "j < n" for n and x :: u32
    proof -
      have "k + (n - j - 1) = 2 + n" using that k by simp
      then show ?thesis by (simp add: bit_drop_bit_eq)
    qed
    ultimately show "\<forall>n < 32. j < n \<longrightarrow> bit (drop_bit 2 a) n = bit ?b n" by simp
  qed
  finally show ?thesis .
qed

lemma drop_bit_range:
  fixes a base :: u32
  assumes "take_bit k base = 0" and "k < 32"
  shows "drop_bit k a = drop_bit k base \<longleftrightarrow> unat base \<le> unat a \<and> unat a < unat base + 2 ^ k"
proof -
  have "unat base mod 2 ^ k = 0"
    using assms by (metis take_bit_eq_mod unsigned_0 unsigned_take_bit_eq)
  then obtain q where q: "unat base = 2 ^ k * q" by auto
  have "drop_bit k a = drop_bit k base \<longleftrightarrow> unat a div 2 ^ k = q"
    by (simp add: word_unat_eq_iff drop_bit_eq_div unat_div unat_pow2 assms(2) q)
  also have "\<dots> \<longleftrightarrow> 2 ^ k * q \<le> unat a \<and> unat a < 2 ^ k * q + 2 ^ k"
    by (metis div_nat_eqI dividend_less_times_div mult.commute mult_Suc_right add.commute
        times_div_less_eq_dividend zero_less_numeral zero_less_power)
  finally show ?thesis by (simp add: q)
qed

lemma pmp_set_rwx_exact:
  assumes "pmp_set_rwx_region ev base size1 h = (ESP_OK, h')"
  shows "\<exists>addr. h' = hw (Call ''PMP_RESET_AND_ENTRY_SET'' [pmp_entery, addr, ucast pmp_rwx_cfg]) h \<and>
           (\<forall>a. napot_match (drop_bit 2 addr) a \<longleftrightarrow>
                unat base \<le> unat a \<and> unat a < unat base + unat size1) \<and>
           ev_pmp_readback ev = pmp_rwx_cfg"
proof -
  from assms have g: "8 \<le> size1" "size1 AND (size1 - 1) = 0" "base AND (size1 - 1) = 0"
    and h': "h' = hw (Call ''PMP_RESET_AND_ENTRY_SET'' [pmp_entery, pmp_napot_addr base size1, ucast pmp_rwx_cfg]) h"
    and rb: "ev_pmp_readback ev = pmp_rwx_cfg"
    by (auto simp: pmp_set_rwx_region_def Let_def esp_err_defs not_less split: if_splits)
  from g(1) have "size1 \<noteq> 0" by auto
  from power_of_two_test [OF g(2) this] obtain k where k: "size1 = 2 ^ k" "k < 32" .
  have "3 \<le> k"
  proof (rule ccontr)
    assume "\<not> 3 \<le> k"
    then have "k = 0 \<or> k = 1 \<or> k = 2" by linarith
    with g(1) k(1) show False by (auto simp: word_le_nat_alt)
  qed
  moreover have aligned: "take_bit k base = 0"
    using g(3) by (simp add: k(1) take_bit_eq_mask mask_eq_exp_minus_1)
  moreover have "unat size1 = 2 ^ k" using k by (simp add: unat_pow2)
  ultimately show ?thesis
    using napot_match_range [OF _ k(2) aligned] drop_bit_range [OF aligned k(2)] rb h'
    by (auto simp: k(1) intro!: exI [of _ "pmp_napot_addr base (2 ^ k)"])
qed

text \<open>
  C21. The memory protection entry covers exactly the requested region. When \<open>pmp_set_rwx_region\<close>
  succeeds it has made one call that writes entry 5 with read, write and execute permission and an
  address whose NAPOT range, as the processor matches it, is \<open>[base, base + size)\<close>: no byte less
  and no byte more.
\<close>

theorem pmp_set_rwx_region_exact:
  assumes "pmp_set_rwx_region ev base size1 h = (ESP_OK, h')"
  shows "\<exists>addr. h' = hw (Call ''PMP_RESET_AND_ENTRY_SET'' [pmp_entery, addr, ucast pmp_rwx_cfg]) h \<and>
           (\<forall>a. napot_match (drop_bit 2 addr) a \<longleftrightarrow>
                unat base \<le> unat a \<and> unat a < unat base + unat size1) \<and>
           ev_pmp_readback ev = pmp_rwx_cfg"
  using assms by (rule pmp_set_rwx_exact)

definition demo_env :: core1_env where
  "demo_env = \<lparr>ev_core_id = 1, ev_image_ready = sconst True, ev_pmp_cfg = 0,
               ev_pmp_readback = pmp_rwx_cfg, ev_rxfifo = [0x0d],
               ev_mstatus = 0x1880\<rparr>"

lemma demo_pmp:
  "pmp_set_rwx_region demo_env linux_base_address linux_size h =
     (ESP_OK, hw (Call ''PMP_RESET_AND_ENTRY_SET''
                    [pmp_entery, pmp_napot_addr linux_base_address linux_size, ucast pmp_rwx_cfg]) h)"
  by (simp add: pmp_set_rwx_region_def demo_env_def pmp_defs linux_base_address_def linux_size_def)

theorem pmp_set_rwx_region_exact_witness:
  "\<exists>addr. (\<forall>a. napot_match (drop_bit 2 addr) a \<longleftrightarrow> 0x48000000 \<le> unat a \<and> unat a < 0x4A000000)"
  using pmp_set_rwx_region_exact [OF demo_pmp]
  by (auto simp: linux_base_address_def linux_size_def)

section \<open>Only the timer and the console interrupt core 1\<close>

text \<open>The last value a sequence of calls set, as picked out by \<open>f\<close>.\<close>

fun last_set :: "(hwcall \<Rightarrow> 'a option) \<Rightarrow> hwcall list \<Rightarrow> 'a option" where
  "last_set f [] = None"
| "last_set f (c # cs) = (case last_set f cs of None \<Rightarrow> f c | Some v \<Rightarrow> Some v)"

lemma last_set_append:
  "last_set f (as @ bs) = (case last_set f bs of None \<Rightarrow> last_set f as | Some v \<Rightarrow> Some v)"
  by (induction as) (simp_all split: option.splits)

lemma last_set_none: "(\<And>c. c \<in> set cs \<Longrightarrow> f c = None) \<Longrightarrow> last_set f cs = None"
  by (induction cs) simp_all

text \<open>Where an interrupt source of this core goes, and whether a line of it is enabled.\<close>

fun sets_route :: "u32 \<Rightarrow> u32 \<Rightarrow> hwcall \<Rightarrow> u32 option" where
  "sets_route core src (Call n [c, s, i]) =
     (if n = ''esp_rom_route_intr_matrix'' \<and> c = core \<and> s = src then Some i else None)"
| "sets_route core src _ = None"

fun sets_enable :: "u32 \<Rightarrow> hwcall \<Rightarrow> bool option" where
  "sets_enable i (Call n [j]) =
     (if j \<noteq> i then None
      else if n = ''ESP_INTR_ENABLE'' then Some True
      else if n = ''ESP_INTR_DISABLE'' then Some False else None)"
| "sets_enable i _ = None"

lemma hw_all_calls: "out_calls (hv_host (hw_all cs h)) = out_calls (hv_host h) @ cs"
  by (induction cs arbitrary: h) simp_all

lemma setup_calls:
  "\<exists>mid. out_calls (hv_host (hyp_setup_interrupts c ev core h)) =
     out_calls (hv_host h) @
     map (\<lambda>src. Call ''esp_rom_route_intr_matrix'' [core, of_nat src, ETS_INVALID_INUM c])
       [0..<ETS_MAX_INTR_SOURCE c] @
     concat (map (\<lambda>i. [Call ''ESP_INTR_DISABLE'' [of_nat i], Call ''esprv_int_set_vectored'' [of_nat i, 0]]) [0..<32]) @
     mid @
     [Call ''esp_rom_route_intr_matrix'' [core, ETS_SYSTIMER_TARGET1_INTR_SOURCE c, HYP_INUM_TIMER],
      Call ''esp_rom_route_intr_matrix'' [core, ETS_UART0_INTR_SOURCE c, HYP_INUM_UART],
      Call ''ESP_INTR_ENABLE'' [HYP_INUM_TIMER], Call ''ESP_INTR_ENABLE'' [HYP_INUM_UART],
      Call ''uart_ll_ena_intr_mask''
        [UART_INTR_RXFIFO_FULL c OR UART_INTR_RXFIFO_TOUT c OR UART_INTR_RXFIFO_OVF c]] \<and>
     (\<forall>x \<in> set mid. sets_route core src x = None \<and> sets_enable i x = None)"
  unfolding hyp_setup_interrupts_def hyp_clic_sanitize_def Let_def
  by (simp add: hw_all_calls del: upt_conv_Cons)

lemma routes_invalid:
  "k < n \<Longrightarrow> last_set (sets_route core (of_nat k))
     (map (\<lambda>src. Call ''esp_rom_route_intr_matrix'' [core, of_nat src, x]) [0..<n]) = Some x"
  by (induction n) (auto simp: last_set_append less_Suc_eq split: option.splits)

lemma lines_disabled:
  "k < n \<Longrightarrow> last_set (sets_enable (of_nat k))
     (concat (map (\<lambda>i. [Call ''ESP_INTR_DISABLE'' [of_nat i], Call ''esprv_int_set_vectored'' [of_nat i, 0]]) [0..<n])) =
     Some False"
  by (induction n) (auto simp: last_set_append less_Suc_eq split: option.splits)

text \<open>
  C35. After \<open>hyp_setup_interrupts\<close> core 1 listens to two sources only. Whatever was routed and
  enabled before, the systimer alarm goes to line 20 and the console to line 21, every other
  source goes to the invalid line, and of the 32 lines exactly those two are enabled.
\<close>

theorem hyp_setup_interrupts_exclusive:
  assumes "src < ETS_MAX_INTR_SOURCE c" and "i < 32"
    and "ETS_SYSTIMER_TARGET1_INTR_SOURCE c \<noteq> ETS_UART0_INTR_SOURCE c"
  shows "last_set (sets_route core (of_nat src)) (out_calls (hv_host (hyp_setup_interrupts c ev core h))) =
           Some (if of_nat src = ETS_SYSTIMER_TARGET1_INTR_SOURCE c then HYP_INUM_TIMER
                 else if of_nat src = ETS_UART0_INTR_SOURCE c then HYP_INUM_UART
                 else ETS_INVALID_INUM c) \<and>
         last_set (sets_enable (of_nat i)) (out_calls (hv_host (hyp_setup_interrupts c ev core h))) =
           Some (i = 20 \<or> i = 21)"
proof -
  obtain mid where calls: "out_calls (hv_host (hyp_setup_interrupts c ev core h)) =
     out_calls (hv_host h) @
     map (\<lambda>src. Call ''esp_rom_route_intr_matrix'' [core, of_nat src, ETS_INVALID_INUM c])
       [0..<ETS_MAX_INTR_SOURCE c] @
     concat (map (\<lambda>i. [Call ''ESP_INTR_DISABLE'' [of_nat i], Call ''esprv_int_set_vectored'' [of_nat i, 0]]) [0..<32]) @
     mid @
     [Call ''esp_rom_route_intr_matrix'' [core, ETS_SYSTIMER_TARGET1_INTR_SOURCE c, HYP_INUM_TIMER],
      Call ''esp_rom_route_intr_matrix'' [core, ETS_UART0_INTR_SOURCE c, HYP_INUM_UART],
      Call ''ESP_INTR_ENABLE'' [HYP_INUM_TIMER], Call ''ESP_INTR_ENABLE'' [HYP_INUM_UART],
      Call ''uart_ll_ena_intr_mask''
        [UART_INTR_RXFIFO_FULL c OR UART_INTR_RXFIFO_TOUT c OR UART_INTR_RXFIFO_OVF c]]"
    and mid: "\<forall>x \<in> set mid. sets_route core (of_nat src) x = None \<and> sets_enable (of_nat i) x = None"
    using setup_calls [of c ev core h "of_nat src" "of_nat i"] by blast
  have none: "last_set (sets_route core (of_nat src)) mid = None"
    "last_set (sets_enable (of_nat i)) mid = None"
    using mid by (simp_all add: last_set_none)
  have lines: "last_set (sets_route core (of_nat src)) (concat (map (\<lambda>i. [Call ''ESP_INTR_DISABLE'' [of_nat i],
      Call ''esprv_int_set_vectored'' [of_nat i, 0]]) [0..<32])) = None"
    by (rule last_set_none) auto
  have "(of_nat i = (20 :: u32)) = (i = 20)" "(of_nat i = (21 :: u32)) = (i = 21)"
    using assms(2) by (auto simp: word_of_nat_eq_iff take_bit_nat_eq_self
        dest!: arg_cong [of "of_nat i :: u32" _ unat] simp: unat_of_nat)
  then show ?thesis
    unfolding calls
    using routes_invalid [OF assms(1), of core "ETS_INVALID_INUM c"] lines_disabled [OF assms(2)] none lines assms(3)
    by (auto simp: last_set_append HYP_INUM_TIMER_def HYP_INUM_UART_def simp del: upt_conv_Cons upt_rec_numeral)
qed

definition demo_soc :: soc where
  "demo_soc = \<lparr>ETS_MAX_INTR_SOURCE = 128, ETS_INVALID_INUM = 6,
               ETS_SYSTIMER_TARGET1_INTR_SOURCE = 54, ETS_UART0_INTR_SOURCE = 31,
               RVHAL_INTR_ENABLE_THRESH_CLIC = 0, UART_LL_INTR_MASK = 0x7ffff,
               UART_INTR_RXFIFO_FULL = 1, UART_INTR_RXFIFO_TOUT = 0x100,
               UART_INTR_RXFIFO_OVF = 0x10, INTR_TYPE_LEVEL = 0\<rparr>"

theorem hyp_setup_interrupts_exclusive_witness:
  "last_set (sets_route 1 31) (out_calls (hv_host (hyp_setup_interrupts demo_soc demo_env 1 demo_hyp))) =
     Some HYP_INUM_UART \<and>
   last_set (sets_enable 5) (out_calls (hv_host (hyp_setup_interrupts demo_soc demo_env 1 demo_hyp))) =
     Some False"
  using hyp_setup_interrupts_exclusive [of 31 demo_soc 5 1 demo_env demo_hyp] by (simp add: demo_soc_def)

section \<open>The guest starts protected or not at all\<close>

lemma wait_image_None: "wait_image ready = None \<longleftrightarrow> (\<forall>n. \<not> ready !! n)"
proof
  assume none: "wait_image ready = None"
  show "\<forall>n. \<not> ready !! n"
  proof
    fix n
    from none show "\<not> ready !! n"
      by (induction n arbitrary: ready) (subst (asm) wait_image.simps, simp split: if_splits)+
  qed
next
  assume never: "\<forall>n. \<not> ready !! n"
  have "\<exists>n. ready !! n" if "wait_image ready = Some u" for u
    using that
  proof (rule wait_image.raw_induct [rotated, where P = "\<lambda>ready u. \<exists>n. ready !! n"])
    fix wait ready u
    assume IH: "\<And>ready u. wait ready = Some u \<Longrightarrow> \<exists>n. ready !! n"
      and r: "(if shd ready then Some () else wait (stl ready)) = Some u"
    show "\<exists>n. ready !! n"
    proof (cases "shd ready")
      case True
      then have "ready !! 0" by simp
      then show ?thesis ..
    next
      case False
      with r IH obtain n where "stl ready !! n" by auto
      then have "ready !! Suc n" by simp
      then show ?thesis ..
    qed
  qed
  with never show "wait_image ready = None" by (cases "wait_image ready") auto
qed

lemma setup_frame [simp, frame_simps]:
  "hv_mem (hw_all cs h) = hv_mem h" "hv_running (hw_all cs h) = hv_running h"
  by (induction cs arbitrary: h) simp_all

lemma setup_interrupts_frame [simp, frame_simps]:
  "hv_mem (hyp_setup_interrupts c ev core h) = hv_mem h"
  "hv_running (hyp_setup_interrupts c ev core h) = hv_running h"
  by (simp_all add: hyp_setup_interrupts_def hyp_clic_sanitize_def Let_def
      del: upt_conv_Cons upt_rec_numeral)

lemma setup_extends: "\<exists>cs. out_calls (hv_host (hyp_setup_interrupts c ev core h)) = out_calls (hv_host h) @ cs"
  using setup_calls [of c ev core h 0 0] by (elim exE conjE, intro exI)

lemma linux_start_calls:
  "out_calls (hv_host (fst (linux_start ev h))) =
     out_calls (hv_host h) @ [Call ''csrc mstatus'' [0x1800], Call ''csrw mepc'' [linux_base_address], Call ''mret'' []]"
  "hv_running (fst (linux_start ev h)) = hv_running h" "hv_mem (fst (linux_start ev h)) = hv_mem h"
  by (simp_all add: linux_start_def Let_def)

text \<open>Whatever \<open>mstatus\<close> was, clearing both bits of \<open>MPP\<close> makes the \<open>mret\<close> one into user mode.\<close>

lemma linux_start_guest:
  "snd (linux_start ev h) = \<lparr>gs_pc = 0x48000000, gs_a0 = 0, gs_a1 = dtb_address, gs_priv = PRIV_U\<rparr>"
proof -
  have "take_bit 2 (drop_bit 11 (w AND NOT (push_bit 11 3))) = (0 :: u32)" for w
    by (rule u32_eqI) (auto simp: bit_simps numeral_2_eq_2 less_Suc_eq)
  then show ?thesis by (simp add: linux_start_def Let_def linux_base_address_def)
qed

text \<open>The entry, once the image is ready: the PMP entry decides.\<close>

abbreviation pmp_fails :: "core1_env \<Rightarrow> bool" where
  "pmp_fails ev \<equiv> bit (ev_pmp_cfg ev) 7 \<or> ev_pmp_readback ev \<noteq> pmp_rwx_cfg"

lemma guest_window_pmp:
  "fst (pmp_set_rwx_region ev linux_base_address linux_size h) = ESP_OK \<longleftrightarrow> \<not> pmp_fails ev"
  "hv_running (snd (pmp_set_rwx_region ev linux_base_address linux_size h)) = hv_running h"
  "hv_mem (snd (pmp_set_rwx_region ev linux_base_address linux_size h)) = hv_mem h"
  by (auto simp: pmp_set_rwx_region_def Let_def linux_base_address_def linux_size_def PMP_L_def esp_err_defs
      flag_simps)

lemma entry_cases:
  "(wait_image (ev_image_ready ev) = None \<longrightarrow> hyp_guest_core_entry c ev h = None) \<and>
   (wait_image (ev_image_ready ev) \<noteq> None \<and> pmp_fails ev \<longrightarrow>
      (\<exists>h'. hyp_guest_core_entry c ev h = Some (h', None) \<and> hv_running h' = hv_running h \<and> hv_mem h' = hv_mem h)) \<and>
   (wait_image (ev_image_ready ev) \<noteq> None \<and> \<not> pmp_fails ev \<longrightarrow>
      (\<exists>h' addr pre post. hyp_guest_core_entry c ev h = Some (h', Some (snd (linux_start ev h))) \<and>
         hv_running h' \<and> hv_mem h' = hv_mem h \<and>
         out_calls (hv_host h') = out_calls (hv_host h) @ pre @
           Call ''PMP_RESET_AND_ENTRY_SET'' [pmp_entery, addr, ucast pmp_rwx_cfg] # post @
           [Call ''csrc mstatus'' [0x1800], Call ''csrw mepc'' [linux_base_address], Call ''mret'' []] \<and>
         (\<forall>a. napot_match (drop_bit 2 addr) a = (0x48000000 \<le> unat a \<and> unat a < 0x4A000000))))"
  (is "_ \<and> _ \<and> (_ \<longrightarrow> ?started)")
proof -
  let ?h = "hw (Call ''csrc mstatus'' [MSTATUS_MIE]) (hw (Call ''port_uxCoreStartupDone'' [ev_core_id ev, 1]) h)"
  obtain e h1 where pmp: "pmp_set_rwx_region ev linux_base_address linux_size ?h = (e, h1)" by fastforce
  note fails = guest_window_pmp [of ev ?h, unfolded pmp, simplified]
  have ?started if ready: "wait_image (ev_image_ready ev) \<noteq> None" and ok: "\<not> pmp_fails ev"
  proof -
    have e: "e = ESP_OK" using fails(1) ok by simp
    then obtain addr where h1: "h1 = hw (Call ''PMP_RESET_AND_ENTRY_SET'' [pmp_entery, addr, ucast pmp_rwx_cfg]) ?h"
      and range: "\<forall>a. napot_match (drop_bit 2 addr) a = (0x48000000 \<le> unat a \<and> unat a < 0x4A000000)"
      using pmp_set_rwx_exact [OF pmp [unfolded e]]
      by (auto simp: linux_base_address_def linux_size_def)
    define g where "g = hw (Call ''esp_cpu_intr_set_ivt_addr'' []) (hw (Call ''csrw mscratch, hyp_stack'' [])
      (hw (Printf (Text ''I: Core %u: PMP RWX on guest window'' [ev_core_id ev])) h1))"
    define j where "j = hw (Printf (Text ''W: Starting Linux on core %u'' [ev_core_id ev]))
      ((hw (Printf (Text ''I: Core %u: interrupts armed (timer=%u uart=%u)''
             [ev_core_id ev, HYP_INUM_TIMER, HYP_INUM_UART]))
          (hyp_setup_interrupts c ev (ev_core_id ev) g))\<lparr>hv_running := True\<rparr>)"
    obtain cs where cs: "out_calls (hv_host (hyp_setup_interrupts c ev (ev_core_id ev) g)) = out_calls (hv_host g) @ cs"
      using setup_extends by blast
    have run: "hyp_guest_core_entry c ev h = Some (fst (linux_start ev j), Some (snd (linux_start ev h)))"
      using ready e pmp
      by (auto simp: hyp_guest_core_entry_def Let_def case_prod_beta linux_start_guest g_def j_def)
    have "\<exists>post. out_calls (hv_host j) = out_calls (hv_host ?h) @
        Call ''PMP_RESET_AND_ENTRY_SET'' [pmp_entery, addr, ucast pmp_rwx_cfg] # post"
      by (simp add: j_def cs) (simp add: g_def h1)
    moreover have "\<exists>pre. out_calls (hv_host ?h) = out_calls (hv_host h) @ pre" by simp
    ultimately obtain pre post where "out_calls (hv_host j) = out_calls (hv_host h) @ pre @
        Call ''PMP_RESET_AND_ENTRY_SET'' [pmp_entery, addr, ucast pmp_rwx_cfg] # post"
      by (metis append.assoc)
    moreover have "hv_running j" "hv_mem j = hv_mem h"
      using fails(3) by (simp_all add: j_def g_def h1)
    ultimately show ?thesis
      using run range by (intro exI [of _ "fst (linux_start ev j)"] exI [of _ addr] exI [of _ pre] exI [of _ post])
        (simp add: linux_start_calls)
  qed
  moreover have "hyp_guest_core_entry c ev h = None" if "wait_image (ev_image_ready ev) = None"
    using that by (simp add: hyp_guest_core_entry_def Let_def)
  moreover have "\<exists>h'. hyp_guest_core_entry c ev h = Some (h', None) \<and> hv_running h' = hv_running h \<and> hv_mem h' = hv_mem h"
    if "wait_image (ev_image_ready ev) \<noteq> None" "pmp_fails ev"
    using that pmp fails by (auto simp: hyp_guest_core_entry_def Let_def)
  ultimately show ?thesis by blast
qed

text \<open>
  C20. The guest starts behind its memory protection or not at all. Core 1 hangs exactly when the
  image never becomes ready. It parks exactly when the image becomes ready but the PMP entry is locked
  or does not read back what was written; the guest is then not marked as running. Otherwise, and only
  then, it enters the guest: at its base address, in user mode whatever \<open>mstatus\<close> held, with 0 and the
  device tree's address as arguments, and marked as running; before the \<open>mret\<close>, which is the last
  thing it does, it has written a PMP entry whose range is exactly the 32 MB window. Guest memory is
  left as it was loaded.
\<close>

theorem hyp_guest_core_entry_outcome:
  "(hyp_guest_core_entry c ev h = None \<longleftrightarrow> (\<forall>n. \<not> ev_image_ready ev !! n)) \<and>
   ((\<exists>h'. hyp_guest_core_entry c ev h = Some (h', None)) \<longleftrightarrow>
      (\<exists>n. ev_image_ready ev !! n) \<and> (bit (ev_pmp_cfg ev) 7 \<or> ev_pmp_readback ev \<noteq> pmp_rwx_cfg)) \<and>
   (\<forall>h'. hyp_guest_core_entry c ev h = Some (h', None) \<longrightarrow>
      hv_running h' = hv_running h \<and> hv_mem h' = hv_mem h) \<and>
   (\<forall>h' g. hyp_guest_core_entry c ev h = Some (h', Some g) \<longrightarrow>
      hv_running h' \<and> hv_mem h' = hv_mem h \<and>
      g = \<lparr>gs_pc = 0x48000000, gs_a0 = 0, gs_a1 = dtb_address, gs_priv = PRIV_U\<rparr> \<and>
      (\<exists>addr pre post. out_calls (hv_host h') = out_calls (hv_host h) @ pre @
           Call ''PMP_RESET_AND_ENTRY_SET'' [pmp_entery, addr, ucast pmp_rwx_cfg] # post @
           [Call ''csrc mstatus'' [0x1800], Call ''csrw mepc'' [0x48000000], Call ''mret'' []] \<and>
         (\<forall>a. napot_match (drop_bit 2 addr) a = (0x48000000 \<le> unat a \<and> unat a < 0x4A000000))))"
proof (cases "wait_image (ev_image_ready ev)")
  case None
  with wait_image_None entry_cases [of ev c h] show ?thesis by simp
next
  case (Some u)
  then have ready: "wait_image (ev_image_ready ev) \<noteq> None" by simp
  then have n: "\<exists>n. ev_image_ready ev !! n" using wait_image_None [of "ev_image_ready ev"] by simp
  show ?thesis
  proof (cases "pmp_fails ev")
    case True
    with entry_cases [of ev c h] ready n show ?thesis by auto
  next
    case False
    with entry_cases [of ev c h] ready obtain h' addr pre post where
      run: "hyp_guest_core_entry c ev h = Some (h', Some (snd (linux_start ev h)))"
      "hv_running h'" "hv_mem h' = hv_mem h"
      and calls: "out_calls (hv_host h') = out_calls (hv_host h) @ pre @
           Call ''PMP_RESET_AND_ENTRY_SET'' [pmp_entery, addr, ucast pmp_rwx_cfg] # post @
           [Call ''csrc mstatus'' [0x1800], Call ''csrw mepc'' [0x48000000], Call ''mret'' []]"
      and range: "\<forall>a. napot_match (drop_bit 2 addr) a = (0x48000000 \<le> unat a \<and> unat a < 0x4A000000)"
      unfolding linux_base_address_def by blast
    from calls range have "\<exists>addr pre post. out_calls (hv_host h') = out_calls (hv_host h) @ pre @
           Call ''PMP_RESET_AND_ENTRY_SET'' [pmp_entery, addr, ucast pmp_rwx_cfg] # post @
           [Call ''csrc mstatus'' [0x1800], Call ''csrw mepc'' [0x48000000], Call ''mret'' []] \<and>
         (\<forall>a. napot_match (drop_bit 2 addr) a = (0x48000000 \<le> unat a \<and> unat a < 0x4A000000))"
      by (intro exI conjI)
    with run n False show ?thesis unfolding linux_start_guest by simp
  qed
qed

lemma demo_entry: "\<exists>h'. hyp_guest_core_entry demo_soc demo_env h = Some (h', Some (snd (linux_start demo_env h)))"
proof -
  have "wait_image (ev_image_ready demo_env) = Some ()"
    by (subst wait_image.simps) (simp add: demo_env_def)
  moreover have "\<not> pmp_fails demo_env" by (simp add: demo_env_def)
  ultimately show ?thesis using entry_cases [of demo_env demo_soc h] by auto
qed

theorem hyp_guest_core_entry_outcome_witness:
  "\<exists>h' g. hyp_guest_core_entry demo_soc demo_env demo_hyp = Some (h', Some g) \<and>
          gs_priv g = PRIV_U \<and> gs_pc g = 0x48000000 \<and> hv_mem h' = hv_mem demo_hyp"
proof -
  obtain h' g where entry: "hyp_guest_core_entry demo_soc demo_env demo_hyp = Some (h', Some g)"
    using demo_entry by blast
  with hyp_guest_core_entry_outcome [where c = demo_soc and ev = demo_env and h = demo_hyp] show ?thesis by auto
qed

end
