(* ===== verification/Hyp_Service.thy ===== *)
theory Hyp_Service
  imports Hyp_Blk Hyp_Boot Hyp_Trace
begin

text \<open>
  \<open>main/main.c\<close>: core 0 as a FreeRTOS task. It brings up the card, releases the guest and then
  watches it ten times a second: every tenth look it compares the trap count with the previous one
  and reports a guest that has taken no trap for five seconds, once per quiet period and never while
  the guest is parked in a \<open>wfi\<close>.
\<close>

section \<open>Start-up\<close>

text \<open>
  Up to the loop. The result says whether the loop is entered, which is also whether
  \<open>guest_image_ready\<close> has been set.
\<close>

definition app_main_start :: "bool \<Rightarrow> sd_bringup \<Rightarrow> bool \<Rightarrow> bool \<Rightarrow> hyp \<Rightarrow> bool \<times> hyp" where
  "app_main_start guest_loaded p have_memory have_task h =
     (if \<not> guest_loaded then
        (False, hw (Printf (Text ''E: guest was not loaded; core 1 stays parked'' [])) h)
      else
        case hyp_sd_init p h of
          (sd, h) \<Rightarrow>
            let h = (if \<not> sd then
                       hw (Printf (Text ''W: sd: no card; the guest gets no block device'' [])) h
                     else
                       case hyp_virtio_blk_init have_memory have_task h of
                         (ok, h) \<Rightarrow>
                           if \<not> ok
                           then hw (Printf (Text ''W: virtio-blk: not offered to the guest'' [])) h
                           else h)
            in (True, hw (Printf (Text ''W: Core 0: guest released'' [])) h))"

section \<open>The service loop\<close>

text \<open>The loop's local variables.\<close>

record service =
  sv_last_traps :: u32
  sv_quiet_ticks :: u32
  sv_ticks :: u32
  sv_reported :: bool

definition service_init :: service where
  "service_init = \<lparr>sv_last_traps = 0, sv_quiet_ticks = 0, sv_ticks = 0, sv_reported = False\<rparr>"

text \<open>What the loop reads of core 1.\<close>

record guest_view =
  gv_traps :: u32
  gv_running :: bool
  gv_in_wfi :: bool

definition guest_view_of :: "hyp \<Rightarrow> guest_view" where
  "guest_view_of h =
     \<lparr>gv_traps = tc_total (hv_trace h), gv_running = hv_running h, gv_in_wfi = hv_in_wfi h\<rparr>"

text \<open>
  The body of \<open>if (++ticks >= 10u)\<close>, given what it reads of core 1: whether it reports, and the variables afterwards.
\<close>

definition service_second :: "guest_view \<Rightarrow> service \<Rightarrow> bool \<times> service" where
  "service_second g sv =
     (let sv = sv\<lparr>sv_ticks := 0\<rparr>;
          sv = (if gv_traps g = sv_last_traps sv then sv\<lparr>sv_quiet_ticks := sv_quiet_ticks sv + 1\<rparr>
                else sv\<lparr>sv_quiet_ticks := 0, sv_reported := False\<rparr>);
          sv = sv\<lparr>sv_last_traps := gv_traps g\<rparr>
      in if sv_quiet_ticks sv \<ge> 5 \<and> \<not> sv_reported sv \<and> gv_running g \<and> \<not> gv_in_wfi g
         then (True, sv\<lparr>sv_reported := True\<rparr>) else (False, sv))"

definition service_tick :: "guest_view \<Rightarrow> service \<Rightarrow> bool \<times> service" where
  "service_tick g sv =
     (let sv = sv\<lparr>sv_ticks := sv_ticks sv + 1\<rparr>
      in if sv_ticks sv \<ge> 10 then service_second g sv else (False, sv))"

text \<open>One iteration, on the monitor as core 1 has left it.\<close>

definition service_iteration :: "service \<Rightarrow> hyp \<Rightarrow> service \<times> hyp" where
  "service_iteration sv h =
     (let h = (if hv_stats_wanted h then hyp_stats_dump (h\<lparr>hv_stats_wanted := False\<rparr>) else h)
      in case service_tick (guest_view_of h) sv of
           (report, sv) \<Rightarrow>
             let h = (if report then
                        hyp_stats_dump (hyp_trace_dump ''liveness''
                          (on_trace (\<lambda>t. t\<lparr>tc_dumps := 0\<rparr>)
                             (hw (Printf (Wedge_line (sv_quiet_ticks sv))) h)))
                      else h)
             in (sv, hw (Call ''vTaskDelay pdMS_TO_TICKS'' [100]) h))"

text \<open>The loop against a changing guest: \<open>f n\<close> is what iteration \<open>n\<close> reads of core 1.\<close>

fun service_run :: "(nat \<Rightarrow> guest_view) \<Rightarrow> nat \<Rightarrow> service \<Rightarrow> service" where
  "service_run f 0 sv = sv"
| "service_run f (Suc n) sv = snd (service_tick (f n) (service_run f n sv))"

definition reports_at :: "(nat \<Rightarrow> guest_view) \<Rightarrow> service \<Rightarrow> nat \<Rightarrow> bool" where
  "reports_at f sv n = fst (service_tick (f n) (service_run f n sv))"

section \<open>Releasing the guest\<close>

text \<open>The guest is released exactly when it was loaded, with or without a card.\<close>

lemma app_main_start_releases: "fst (app_main_start guest_loaded p m t h) = guest_loaded"
  by (simp add: app_main_start_def Let_def split: prod.splits)

section \<open>What a report means\<close>

lemma service_tick_reports:
  "fst (service_tick g sv) \<Longrightarrow>
     gv_running g \<and> \<not> gv_in_wfi g \<and> sv_reported (snd (service_tick g sv)) \<and>
     sv_last_traps (snd (service_tick g sv)) = gv_traps g"
  "sv_reported sv \<Longrightarrow> sv_last_traps sv = gv_traps g \<Longrightarrow>
     \<not> fst (service_tick g sv) \<and> sv_reported (snd (service_tick g sv)) \<and>
     sv_last_traps (snd (service_tick g sv)) = gv_traps g"
  by (auto simp: service_tick_def service_second_def Let_def split: if_splits)

lemma quiet_after_report:
  assumes "reports_at f sv n" and "\<And>k. n < k \<Longrightarrow> k \<le> n + d \<Longrightarrow> gv_traps (f k) = gv_traps (f n)"
  shows "sv_reported (service_run f (Suc n + d) sv) \<and>
         sv_last_traps (service_run f (Suc n + d) sv) = gv_traps (f n)"
  using assms(2)
proof (induction d)
  case 0
  with service_tick_reports(1) [of "f n" "service_run f n sv"] assms(1)
  show ?case by (simp add: reports_at_def)
next
  case (Suc d)
  then have "sv_reported (service_run f (Suc n + d) sv)"
    "sv_last_traps (service_run f (Suc n + d) sv) = gv_traps (f (Suc n + d))"
    by simp_all
  with service_tick_reports(2) [of "service_run f (Suc n + d) sv" "f (Suc n + d)"] Suc.prems
  show ?case by simp
qed

text \<open>
  A quiet guest is reported once. Whatever core 1 does, a report is made only while the guest is
  running and not parked in a \<open>wfi\<close>; and between two reports the trap count has moved, so no quiet
  period is reported twice.
\<close>

theorem service_reports_once:
  assumes "reports_at f sv n"
  shows "gv_running (f n) \<and> \<not> gv_in_wfi (f n) \<and>
         (\<forall>m > n. reports_at f sv m \<longrightarrow> (\<exists>k. n < k \<and> k \<le> m \<and> gv_traps (f k) \<noteq> gv_traps (f n)))"
proof (intro conjI allI impI)
  fix m assume "n < m" "reports_at f sv m"
  then obtain d where m: "m = Suc n + d" using less_iff_Suc_add by auto
  show "\<exists>k. n < k \<and> k \<le> m \<and> gv_traps (f k) \<noteq> gv_traps (f n)"
  proof (rule ccontr)
    assume "\<not> (\<exists>k. n < k \<and> k \<le> m \<and> gv_traps (f k) \<noteq> gv_traps (f n))"
    then have same: "gv_traps (f k) = gv_traps (f n)" if "n < k" "k \<le> m" for k using that by blast
    have "sv_reported (service_run f m sv) \<and> sv_last_traps (service_run f m sv) = gv_traps (f m)"
      using quiet_after_report [OF assms, of d] same same [of m] m by simp
    with service_tick_reports(2) [of "service_run f m sv" "f m"] \<open>reports_at f sv m\<close>
    show False by (simp add: reports_at_def)
  qed
qed (use service_tick_reports(1) assms in \<open>auto simp: reports_at_def\<close>)

text \<open>Ten iterations are nine ticks and one look at the trap count.\<close>

lemma nine_ticks:
  assumes "\<And>k. f k = g" and "sv_ticks (service_run f n sv) = 0" and "j < 10"
  shows "service_run f (n + j) sv = (service_run f n sv)\<lparr>sv_ticks := of_nat j\<rparr>"
  using assms(3)
proof (induction j)
  case 0
  then show ?case using assms(2) by simp
next
  case (Suc j)
  then have "of_nat j + 1 < (10 :: u32)" by (simp add: word_less_nat_alt unat_word_ariths unat_of_nat)
  with Suc show ?case by (simp add: service_tick_def Let_def)
qed

lemma tenth_tick:
  assumes "\<And>k. f k = g" and "sv_ticks (service_run f n sv) = 0"
  shows "service_tick (f (n + 9)) (service_run f (n + 9) sv) = service_second g (service_run f n sv)"
  unfolding nine_ticks [OF assms, of 9, simplified] by (simp add: assms(1) service_tick_def service_second_def Let_def)

lemma one_second:
  assumes "\<And>k. f k = g" and "sv_ticks (service_run f n sv) = 0"
  shows "service_run f (n + 10) sv = snd (service_second g (service_run f n sv))"
    "reports_at f sv (n + 9) = fst (service_second g (service_run f n sv))"
    "sv_ticks (service_run f (n + 10) sv) = 0"
proof -
  have ten: "n + 10 = Suc (n + 9)" by simp
  show run: "service_run f (n + 10) sv = snd (service_second g (service_run f n sv))"
    unfolding ten service_run.simps using tenth_tick [OF assms] by simp
  show "reports_at f sv (n + 9) = fst (service_second g (service_run f n sv))"
    using tenth_tick [OF assms] by (simp add: reports_at_def)
  show "sv_ticks (service_run f (n + 10) sv) = 0"
    unfolding run by (simp add: service_second_def Let_def)
qed

lemma silent_second:
  assumes "\<not> fst (service_second g sv)" and "gv_running g" "\<not> gv_in_wfi g"
    and "\<not> sv_reported sv \<or> sv_last_traps sv \<noteq> gv_traps g"
  shows "\<not> sv_reported (snd (service_second g sv)) \<and>
         sv_last_traps (snd (service_second g sv)) = gv_traps g \<and>
         sv_quiet_ticks (snd (service_second g sv)) < 5 \<and>
         (sv_last_traps sv = gv_traps g \<longrightarrow>
            sv_quiet_ticks (snd (service_second g sv)) = sv_quiet_ticks sv + 1)"
  using assms by (auto simp: service_second_def Let_def not_le split: if_splits)

lemma detects_wedge:
  assumes "\<And>k. f k = g" and "gv_running g" and "\<not> gv_in_wfi g"
    and "sv_ticks sv = 0" and "\<not> sv_reported sv \<or> sv_last_traps sv \<noteq> gv_traps g"
  shows "\<exists>n < 60. reports_at f sv n"
proof (rule ccontr)
  assume "\<not> (\<exists>n < 60. reports_at f sv n)"
  then have silent: "\<not> reports_at f sv (10 * i + 9)" if "i < 6" for i using that by auto
  define s where "s i = service_run f (10 * i) sv" for i
  have step: "s (Suc i) = snd (service_second g (s i))" "\<not> fst (service_second g (s i))"
    if "i < 6" "sv_ticks (s i) = 0" for i
    using one_second [OF assms(1), where n = "10 * i" and sv = sv] silent [OF that(1)] that(2)
    by (simp_all add: s_def add.commute del: service_run.simps)
  have ticks: "sv_ticks (s i) = 0" if "i \<le> 6" for i
    using that
  proof (induction i)
    case (Suc i)
    with step(1) [of i] show ?case by (simp add: service_second_def Let_def)
  qed (simp add: s_def assms(4))
  have quiet: "\<not> sv_reported (s (Suc i)) \<and> sv_last_traps (s (Suc i)) = gv_traps g \<and>
      i \<le> unat (sv_quiet_ticks (s (Suc i))) \<and> unat (sv_quiet_ticks (s (Suc i))) < 5" if "i < 6" for i
    using that
  proof (induction i)
    case 0
    with step [of 0] ticks [of 0] silent_second [of g "s 0"] assms(2,3,5)
    show ?case by (simp add: s_def word_less_nat_alt)
  next
    case (Suc i)
    let ?q = "sv_quiet_ticks (s (Suc i))"
    have "unat (?q + 1) = unat ?q + 1" using Suc by (simp add: unat_word_ariths)
    moreover have "\<not> sv_reported (s (Suc (Suc i)))" "sv_last_traps (s (Suc (Suc i))) = gv_traps g"
      "unat (sv_quiet_ticks (s (Suc (Suc i)))) < 5" "sv_quiet_ticks (s (Suc (Suc i))) = ?q + 1"
      using Suc step [of "Suc i"] ticks [of "Suc i"] silent_second [of g "s (Suc i)"] assms(2,3)
      by (auto simp: word_less_nat_alt)
    ultimately show ?case using Suc by simp
  qed
  from quiet [of 5] show False by linarith
qed

text \<open>The same from any tick of the second: the loop stands where it would after that many idle ticks.\<close>

lemma service_run_shift:
  "service_run f (m + n) sv = service_run (\<lambda>k. f (m + k)) n (service_run f m sv)"
  by (induction n) simp_all

lemma reports_at_shift: "reports_at f sv (m + n) = reports_at (\<lambda>k. f (m + k)) (service_run f m sv) n"
  by (simp add: reports_at_def service_run_shift)

lemma detects_wedge_midway:
  assumes "gv_running g" and "\<not> gv_in_wfi g" and "t < 10" and "sv_ticks sv = of_nat t"
    and "\<not> sv_reported sv \<or> sv_last_traps sv \<noteq> gv_traps g"
  shows "\<exists>n < 60. reports_at (\<lambda>_. g) sv n"
proof -
  define sv0 where "sv0 = sv\<lparr>sv_ticks := 0\<rparr>"
  have run: "service_run (\<lambda>_. g) j sv0 = sv0\<lparr>sv_ticks := of_nat j\<rparr>" if "j < 10" for j
    using nine_ticks [of "\<lambda>_. g" g 0 sv0 j] that by (simp add: sv0_def)
  have sv: "service_run (\<lambda>_. g) t sv0 = sv" using run [OF assms(3)] assms(4) by (simp add: sv0_def)
  obtain m where m: "m < 60" "reports_at (\<lambda>_. g) sv0 m"
    using detects_wedge [of "\<lambda>_. g" g sv0] assms(1,2,5) by (auto simp: sv0_def)
  have "t \<le> m"
  proof (rule ccontr)
    assume "\<not> t \<le> m"
    with assms(3) have "\<not> 10 \<le> of_nat m + (1 :: u32)" "m < 10"
      by (simp_all add: word_le_nat_alt unat_word_ariths unat_of_nat)
    with m(2) run [of m] show False by (simp add: reports_at_def service_tick_def Let_def)
  qed
  with m reports_at_shift [of "\<lambda>_. g" sv0 t "m - t"] sv show ?thesis
    by (intro exI [of _ "m - t"]) simp
qed

text \<open>
  The loop from its start: the trap count is looked at in every tenth iteration, and the period is
  marked as reported only after a report since which every look has found the same count.
\<close>

lemma service_history:
  "sv_ticks (service_run f N service_init) = of_nat (N mod 10) \<and>
   (sv_reported (service_run f N service_init) \<longrightarrow>
      (\<exists>n < N. reports_at f service_init n \<and>
         (\<forall>m. n \<le> m \<longrightarrow> m < N \<longrightarrow> m mod 10 = 9 \<longrightarrow>
            gv_traps (f m) = sv_last_traps (service_run f N service_init)) \<and> n mod 10 = 9))"
proof (induction N)
  case 0
  then show ?case by (simp add: service_init_def)
next
  case (Suc N)
  let ?s = "service_run f N service_init"
  show ?case
  proof (cases "N mod 10 = 9")
    case False
    then have "N mod 10 < 9" by presburger
    then have small: "of_nat (N mod 10) + 1 < (10 :: u32)" and next_tick: "Suc N mod 10 = Suc (N mod 10)"
      by (simp_all add: word_less_nat_alt unat_word_ariths unat_of_nat mod_Suc)
    have run: "service_run f (Suc N) service_init = ?s\<lparr>sv_ticks := of_nat (N mod 10) + 1\<rparr>"
      using Suc.IH small by (simp add: service_tick_def Let_def)
    show ?thesis
      using Suc.IH False unfolding run next_tick by (auto simp: less_Suc_eq)
  next
    case True
    then have tick: "service_tick (f N) ?s = service_second (f N) ?s"
      using Suc.IH by (simp add: service_tick_def service_second_def Let_def)
    have run: "service_run f (Suc N) service_init = snd (service_second (f N) ?s)"
      and rep: "reports_at f service_init N = fst (service_second (f N) ?s)"
      using tick by (simp_all add: reports_at_def)
    have zero: "Suc N mod 10 = 0" using True by presburger
    have ticks: "sv_ticks (snd (service_second (f N) ?s)) = 0"
      and last: "sv_last_traps (snd (service_second (f N) ?s)) = gv_traps (f N)"
      and flag: "sv_reported (snd (service_second (f N) ?s)) \<Longrightarrow>
        fst (service_second (f N) ?s) \<or> sv_reported ?s \<and> sv_last_traps ?s = gv_traps (f N)"
      by (auto simp: service_second_def Let_def split: if_splits)
    show ?thesis
    proof (cases "fst (service_second (f N) ?s)")
      case now: True
      then show ?thesis
        using rep True ticks last unfolding run zero by (auto intro!: exI [of _ N] simp: less_Suc_eq)
    next
      case False
      with flag Suc.IH show ?thesis
        unfolding run zero using ticks last by (auto simp: less_Suc_eq)
    qed
  qed
qed

text \<open>
  C31. A guest that is wedged is reported, and within six seconds. Whatever the guest did before, if
  from iteration \<open>N\<close> of the service loop on it is running, not parked in a \<open>wfi\<close>, and takes no more
  traps, then the loop reports it in one of the next 60 iterations, unless it has reported this quiet
  period already: in an earlier iteration since which every look at the trap count, the last one
  included, has found the count the guest is stuck at. (A guest parked in a \<open>wfi\<close> is never reported.)
\<close>

theorem service_detects_wedge:
  assumes "\<And>k. N \<le> k \<Longrightarrow> f k = g" and "gv_running g" and "\<not> gv_in_wfi g"
  shows "(\<exists>n. N \<le> n \<and> n < N + 60 \<and> reports_at f service_init n) \<or>
         (\<exists>n < N. reports_at f service_init n \<and>
            (\<forall>m. n \<le> m \<longrightarrow> m < N \<longrightarrow> m mod 10 = 9 \<longrightarrow> gv_traps (f m) = gv_traps g) \<and> n mod 10 = 9)"
proof (cases "sv_reported (service_run f N service_init) \<and>
    sv_last_traps (service_run f N service_init) = gv_traps g")
  case True
  with service_history [of f N] show ?thesis by auto
next
  case False
  have const: "(\<lambda>k. f (N + k)) = (\<lambda>_. g)" using assms(1) by simp
  obtain n where "n < 60" "reports_at (\<lambda>_. g) (service_run f N service_init) n"
    using detects_wedge_midway [OF assms(2,3), of "N mod 10" "service_run f N service_init"]
      service_history [of f N] False by auto
  with reports_at_shift [of f service_init N n] const show ?thesis
    by (intro disjI1 exI [of _ "N + n"]) simp
qed

text \<open>A guest stuck at its seventh trap, for the concrete instances.\<close>

definition stuck_guest :: guest_view where
  "stuck_guest = \<lparr>gv_traps = 7, gv_running = True, gv_in_wfi = False\<rparr>"

theorem service_detects_wedge_witness:
  "\<exists>n. 3 \<le> n \<and> n < 63 \<and> reports_at (\<lambda>k. if k < 3 then stuck_guest\<lparr>gv_traps := of_nat k\<rparr> else stuck_guest) service_init n"
  using service_detects_wedge [of 3 "\<lambda>k. if k < 3 then stuck_guest\<lparr>gv_traps := of_nat k\<rparr> else stuck_guest" stuck_guest]
  by (auto simp: stuck_guest_def)

theorem service_reports_once_witness:
  "\<exists>n < 60. \<forall>m > n. \<not> reports_at (\<lambda>_. stuck_guest) service_init m"
proof -
  have "\<exists>n < 60. reports_at (\<lambda>_. stuck_guest) service_init n"
    using detects_wedge [of "\<lambda>_. stuck_guest" stuck_guest service_init]
    by (simp add: stuck_guest_def service_init_def)
  then show ?thesis using service_reports_once [of "\<lambda>_. stuck_guest" service_init] by fastforce
qed

end
