(* ===== verification/Hyp_Task.thy ===== *)
theory Hyp_Task
  imports Hyp_Blk
begin

text \<open>
  The block task of core 0 (\<open>blk_task\<close>, \<open>blk_service\<close> and \<open>blk_do_request\<close> in
  \<open>main/hyp_virtio_blk.c\<close>) in small steps, so that core 1 and the guest can run between them: taking
  a kick, fetching a request, each descriptor of its chain, the status byte, the used element, the
  used index, leaving the loop. \<open>blk_task_iteration\<close> of \<open>Hyp_Blk\<close> is what these steps do when
  nothing comes between.
\<close>

section \<open>Steps\<close>

text \<open>The local variables of \<open>blk_do_request\<close> in its loop: \<open>desc\<close> (computed once), \<open>type\<close>, \<open>sector\<close>, ...\<close>

record walk =
  wk_desc :: u32
  wk_type :: u32
  wk_sector :: u32
  wk_idx :: u16
  wk_written :: u32

text \<open>
  Where the task is: in its endless loop; at the head of the \<open>while\<close> of \<open>blk_service\<close>, with the local
  variables \<open>avail\<close>, \<open>used\<close> (both computed once, on entry) and \<open>published\<close>; in the loop of
  \<open>blk_do_request\<close> for a \<open>head\<close>; behind that loop with its \<open>type\<close>, \<open>ok\<close>, \<open>status_byte\<close> and \<open>written\<close>;
  back in \<open>blk_service\<close> with \<open>written\<close>, before and after the barrier.
\<close>

datatype task_pc =
    Waiting
  | Draining u32 u32 bool
  | Walking u32 u32 u16 walk
  | Finishing u32 u32 u16 u32 "bool \<times> u32 option \<times> u32"
  | Publishing u32 u32 u16 u32
  | Advancing u32 u32

text \<open>From the entry of \<open>blk_do_request\<close> to its loop.\<close>

definition begin_request :: "u32 \<Rightarrow> u32 \<Rightarrow> u16 \<Rightarrow> 'c core0 \<Rightarrow> task_pc \<times> 'c core0" where
  "begin_request avail used head s =
     (let m = c0_mem s; d = desc_at (c0_hyp s) head
      in if desc_len m d < 16 then
           (Publishing avail used head 0,
            on_hyp (on_blk (\<lambda>b. b\<lparr>bk_errors := bk_errors b + 1\<rparr>)) s)
         else
           let hdr = gpa (desc_addr m d);
               type = rd32 m hdr;
               sector = ucast (rd64 m (hdr + 8))
           in (if desc_has_next m d then
                 Walking avail used head \<lparr>wk_desc = desc_table (c0_hyp s), wk_type = type,
                   wk_sector = sector, wk_idx = desc_next m d, wk_written = 0\<rparr>
               else Finishing avail used head type (True, None, 0), s))"

text \<open>One turn of that loop: the descriptor \<open>&desc[idx % blk.queue_num]\<close>.\<close>

definition walk_descriptor ::
  "'c sd_driver \<Rightarrow> u32 \<Rightarrow> u32 \<Rightarrow> u16 \<Rightarrow> walk \<Rightarrow> 'c core0 \<Rightarrow> task_pc \<times> 'c core0" where
  "walk_descriptor drv avail used head w s =
     (let m = c0_mem s; d = desc_pos (wk_desc w) (bk_queue_num (c0_blk s)) (wk_idx w);
          buf = gpa (desc_addr m d)
      in if \<not> desc_has_next m d then
           (Finishing avail used head (wk_type w) (True, Some buf, wk_written w), s)
         else
           case blk_segment drv (wk_type w) buf (desc_len m d) (wk_sector w) (wk_written w) s of
             (ok, sector, written, s') \<Rightarrow>
               (if ok then
                  Walking avail used head
                    (w\<lparr>wk_sector := sector, wk_written := written, wk_idx := desc_next (c0_mem s') d\<rparr>)
                else Finishing avail used head (wk_type w) (False, None, written), s'))"

text \<open>The two sides of the barrier in \<open>blk_service\<close>: the used element, then the indices.\<close>

definition publish_element :: "u32 \<Rightarrow> u16 \<Rightarrow> u32 \<Rightarrow> 'c core0 \<Rightarrow> 'c core0" where
  "publish_element used head written s =
     (let s = on_mem (wr32 (used_slot used s) (ucast head)) s
      in on_mem (wr32 (used_slot used s + 4) written) s)"

definition publish_index :: "u32 \<Rightarrow> 'c core0 \<Rightarrow> 'c core0" where
  "publish_index used s =
     (let s = on_mem (wr16 (used + 2) (rd16 (c0_mem s) (used + 2) + 1)) s
      in on_hyp (on_blk (\<lambda>b. b\<lparr>bk_last_avail := bk_last_avail b + 1\<rparr>)) s)"

lemma blk_publish_steps: "blk_publish used head written s = publish_index used (publish_element used head written s)"
  by (simp add: blk_publish_def publish_index_def publish_element_def Let_def)

inductive task_step :: "'c sd_driver \<Rightarrow> task_pc \<times> 'c core0 \<Rightarrow> task_pc \<times> 'c core0 \<Rightarrow> bool"
  for drv :: "'c sd_driver" where
  take_kick: "bk_kick (c0_blk s) \<Longrightarrow> s1 = on_hyp (on_blk (\<lambda>b. b\<lparr>bk_kick := False\<rparr>)) s \<Longrightarrow>
    task_step drv (Waiting, s)
      (if bk_live (c0_blk s1) then Draining (avail_ring (c0_hyp s1)) (used_ring (c0_hyp s1)) False
       else Waiting, s1)"
| fetch: "bk_last_avail (c0_blk s) \<noteq> rd16 (c0_mem s) (avail + 2) \<Longrightarrow>
    begin_request avail used (avail_head avail s) s = (pc, s1) \<Longrightarrow>
    task_step drv (Draining avail used published, s) (pc, s1)"
| walk: "walk_descriptor drv avail used head w s = (pc, s1) \<Longrightarrow>
    task_step drv (Walking avail used head w, s) (pc, s1)"
| finish: "blk_finish type (r, s) = (written, s1) \<Longrightarrow>
    task_step drv (Finishing avail used head type r, s) (Publishing avail used head written, s1)"
| publish: "s1 = publish_element used head written s \<Longrightarrow>
    task_step drv (Publishing avail used head written, s) (Advancing avail used, s1)"
| advance: "s1 = publish_index used s \<Longrightarrow>
    task_step drv (Advancing avail used, s) (Draining avail used True, s1)"
| leave: "bk_last_avail (c0_blk s) = rd16 (c0_mem s) (avail + 2) \<Longrightarrow>
    s1 = (if published then on_hyp (on_blk (\<lambda>b. b\<lparr>bk_irq := True\<rparr>)) s else s) \<Longrightarrow>
    task_step drv (Draining avail used published, s) (Waiting, s1)"

inductive_cases waiting_stepE: "task_step drv (Waiting, s) c"
inductive_cases draining_stepE: "task_step drv (Draining avail used published, s) c"
inductive_cases walking_stepE: "task_step drv (Walking avail used head w, s) c"
inductive_cases finishing_stepE: "task_step drv (Finishing avail used head type r, s) c"
inductive_cases publishing_stepE: "task_step drv (Publishing avail used head written, s) c"
inductive_cases advancing_stepE: "task_step drv (Advancing avail used, s) c"

lemmas task_stepEs = waiting_stepE draining_stepE walking_stepE finishing_stepE publishing_stepE advancing_stepE

lemma task_step_det: "task_step drv c c1 \<Longrightarrow> task_step drv c c2 \<Longrightarrow> c1 = c2"
  by (induction rule: task_step.cases) (auto elim!: task_stepEs)

text \<open>No step of the task blocks: only waiting without a kick is stuck.\<close>

lemma task_step_enabled: "(\<exists>c. task_step drv (pc, s) c) \<longleftrightarrow> pc \<noteq> Waiting \<or> bk_kick (c0_blk s)"
proof (cases pc)
  case Waiting
  then show ?thesis by (auto intro: task_step.take_kick elim: waiting_stepE)
next
  case (Draining avail used published)
  obtain pc1 s1 where "begin_request avail used (avail_head avail s) s = (pc1, s1)" by (metis surj_pair)
  with Draining show ?thesis
    by (cases "bk_last_avail (c0_blk s) = rd16 (c0_mem s) (avail + 2)")
       (blast intro: task_step.fetch task_step.leave)+
next
  case (Walking avail used head w)
  obtain pc1 s1 where "walk_descriptor drv avail used head w s = (pc1, s1)" by (metis surj_pair)
  with Walking show ?thesis by (auto intro: task_step.walk)
next
  case (Finishing avail used head type r)
  obtain written s1 where "blk_finish type (r, s) = (written, s1)" by (metis surj_pair)
  with Finishing show ?thesis by (auto intro: task_step.finish)
qed (auto intro: task_step.publish task_step.advance)

section \<open>What the task leaves alone\<close>

text \<open>
  All of the monitor that core 1 relies on: devices, processor, traps. Core 0 only touches memory,
  the queue's counters and flags, and the log.
\<close>

definition core1_view where
  "core1_view h =
     (hv_plic h, hv_uart h, hv_shadow h, hv_priv h, hv_running h, bk_interrupt_status (hv_blk h),
      bk_live (hv_blk h), bk_kick (hv_blk h), hv_sd_ready h, tc_ring (hv_trace h), tc_next (hv_trace h), tc_total (hv_trace h))"

lemma core1_view_hw [simp]: "core1_view (hw c h) = core1_view h"
  by (simp add: core1_view_def)

lemma core1_view_updates [simp]:
  "core1_view (h\<lparr>hv_mem := m\<rparr>) = core1_view h"
  "core1_view (h\<lparr>hv_blk := (hv_blk h)\<lparr>bk_reads := n\<rparr>\<rparr>) = core1_view h"
  "core1_view (h\<lparr>hv_blk := (hv_blk h)\<lparr>bk_writes := n\<rparr>\<rparr>) = core1_view h"
  "core1_view (h\<lparr>hv_blk := (hv_blk h)\<lparr>bk_errors := n\<rparr>\<rparr>) = core1_view h"
  "core1_view (h\<lparr>hv_blk := (hv_blk h)\<lparr>bk_requests := n\<rparr>\<rparr>) = core1_view h"
  "core1_view (h\<lparr>hv_blk := (hv_blk h)\<lparr>bk_last_avail := l\<rparr>\<rparr>) = core1_view h"
  "core1_view (h\<lparr>hv_blk := (hv_blk h)\<lparr>bk_irq := b\<rparr>\<rparr>) = core1_view h"
  "core1_view (h\<lparr>hv_stats_wanted := b\<rparr>) = core1_view h"
  by (simp_all add: core1_view_def)

lemma sd_core1_view:
  "hyp_sd_read drv sector count s = (ok, s') \<Longrightarrow> core1_view (c0_hyp s') = core1_view (c0_hyp s)"
  "hyp_sd_write drv sector count s = (ok, s') \<Longrightarrow> core1_view (c0_hyp s') = core1_view (c0_hyp s)"
  by (auto simp: hyp_sd_read_def hyp_sd_write_def Let_def split: if_splits prod.splits)

lemma transfer_core1_view:
  assumes "blk_transfer drv write sector buf len s = (ok, s')"
  shows "core1_view (c0_hyp s') = core1_view (c0_hyp s)"
proof -
  have chunk: "core1_view (c0_hyp s') = core1_view (c0_hyp s)"
    if "blk_chunk drv write sector buf n s = (ok, s')" for sector buf n s ok s'
    using that by (auto simp: blk_chunk_def Let_def dest!: sd_core1_view split: if_splits prod.splits)
  from assms show ?thesis
    by (induction "sector" buf len s ok s' rule: blk_transfer_chunks) (auto dest!: chunk)
qed

lemma segment_core1_view:
  "blk_segment drv type buf len sector written s = (ok, sector', written', s') \<Longrightarrow>
     core1_view (c0_hyp s') = core1_view (c0_hyp s)"
  by (auto simp: blk_segment_def Let_def dest!: transfer_core1_view split: if_splits prod.splits)

lemma finish_core1_view:
  "blk_finish type (r, s) = (written, s') \<Longrightarrow> core1_view (c0_hyp s') = core1_view (c0_hyp s)"
  by (auto simp: blk_finish_def core1_view_def Let_def split: prod.splits option.splits if_splits)

lemma begin_core1_view:
  "begin_request avail used head s = (pc, s') \<Longrightarrow> core1_view (c0_hyp s') = core1_view (c0_hyp s)"
  by (auto simp: begin_request_def Let_def split: if_splits)

lemma walk_core1_view:
  "walk_descriptor drv avail used head w s = (pc, s') \<Longrightarrow> core1_view (c0_hyp s') = core1_view (c0_hyp s)"
  by (auto simp: walk_descriptor_def Let_def dest: segment_core1_view split: if_splits prod.splits)

lemma publish_core1_view [simp]:
  "core1_view (c0_hyp (publish_element used head written s)) = core1_view (c0_hyp s)"
  "core1_view (c0_hyp (publish_index used s)) = core1_view (c0_hyp s)"
  by (simp_all add: publish_element_def publish_index_def core1_view_def Let_def)

text \<open>Only taking a kick touches the view at all.\<close>

lemma busy_step_core1_view:
  "task_step drv (pc, s) (pc', s') \<Longrightarrow> pc \<noteq> Waiting \<Longrightarrow> core1_view (c0_hyp s') = core1_view (c0_hyp s)"
  by (cases pc) (auto elim!: task_stepEs dest: begin_core1_view walk_core1_view finish_core1_view)

lemma task_step_core1_view:
  assumes "task_step drv (pc, s) (pc', s')"
  shows "core1_view (on_blk (\<lambda>b. b\<lparr>bk_kick := False\<rparr>) (c0_hyp s')) =
         core1_view (on_blk (\<lambda>b. b\<lparr>bk_kick := False\<rparr>) (c0_hyp s))"
proof (cases "pc = Waiting")
  case True
  with assms show ?thesis by (auto simp: core1_view_def elim!: waiting_stepE)
next
  case False
  from busy_step_core1_view [OF assms this] show ?thesis by (simp add: core1_view_def)
qed

text \<open>
  Memory changes only inside a request, a request is fetched only while the drain is on and the
  available index is ahead, and a drain begins only on a live queue with a kick.
\<close>

lemma begin_request_mem: "begin_request avail used head s = (pc, s') \<Longrightarrow> c0_mem s' = c0_mem s"
  by (auto simp: begin_request_def Let_def split: if_splits)

text \<open>
  The bytes the next step can write: the buffer of the descriptor it is at, the status byte, the
  element of the used ring, its index; outside a request, none.
\<close>

fun footprint :: "task_pc \<Rightarrow> 'c core0 \<Rightarrow> u32 set" where
  "footprint (Walking avail used head w) s =
     (let d = desc_pos (wk_desc w) (bk_queue_num (c0_blk s)) (wk_idx w)
      in region (gpa (desc_addr (c0_mem s) d)) (unat (desc_len (c0_mem s) d)))"
| "footprint (Finishing avail used head type (ok, status_byte, written)) s = set_option status_byte"
| "footprint (Publishing avail used head written) s =
     region (used_slot used s) 4 \<union>
     region (used_slot used (on_mem (wr32 (used_slot used s) (ucast head)) s) + 4) 4"
| "footprint (Advancing avail used) s = region (used + 2) 2"
| "footprint pc s = {}"

lemma segment_writes:
  "blk_segment drv type buf len sector written s = (ok, sector', written', s') \<Longrightarrow>
     c0_mem s' x \<noteq> c0_mem s x \<Longrightarrow> x \<in> region buf (unat len)"
  using blk_segment_frame by blast

lemma walk_descriptor_footprint:
  assumes "walk_descriptor drv avail used head w s = (pc', s')" and "c0_mem s' x \<noteq> c0_mem s x"
  shows "x \<in> footprint (Walking avail used head w) s"
  using assms by (auto simp: walk_descriptor_def Let_def dest: segment_writes split: if_splits prod.splits)

lemma finish_footprint:
  assumes "blk_finish type (r, s) = (written, s')" and "c0_mem s' x \<noteq> c0_mem s x"
  shows "x \<in> footprint (Finishing avail used head type r) s"
  using assms by (cases r) (auto simp: blk_finish_def Let_def split: if_splits option.splits)

lemma task_step_footprint:
  assumes "task_step drv (pc, s) (pc', s')" and "c0_mem s' x \<noteq> c0_mem s x"
  shows "x \<in> footprint pc s"
  using assms(1)
proof cases
  case (walk avail used head w)
  with walk_descriptor_footprint [OF walk(2) assms(2)] show ?thesis by simp
next
  case (finish type r written avail used head)
  with finish_footprint [OF finish(3) assms(2)] show ?thesis by simp
next
  case (publish used head written avail)
  with assms(2) wr32_frame [of x] show ?thesis by (auto simp: publish_element_def Let_def) metis
next
  case (advance used avail)
  with assms(2) wr16_frame [of x] show ?thesis by (auto simp: publish_index_def Let_def)
qed (use assms(2) in \<open>auto dest: begin_request_mem split: if_splits\<close>)

lemma task_step_begins:
  "task_step drv (Waiting, s) (pc', s') \<Longrightarrow> pc' \<noteq> Waiting \<Longrightarrow> bk_kick (c0_blk s) \<and> bk_live (c0_blk s)"
  by (auto elim!: waiting_stepE split: if_splits)

text \<open>
  A drain keeps the available ring it began with, and leaves the loop only after comparing that
  ring's index with the consumed one.
\<close>

fun task_avail :: "task_pc \<Rightarrow> u32 option" where
  "task_avail Waiting = None"
| "task_avail (Draining avail used published) = Some avail"
| "task_avail (Walking avail used head w) = Some avail"
| "task_avail (Finishing avail used head type r) = Some avail"
| "task_avail (Publishing avail used head written) = Some avail"
| "task_avail (Advancing avail used) = Some avail"

lemma begin_request_avail: "begin_request avail used head s = (pc, s') \<Longrightarrow> task_avail pc = Some avail"
  by (auto simp: begin_request_def Let_def split: if_splits)

lemma walk_descriptor_avail:
  "walk_descriptor drv avail used head w s = (pc, s') \<Longrightarrow> task_avail pc = Some avail"
  by (auto simp: walk_descriptor_def Let_def split: if_splits prod.splits)

lemma task_step_avail:
  assumes "task_step drv (pc, s) (pc', s')" and "task_avail pc = Some avail"
  shows "task_avail pc' = Some avail \<or>
         pc' = Waiting \<and> bk_last_avail (c0_blk s) = rd16 (c0_mem s) (avail + 2)"
  using assms
  by (cases pc) (auto elim!: task_stepEs dest: begin_request_avail walk_descriptor_avail)

lemma take_kick_avail:
  "task_step drv (Waiting, s) (pc, s') \<Longrightarrow>
     task_avail pc = (if bk_live (c0_blk s) then Some (avail_ring (c0_hyp s)) else None)"
  by (auto elim!: waiting_stepE simp: avail_ring_def desc_table_def)

text \<open>The task never raises the flag, and clears it only when it takes the kick.\<close>

lemma task_step_kick:
  assumes "task_step drv (pc, s) (pc', s')"
  shows "bk_kick (c0_blk s') \<longleftrightarrow> bk_kick (c0_blk s) \<and> pc \<noteq> Waiting"
proof (cases "pc = Waiting")
  case True
  with assms show ?thesis by (auto elim!: waiting_stepE)
next
  case False
  from busy_step_core1_view [OF assms this] False show ?thesis by (simp add: core1_view_def)
qed

section \<open>Uninterrupted, they are the iteration\<close>

abbreviation task_steps :: "'c sd_driver \<Rightarrow> task_pc \<times> 'c core0 \<Rightarrow> task_pc \<times> 'c core0 \<Rightarrow> bool" where
  "task_steps drv \<equiv> (task_step drv)\<^sup>*\<^sup>*"

abbreviation drained :: "bool \<Rightarrow> 'c core0 \<Rightarrow> 'c core0" where
  "drained published s \<equiv> (if published then on_hyp (on_blk (\<lambda>b. b\<lparr>bk_irq := True\<rparr>)) s else s)"

text \<open>What is left of the iteration at each place, in the terms of \<open>Hyp_Blk\<close>.\<close>

definition rest_drain :: "'c sd_driver \<Rightarrow> u32 \<Rightarrow> u32 \<Rightarrow> bool \<Rightarrow> 'c core0 \<Rightarrow> 'c core0 option" where
  "rest_drain drv avail used published s =
     map_option (\<lambda>r. drained (fst r) (snd r)) (blk_drain drv avail used published s)"

definition rest_publish :: "'c sd_driver \<Rightarrow> u32 \<Rightarrow> u32 \<Rightarrow> u16 \<Rightarrow> u32 \<times> 'c core0 \<Rightarrow> 'c core0 option" where
  "rest_publish drv avail used head r = rest_drain drv avail used True (blk_publish used head (fst r) (snd r))"

fun task_rest :: "'c sd_driver \<Rightarrow> task_pc \<Rightarrow> 'c core0 \<Rightarrow> 'c core0 option" where
  "task_rest drv Waiting s = Some s"
| "task_rest drv (Draining avail used published) s = rest_drain drv avail used published s"
| "task_rest drv (Walking avail used head w) s =
     Option.bind (blk_walk drv (wk_type w) (wk_sector w) (wk_idx w) (wk_written w) s)
       (\<lambda>r. rest_publish drv avail used head (blk_finish (wk_type w) r))"
| "task_rest drv (Finishing avail used head type r) s = rest_publish drv avail used head (blk_finish type (r, s))"
| "task_rest drv (Publishing avail used head written) s = rest_publish drv avail used head (written, s)"
| "task_rest drv (Advancing avail used) s = rest_drain drv avail used True (publish_index used s)"

fun own_table :: "task_pc \<Rightarrow> 'c core0 \<Rightarrow> bool" where
  "own_table (Walking avail used head w) s = (wk_desc w = desc_table (c0_hyp s))"
| "own_table pc s = True"

lemma rest_drain_fetch:
  assumes "bk_last_avail (c0_blk s) \<noteq> rd16 (c0_mem s) (avail + 2)"
  shows "rest_drain drv avail used published s =
    Option.bind (blk_do_request drv (avail_head avail s) s) (rest_publish drv avail used (avail_head avail s))"
proof -
  have "blk_drain drv avail used published s =
    Option.bind (blk_do_request drv (avail_head avail s) s)
      (\<lambda>(written, s'). blk_drain drv avail used True (blk_publish used (avail_head avail s) written s'))"
    using assms by (subst blk_drain.simps) (simp add: Let_def)
  then show ?thesis
    by (cases "blk_do_request drv (avail_head avail s) s")
       (simp_all add: rest_drain_def rest_publish_def case_prod_beta)
qed

lemma rest_begin:
  assumes "begin_request avail used head s = (pc, s1)"
  shows "task_rest drv pc s1 = Option.bind (blk_do_request drv head s) (rest_publish drv avail used head)"
    "own_table pc s1"
  using assms
  by (auto simp: begin_request_def blk_do_request_def Let_def map_option_case split: if_splits option.splits)

lemma rest_walk:
  assumes "walk_descriptor drv avail used head w s = (pc, s1)" and "wk_desc w = desc_table (c0_hyp s)"
  shows "task_rest drv pc s1 = task_rest drv (Walking avail used head w) s" "own_table pc s1"
proof -
  let ?d = "desc_at (c0_hyp s) (wk_idx w)"
  obtain ok sec wr s2 where seg: "blk_segment drv (wk_type w) (gpa (desc_addr (c0_mem s) ?d)) (desc_len (c0_mem s) ?d)
      (wk_sector w) (wk_written w) s = (ok, sec, wr, s2)" by (metis prod_cases4)
  have d: "desc_pos (wk_desc w) (bk_queue_num (c0_blk s)) (wk_idx w) = ?d"
    by (simp add: desc_at_pos assms(2))
  have own: "desc_table (c0_hyp s2) = wk_desc w"
    using blk_segment_frame [OF seg] assms(2) by (metis ring_regsD(1))
  show "task_rest drv pc s1 = task_rest drv (Walking avail used head w) s"
    using assms(1) by (subst task_rest.simps, subst blk_walk.simps)
      (auto simp: walk_descriptor_def Let_def d seg split: if_splits)
  have "own_table (fst (walk_descriptor drv avail used head w s)) (snd (walk_descriptor drv avail used head w s))"
    by (simp add: walk_descriptor_def Let_def d seg own)
  then show "own_table pc s1" using assms(1) by simp
qed

lemma step_rest:
  assumes "task_step drv (pc, s) (pc', s')" and "pc \<noteq> Waiting" and "own_table pc s"
  shows "task_rest drv pc' s' = task_rest drv pc s \<and> own_table pc' s'"
  using assms
proof cases
  case (leave avail published used)
  then have "blk_drain drv avail used published s = Some (published, s)"
    by (subst blk_drain.simps) simp
  with leave show ?thesis by (simp add: rest_drain_def)
next
  case (fetch avail used published)
  with rest_begin [OF fetch(3)] show ?thesis by (simp add: rest_drain_fetch)
next
  case (walk avail used head w)
  with rest_walk [OF walk(2)] assms(3) show ?thesis by simp
qed (use assms(2) in \<open>auto simp: blk_publish_steps rest_publish_def\<close>)

text \<open>Steps that lead back to waiting have done what was left.\<close>

lemma steps_rest:
  assumes "task_steps drv (pc, s) (Waiting, s')" and "\<not> bk_kick (c0_blk s)" and "own_table pc s"
  shows "task_rest drv pc s = Some s'"
  using assms
proof (induction "(pc, s)" arbitrary: pc s rule: converse_rtranclp_induct)
  case (step c)
  obtain pc1 s1 where c: "c = (pc1, s1)" by fastforce
  have pc: "pc \<noteq> Waiting" using step.hyps(1) step.prems(1) by (auto elim: waiting_stepE)
  note st = step.hyps(1) [unfolded c]
  have "\<not> bk_kick (c0_blk s1)"
    using busy_step_core1_view [OF st pc] step.prems(1) by (simp add: core1_view_def)
  with step.hyps(3) [OF c] step_rest [OF st pc step.prems(2)] show ?case by simp
qed simp

text \<open>And what is left is done by steps.\<close>

lemma walk_steps:
  assumes "blk_walk drv type sector idx written s = Some r"
  shows "task_steps drv
    (Walking avail used head \<lparr>wk_desc = desc_table (c0_hyp s), wk_type = type, wk_sector = sector,
                              wk_idx = idx, wk_written = written\<rparr>, s)
    (Finishing avail used head type (fst r), snd r)"
proof (rule blk_walk.raw_induct [OF _ assms, where P = "\<lambda>d type sector idx written s r. d = drv \<longrightarrow>
    task_steps drv
      (Walking avail used head \<lparr>wk_desc = desc_table (c0_hyp s), wk_type = type, wk_sector = sector,
                                wk_idx = idx, wk_written = written\<rparr>, s)
      (Finishing avail used head type (fst r), snd r)", THEN mp, OF _ refl], intro impI, goal_cases)
  case (1 walk d type sector idx written s r)
  let ?w = "\<lparr>wk_desc = desc_table (c0_hyp s), wk_type = type, wk_sector = sector, wk_idx = idx, wk_written = written\<rparr>"
  let ?d = "desc_at (c0_hyp s) idx"
  obtain ok sec wr s2 where seg: "blk_segment drv type (gpa (desc_addr (c0_mem s) ?d)) (desc_len (c0_mem s) ?d)
      sector written s = (ok, sec, wr, s2)" by (metis prod_cases4)
  have table: "desc_table (c0_hyp s2) = desc_table (c0_hyp s)"
    using blk_segment_frame [OF seg] by (intro ring_regsD(1)) simp
  obtain pc1 s1 where turn: "walk_descriptor drv avail used head ?w s = (pc1, s1)" by (metis surj_pair)
  note step = task_step.walk [OF turn]
  have "task_steps drv (pc1, s1) (Finishing avail used head type (fst r), snd r)"
  proof (cases "desc_has_next (c0_mem s) ?d \<and> ok")
    case True
    with 1(2) seg \<open>d = drv\<close> have "walk drv type sec (desc_next (c0_mem s2) ?d) wr s2 = Some r"
      by (simp add: Let_def)
    from 1(1) [OF this] turn True show ?thesis
      by (auto simp: walk_descriptor_def Let_def seg table simp flip: desc_at_pos)
  next
    case False
    with 1(2) turn \<open>d = drv\<close> show ?thesis
      by (auto simp: walk_descriptor_def Let_def seg simp flip: desc_at_pos split: if_splits)
  qed
  with step show ?case by (rule converse_rtranclp_into_rtranclp)
qed

lemma publish_steps:
  "task_steps drv (Publishing avail used head written, s) (Draining avail used True, blk_publish used head written s)"
  unfolding blk_publish_steps
  by (meson task_step.publish task_step.advance converse_rtranclp_into_rtranclp r_into_rtranclp)

lemma finish_steps:
  "task_steps drv (Finishing avail used head type (fst r), snd r)
     (Draining avail used True, blk_publish used head (fst (blk_finish type r)) (snd (blk_finish type r)))"
  by (rule converse_rtranclp_into_rtranclp [where r = "task_step drv", OF task_step.finish publish_steps]) simp

lemma request_steps:
  assumes "bk_last_avail (c0_blk s) \<noteq> rd16 (c0_mem s) (avail + 2)" and "head = avail_head avail s"
    and "blk_do_request drv head s = Some (written, s1)"
  shows "task_steps drv (Draining avail used published, s) (Draining avail used True, blk_publish used head written s1)"
proof -
  obtain pc s2 where entry: "begin_request avail used head s = (pc, s2)" by (metis surj_pair)
  have "task_steps drv (pc, s2) (Draining avail used True, blk_publish used head written s1)"
  proof (cases pc)
    case (Walking a u h w)
    with entry assms(3) obtain r where
      args: "a = avail" "u = used" "h = head" "s2 = s" "wk_desc w = desc_table (c0_hyp s)"
      and r: "blk_walk drv (wk_type w) (wk_sector w) (wk_idx w) (wk_written w) s = Some r"
        "blk_finish (wk_type w) r = (written, s1)"
      by (auto simp: begin_request_def blk_do_request_def Let_def split: if_splits)
    from rtranclp_trans [OF walk_steps [OF r(1)] finish_steps, of avail used head] r(2) Walking args show ?thesis
      by (metis fst_conv snd_conv walk.surjective old.unit.exhaust)
  next
    case (Finishing a u h type x)
    with entry assms(3) finish_steps [of drv avail used head type "(x, s)"] show ?thesis
      by (auto simp: begin_request_def blk_do_request_def Let_def split: if_splits)
  next
    case (Publishing a u h w)
    with entry assms(3) publish_steps show ?thesis
      by (auto simp: begin_request_def blk_do_request_def Let_def split: if_splits)
  qed (use entry in \<open>auto simp: begin_request_def Let_def split: if_splits\<close>)
  with task_step.fetch [OF assms(1), of used pc s2] entry assms(2) show ?thesis
    by (metis converse_rtranclp_into_rtranclp)
qed

lemma drain_steps:
  assumes "blk_drain drv avail used published s = Some r"
  shows "task_steps drv (Draining avail used published, s) (Waiting, drained (fst r) (snd r))"
proof (rule blk_drain.raw_induct [OF _ assms, where P = "\<lambda>d avail used published s r. d = drv \<longrightarrow>
    task_steps drv (Draining avail used published, s) (Waiting, drained (fst r) (snd r))", THEN mp, OF _ refl],
    intro impI, goal_cases)
  case (1 drain d avail used published s r)
  show ?case
  proof (cases "bk_last_avail (c0_blk s) = rd16 (c0_mem s) (avail + 2)")
    case True
    have step: "task_step drv (Draining avail used published, s) (Waiting, drained published s)"
      by (rule task_step.leave [OF True refl])
    from 1(2) True have "r = (published, s)" by simp
    with r_into_rtranclp [where r = "task_step drv", OF step] show ?thesis
      by (simp only: fst_conv snd_conv)
  next
    case False
    with 1(2) obtain written s1 where req: "blk_do_request drv (avail_head avail s) s = Some (written, s1)"
      and rest: "drain drv avail used True (blk_publish used (avail_head avail s) written s1) = Some r"
      by (auto simp: Let_def bind_eq_Some_conv \<open>d = drv\<close>)
    from request_steps [OF False refl req] 1(1) [OF rest] show ?thesis
      by (meson rtranclp_trans)
  qed
qed

lemma steps_take_kick:
  assumes "(task_step drv)\<^sup>+\<^sup>+ (Waiting, s) (pc, s')"
  shows "\<not> bk_kick (c0_blk s')"
  using assms
  by (induction "(pc, s')" arbitrary: pc s' rule: tranclp_induct) (auto dest: task_step_kick)

text \<open>All but the kick of core 1's view stays through any number of steps.\<close>

lemma task_steps_core1_view:
  assumes "task_steps drv (pc, s) (pc', s')"
  shows "core1_view (on_blk (\<lambda>b. b\<lparr>bk_kick := False\<rparr>) (c0_hyp s')) =
         core1_view (on_blk (\<lambda>b. b\<lparr>bk_kick := False\<rparr>) (c0_hyp s))"
  using assms
  by (induction "(pc', s')" arbitrary: pc' s' rule: rtranclp_induct) (auto dest!: task_step_core1_view)

text \<open>
  The two models of the task agree: given a kick, \<open>blk_task_iteration\<close> returns a state exactly when the
  steps, run without interruption, lead back to waiting in that state; without one it does nothing.
\<close>

lemma iteration_steps:
  "(if bk_kick (c0_blk s) then (task_step drv)\<^sup>+\<^sup>+ (Waiting, s) (Waiting, s') else s' = s) \<longleftrightarrow>
     blk_task_iteration drv s = Some s'"
proof (cases "bk_kick (c0_blk s)")
  case True
  define s1 where "s1 = on_hyp (on_blk (\<lambda>b. b\<lparr>bk_kick := False\<rparr>)) s"
  define pc where "pc = (if bk_live (c0_blk s1)
    then Draining (avail_ring (c0_hyp s1)) (used_ring (c0_hyp s1)) False else Waiting)"
  have first: "task_step drv (Waiting, s) (pc, s1)"
    using task_step.take_kick [OF True s1_def] by (simp add: pc_def)
  have "task_steps drv (pc, s1) (Waiting, s') \<longleftrightarrow> blk_service drv s1 = Some s'"
  proof
    assume run: "task_steps drv (pc, s1) (Waiting, s')"
    have kick: "\<not> bk_kick (c0_blk s1)" by (simp add: s1_def)
    show "blk_service drv s1 = Some s'"
      using steps_rest [OF run kick]
      by (cases "bk_live (c0_blk s1)") (simp_all add: pc_def blk_service_def rest_drain_def case_prod_beta)
  next
    assume run: "blk_service drv s1 = Some s'"
    show "task_steps drv (pc, s1) (Waiting, s')"
    proof (cases "bk_live (c0_blk s1)")
      case True
      with run obtain r where
        drain: "blk_drain drv (avail_ring (c0_hyp s1)) (used_ring (c0_hyp s1)) False s1 = Some r"
        and s': "s' = drained (fst r) (snd r)" by (auto simp: blk_service_def)
      from drain_steps [OF drain] True show ?thesis unfolding s' by (simp only: pc_def if_True)
    next
      case False
      with run show ?thesis by (simp add: pc_def blk_service_def)
    qed
  qed
  moreover have "(task_step drv)\<^sup>+\<^sup>+ (Waiting, s) (Waiting, s') \<longleftrightarrow> task_steps drv (pc, s1) (Waiting, s')"
  proof
    assume "(task_step drv)\<^sup>+\<^sup>+ (Waiting, s) (Waiting, s')"
    from tranclpD [OF this] obtain c where c: "task_step drv (Waiting, s) c" "task_steps drv c (Waiting, s')"
      by blast
    from task_step_det [OF first c(1)] c(2) show "task_steps drv (pc, s1) (Waiting, s')" by (simp only:)
  qed (rule rtranclp_into_tranclp2 [where r = "task_step drv", OF first])
  moreover have "blk_task_iteration drv s = blk_service drv s1"
    using True by (simp add: blk_task_iteration_def s1_def)
  ultimately show ?thesis using True by simp
qed (auto simp: blk_task_iteration_def)

end
