(* ===== verification/Hyp_System.thy ===== *)
theory Hyp_System
  imports Hyp_Core Hyp_Service Hyp_Task
begin

text \<open>
  The two cores together. A machine is core 0's state (which contains the monitor that core 1 runs),
  the place where the block task is, and the service loop's variables; a step is one thing either
  core or the guest does. The theory shows what survives every interleaving of these steps from the
  first boot on, and what a request of the guest comes to.
\<close>

section \<open>The machine\<close>

record 'c machine =
  mc_core0 :: "'c core0"
  mc_task :: task_pc
  mc_service :: service

abbreviation mc_hyp :: "'c machine \<Rightarrow> hyp" where
  "mc_hyp s \<equiv> c0_hyp (mc_core0 s)"
abbreviation mc_mem :: "'c machine \<Rightarrow> mem" where
  "mc_mem s \<equiv> hv_mem (mc_hyp s)"
abbreviation mc_blk :: "'c machine \<Rightarrow> blk" where
  "mc_blk s \<equiv> hv_blk (mc_hyp s)"
abbreviation on_mc_hyp :: "(hyp \<Rightarrow> hyp) \<Rightarrow> 'c machine \<Rightarrow> 'c machine" where
  "on_mc_hyp g s \<equiv> s\<lparr>mc_core0 := on_hyp g (mc_core0 s)\<rparr>"

text \<open>The memory the guest may write: the PMP window that \<open>hyp_guest_core_entry\<close> sets up.\<close>

abbreviation guest_memory :: "u32 set" where
  "guest_memory \<equiv> region linux_base_address (unat linux_size)"

text \<open>
  Who steps: the guest between two traps, the monitor on a trap (the frame is what the vector
  saved), core 0's block task, core 0's service loop. A drain of the block queue takes a step for
  each descriptor, status byte, used element and used index, so the others run in between.
\<close>

datatype who = Guest mem | Trap frame | Blk_task | Service_loop

inductive machine_step :: "'c sd_driver \<Rightarrow> 'c machine \<Rightarrow> who \<Rightarrow> 'c machine \<Rightarrow> bool"
  for drv :: "'c sd_driver" where
  guest: "(\<And>x. x \<notin> guest_memory \<Longrightarrow> m x = mc_mem s x) \<Longrightarrow>
            machine_step drv s (Guest m) (on_mc_hyp (\<lambda>h. h\<lparr>hv_mem := m\<rparr>) s)"
| trap: "hypervisor f (mc_hyp s) = Some (True, f', h') \<Longrightarrow>
            machine_step drv s (Trap f) (on_mc_hyp (\<lambda>_. h') s)"
| task: "task_step drv (mc_task s, mc_core0 s) (pc, c) \<Longrightarrow>
            machine_step drv s Blk_task (s\<lparr>mc_core0 := c, mc_task := pc\<rparr>)"
| service: "service_iteration (mc_service s) (mc_hyp s) = (sv, h') \<Longrightarrow>
            machine_step drv s Service_loop (on_mc_hyp (\<lambda>_. h') s\<lparr>mc_service := sv\<rparr>)"

inductive_cases guest_stepE: "machine_step drv s (Guest m) s'"
inductive_cases trap_stepE: "machine_step drv s (Trap f) s'"
inductive_cases task_stepE: "machine_step drv s Blk_task s'"
inductive_cases service_stepE: "machine_step drv s Service_loop s'"
inductive_simps task_step_iff: "machine_step drv s Blk_task s'"
inductive_simps service_step_iff: "machine_step drv s Service_loop s'"

text \<open>
  Boot, in the order of the code: the images are loaded before the operating system starts,
  \<open>app_main\<close> brings up the card and releases the guest, and core 1 enters it; then any steps.
\<close>

definition booted :: "flash \<Rightarrow> sd_bringup \<Rightarrow> bool \<Rightarrow> bool \<Rightarrow> soc \<Rightarrow> core1_env \<Rightarrow> hyp \<Rightarrow> hyp option" where
  "booted fl p have_memory have_task c ev h =
     (case wrap_esp_startup_start_app fl h of
        None \<Rightarrow> None
      | Some (loaded, h) \<Rightarrow>
          (case app_main_start loaded p have_memory have_task h of
             (released, h) \<Rightarrow>
               if \<not> released then None
               else
                 case wrap_xPortStartScheduler c ev h of
                   Some (h, Guest_core (Some _)) \<Rightarrow> Some h
                 | _ \<Rightarrow> None))"

inductive boot_state :: "'c machine \<Rightarrow> bool" where
  "booted fl p have_memory have_task c ev (reset_hyp hst m) = Some h \<Longrightarrow> length bounce = 32768 \<Longrightarrow>
     boot_state \<lparr>mc_core0 = \<lparr>c0_hyp = h, c0_card = cd, c0_bounce = bounce\<rparr>,
                 mc_task = Waiting, mc_service = service_init\<rparr>"

inductive reachable :: "'c sd_driver \<Rightarrow> 'c machine \<Rightarrow> bool" for drv :: "'c sd_driver" where
  boot: "boot_state s \<Longrightarrow> reachable drv s"
| step: "reachable drv s \<Longrightarrow> machine_step drv s w s' \<Longrightarrow> reachable drv s'"

text \<open>
  The monitor's own data (its statics, its stacks) is memory too, at addresses \<open>M\<close> that the linker
  chooses, outside the guest's window. \<open>machine_step\<close> keeps it in records, apart from \<open>mc_mem\<close>; that is
  what the chip does for as long as nothing but the monitor's code writes to \<open>M\<close>. A block request can
  name an address there (\<open>gpa\<close> checks nothing), and then all that the records hold may change with it:
  nothing is known of the state but its memory. \<open>chip_step\<close> says so.
\<close>

inductive chip_step :: "'c sd_driver \<Rightarrow> u32 set \<Rightarrow> 'c machine \<Rightarrow> who \<Rightarrow> 'c machine \<Rightarrow> bool"
  for drv :: "'c sd_driver" and M :: "u32 set" where
  intact: "machine_step drv s w s' \<Longrightarrow> (\<And>x. x \<in> M \<Longrightarrow> mc_mem s' x = mc_mem s x) \<Longrightarrow> chip_step drv M s w s'"
| overwritten: "machine_step drv s w s' \<Longrightarrow> x \<in> M \<Longrightarrow> mc_mem s' x \<noteq> mc_mem s x \<Longrightarrow>
    mc_mem t = mc_mem s' \<Longrightarrow> chip_step drv M s w t"

text \<open>The states of the chip as long as no step of the block task has the means to write to \<open>M\<close>.\<close>

inductive reachable_sparing :: "'c sd_driver \<Rightarrow> u32 set \<Rightarrow> 'c machine \<Rightarrow> bool"
  for drv :: "'c sd_driver" and M :: "u32 set" where
  boot: "boot_state s \<Longrightarrow> reachable_sparing drv M s"
| step: "reachable_sparing drv M s \<Longrightarrow> chip_step drv M s w s' \<Longrightarrow>
    (w = Blk_task \<Longrightarrow> footprint (mc_task s) (mc_core0 s) \<inter> M = {}) \<Longrightarrow> reachable_sparing drv M s'"

section \<open>What core 0 leaves alone\<close>

lemma core1_view_inv: "core1_view h' = core1_view h \<Longrightarrow> hyp_inv h' = hyp_inv h"
  by (simp add: core1_view_def hyp_inv_def dev_inv_def)

lemma stats_dump_frame:
  "core1_view (hyp_stats_dump h) = core1_view h" "hv_mem (hyp_stats_dump h) = hv_mem h"
proof -
  have "core1_view (fold (\<lambda>l. hw (Printf l)) ls h) = core1_view h \<and>
      hv_mem (fold (\<lambda>l. hw (Printf l)) ls h) = hv_mem h" for ls
    by (induction ls arbitrary: h) simp_all
  then show "core1_view (hyp_stats_dump h) = core1_view h" "hv_mem (hyp_stats_dump h) = hv_mem h"
    by (simp_all add: hyp_stats_dump_def)
qed

lemma trace_dump_core1_view [simp]: "core1_view (hyp_trace_dump w h) = core1_view h"
  by (simp add: hyp_trace_dump_def core1_view_def Let_def trace_dump_loop_eq)

lemma service_loop_frame:
  assumes "service_iteration sv h = (sv', h')"
  shows "core1_view h' = core1_view h \<and> hv_mem h' = hv_mem h"
proof -
  define g where "g = (if hv_stats_wanted h then hyp_stats_dump (h\<lparr>hv_stats_wanted := False\<rparr>) else h)"
  have g: "core1_view g = core1_view h" "hv_mem g = hv_mem h"
    by (simp_all add: g_def stats_dump_frame)
  have dumps: "core1_view (on_trace (\<lambda>t. t\<lparr>tc_dumps := d\<rparr>) k) = core1_view k" for d k
    by (simp add: core1_view_def)
  have mem: "hv_mem (on_trace j k) = hv_mem k" "hv_mem (hw c k) = hv_mem k" for j k c
    by simp_all
  obtain report where "h' = hw (Call ''vTaskDelay pdMS_TO_TICKS'' [100])
      (if report then hyp_stats_dump (hyp_trace_dump ''liveness''
         (on_trace (\<lambda>t. t\<lparr>tc_dumps := 0\<rparr>) (hw (Printf (Wedge_line (sv_quiet_ticks sv'))) g))) else g)"
    using assms unfolding service_iteration_def g_def Let_def by (auto split: prod.splits)
  with g show ?thesis
    by (cases report) (simp_all only: core1_view_hw stats_dump_frame trace_dump_core1_view dumps if_True if_False
        hyp_trace_dump_frame(1) mem simp_thms)
qed

section \<open>Boot keeps the invariant\<close>

lemma window_map_inv:
  "window_map_from_flash fl w h = (e, w', h') \<Longrightarrow> hyp_inv h' = hyp_inv h"
  by (auto simp: window_map_from_flash_def Let_def split: option.splits prod.splits if_splits)

lemma patch_window_inv:
  "patch_dtb_window n a sz h = (found, h') \<Longrightarrow> hyp_inv h' = hyp_inv h"
  by (auto simp: patch_dtb_window_def Let_def split: option.splits if_splits)

lemma load_windows_inv:
  "load_windows fl ws h = (ok, ws', h') \<Longrightarrow> hyp_inv h' = hyp_inv h"
proof (induction fl ws h arbitrary: ok ws' h' rule: load_windows.induct)
  case (2 fl w ws h)
  then show ?case
    by (auto split: prod.splits if_splits dest!: window_map_inv patch_window_inv)
qed simp

lemma partition_cp_inv: "partition_cp_to_psram fl l d n h = (e, h') \<Longrightarrow> hyp_inv h' = hyp_inv h"
  by (auto simp: partition_cp_to_psram_def Let_def split: option.splits if_splits)

lemma cmdline_inv: "patch_guest_cmdline sz h = Some (p, h') \<Longrightarrow> hyp_inv h' = hyp_inv h"
  by (auto simp: patch_guest_cmdline_def split: option.splits if_splits)

lemma load_guest_inv:
  assumes "hyp_load_guest fl h = Some (loaded, h')"
  shows "hyp_inv h' = hyp_inv h"
proof -
  obtain e1 h1 where kernel: "partition_cp_to_psram fl ''kernel'' linux_base_address 0 h = (e1, h1)" by fastforce
  let ?h1 = "hw (Printf (Text ''I: Copied Linux Image to PSRAM'' [])) h1"
  obtain e2 h2 where dtb: "partition_cp_to_psram fl ''dtb'' dtb_address 0 ?h1 = (e2, h2)" by fastforce
  let ?h2 = "hw (Printf (Text ''I: Copied DTB to PSRAM'' [])) h2"
  obtain ok ws h3 where windows: "load_windows fl guest_windows ?h2 = (ok, ws, h3)"
    by (cases "load_windows fl guest_windows ?h2") auto
  have inv: "hyp_inv h1 = hyp_inv h" "hyp_inv h2 = hyp_inv h" "hyp_inv h3 = hyp_inv h"
    using partition_cp_inv [OF kernel] partition_cp_inv [OF dtb] load_windows_inv [OF windows] by simp_all
  have log: "hyp_inv (if a then hw x b else hw y b) = hyp_inv b" for a b x y
    by simp
  show ?thesis
    using assms unfolding hyp_load_guest_def Let_def kernel prod.case dtb windows
    by (simp only: split: if_splits) (use inv in \<open>auto dest!: cmdline_inv simp: log\<close>)
qed

lemma sd_init_inv: "hyp_inv h \<Longrightarrow> hyp_inv (snd (hyp_sd_init p h))"
  by (auto simp: hyp_sd_init_def Let_def) (auto simp: hyp_inv_def dev_inv_def)

lemma blk_init_inv: "hyp_inv (snd (hyp_virtio_blk_init m t h)) = hyp_inv h"
  by (simp add: hyp_virtio_blk_init_def Let_def)

lemma app_main_inv:
  assumes "app_main_start loaded p m t h = (released, h')" and "hyp_inv h"
  shows "hyp_inv h'"
proof -
  obtain sd h1 where sd: "hyp_sd_init p h = (sd, h1)" by fastforce
  obtain ok h2 where blk: "hyp_virtio_blk_init m t h1 = (ok, h2)" by fastforce
  from sd_init_inv [OF assms(2), of p] sd have "hyp_inv h1" by simp
  moreover from this blk_init_inv [of m t h1] blk have "hyp_inv h2" by simp
  ultimately show ?thesis
    using assms sd blk by (auto simp: app_main_start_def Let_def split: if_splits)
qed

lemma hw_all_inv [simp]: "hyp_inv (hw_all cs h) = hyp_inv h"
  by (induction cs arbitrary: h) simp_all

lemma setup_interrupts_inv [simp]: "hyp_inv (hyp_setup_interrupts c ev core h) = hyp_inv h"
  by (simp add: hyp_setup_interrupts_def hyp_clic_sanitize_def Let_def del: upt_conv_Cons upt_rec_numeral fold_simps)

lemma guest_entry_inv:
  assumes "hyp_guest_core_entry c ev h = Some (h', Some g)"
  shows "hyp_inv h' = hyp_inv h \<and> hv_running h'"
proof -
  let ?h = "hw (Call ''csrc mstatus'' [MSTATUS_MIE]) (hw (Call ''port_uxCoreStartupDone'' [ev_core_id ev, 1]) h)"
  obtain e h1 where pmp: "pmp_set_rwx_region ev linux_base_address linux_size ?h = (e, h1)" by fastforce
  from pmp have "hyp_inv h1 = hyp_inv h"
    by (auto simp: pmp_set_rwx_region_def Let_def split: if_splits)
  with assms pmp show ?thesis
    by (auto simp: hyp_guest_core_entry_def Let_def linux_start_def split: option.splits if_splits
        simp del: fold_simps)
qed

lemma booted_inv:
  assumes "booted fl p m t c ev h = Some h'" and "hyp_inv h"
  shows "hyp_inv h' \<and> hv_running h'"
proof -
  from assms(1) obtain loaded h1 h2 g where
    load: "wrap_esp_startup_start_app fl h = Some (loaded, h1)"
    and main: "app_main_start loaded p m t h1 = (True, h2)"
    and entry: "wrap_xPortStartScheduler c ev h2 = Some (h', Guest_core (Some g))"
    by (auto simp: booted_def split: option.splits prod.splits if_splits scheduler_start.splits)
  from load have "hyp_inv h1 = hyp_inv h"
    by (auto simp: wrap_esp_startup_start_app_def dest!: load_guest_inv)
  with assms(2) main have "hyp_inv h2" using app_main_inv by blast
  moreover from entry have "hyp_guest_core_entry c ev (hw (Call ''mv sp, hyp_boot_stack'' []) h2) = Some (h', Some g)"
    by (auto simp: wrap_xPortStartScheduler_def split: if_splits)
  ultimately show ?thesis using guest_entry_inv by fastforce
qed

section \<open>Every reachable state is well formed\<close>

lemma step_inv:
  assumes "machine_step drv s w s'" and "hyp_inv (mc_hyp s)" and "hv_running (mc_hyp s)"
  shows "hyp_inv (mc_hyp s') \<and> hv_running (mc_hyp s')"
  using assms(1)
proof cases
  case (guest m)
  with assms(2,3) show ?thesis by simp
next
  case (trap f f' h')
  with hypervisor_keeps [OF trap(3)] assms(2,3) show ?thesis by simp
next
  case (task pc c)
  let ?unkick = "on_blk (\<lambda>b. b\<lparr>bk_kick := False\<rparr>)"
  have view: "core1_view (?unkick (mc_hyp s')) = core1_view (?unkick (mc_hyp s))"
    using task_step_core1_view [OF task(3)] task(2) by simp
  have "hyp_inv (?unkick h) = hyp_inv h" for h by (simp add: hyp_inv_def dev_inv_def)
  with core1_view_inv [OF view] view assms(2,3) show ?thesis by (simp add: core1_view_def)
next
  case (service sv h')
  from service_loop_frame [OF service(3)] have "core1_view (mc_hyp s') = core1_view (mc_hyp s)"
    using service by simp
  with core1_view_inv [OF this] assms(2,3) show ?thesis by (simp add: core1_view_def)
qed

lemma boot_inv: "boot_state s \<Longrightarrow> hyp_inv (mc_hyp s) \<and> hv_running (mc_hyp s)"
  by (induction rule: boot_state.induct) (use booted_inv [OF _ hyp_inv_reset] in simp)

lemma reachable_inv:
  assumes "reachable drv s"
  shows "hyp_inv (mc_hyp s) \<and> hv_running (mc_hyp s)"
  using assms by induction (use boot_inv step_inv in blast)+

section \<open>Who writes where\<close>

lemma step_writes:
  assumes "machine_step drv s w s'" and "x \<notin> guest_memory" and "mc_mem s' x \<noteq> mc_mem s x"
    and "hyp_inv (mc_hyp s)"
  shows "w = Blk_task \<and> x \<in> footprint (mc_task s) (mc_core0 s)"
  using assms(1)
proof cases
  case (guest m)
  with assms(2,3) show ?thesis by simp
next
  case (trap f f' h')
  with hypervisor_keeps [OF trap(3) assms(4)] assms(3) show ?thesis by simp
next
  case (task pc c)
  then have "c0_mem c x \<noteq> c0_mem (mc_core0 s) x" using assms(3) by simp
  with task_step_footprint [OF task(3)] task(1) show ?thesis by blast
next
  case (service sv h')
  with service_loop_frame [OF service(3)] assms(3) show ?thesis by simp
qed

text \<open>A chip step that spares \<open>M\<close> is a step of the machine.\<close>

lemma chip_step_sparing:
  assumes "chip_step drv M s w s'" and "hyp_inv (mc_hyp s)" and "M \<inter> guest_memory = {}"
    and "w = Blk_task \<Longrightarrow> footprint (mc_task s) (mc_core0 s) \<inter> M = {}"
  shows "machine_step drv s w s'"
  using assms(1)
proof cases
  case (overwritten t x)
  then have "x \<notin> guest_memory" using assms(3) by blast
  from step_writes [OF overwritten(1) this overwritten(3) assms(2)] assms(4) overwritten(2)
  show ?thesis by blast
qed

text \<open>
  C2. Every state the chip reaches is well formed, as long as no block request names the monitor's own
  memory. Let \<open>M\<close> be the addresses of the monitor's data, outside the guest's window, and let no step of
  the block task be about to write there. Then from the state that a successful boot leaves, however
  the traps, the guest's own writes, the block task and the service loop interleave: the guest stays
  marked as running, its privilege is a real one, the receive ring's indices are in range, only the
  two wired interrupt sources are pending or in service and the interrupt lines agree with the
  devices, the stored \<open>mip\<close> has none of the wires, and the queue is live only if there is a card.
  (Nothing keeps a request from naming \<open>M\<close>; \<open>chip_step\<close> then leaves nothing known of the monitor.)
\<close>

theorem reachable_well_formed:
  assumes "reachable_sparing drv M s" and "M \<inter> guest_memory = {}"
  shows "hv_running (mc_hyp s) \<and> hv_priv (mc_hyp s) \<le> 3 \<and> uart_wf (hv_uart (mc_hyp s)) \<and>
    wiring (hv_plic (mc_hyp s)) (bk_interrupt_status (mc_blk s)) \<and>
    uart_wired (hv_uart (mc_hyp s)) (hv_plic (mc_hyp s)) \<and>
    \<not> bit (cs_mip (hv_shadow (mc_hyp s))) 7 \<and> \<not> bit (cs_mip (hv_shadow (mc_hyp s))) 11 \<and>
    (if bk_live (mc_blk s) then hv_sd_ready (mc_hyp s) else True)"
proof -
  from assms(1) have "hyp_inv (mc_hyp s) \<and> hv_running (mc_hyp s)"
  proof induction
    case (boot s)
    then show ?case by (rule boot_inv)
  next
    case (step s w s')
    then have "machine_step drv s w s'" using chip_step_sparing [OF step(2) _ assms(2)] by blast
    then show ?case using step_inv step.IH by blast
  qed
  then show ?thesis by (simp add: hyp_inv_def dev_inv_def)
qed

lemma step_begins:
  assumes "machine_step drv s w s'" and "mc_task s = Waiting" and "mc_task s' \<noteq> Waiting"
  shows "w = Blk_task \<and> bk_kick (mc_blk s) \<and> bk_live (mc_blk s)"
  using assms(1)
proof cases
  case (task pc c)
  with assms(2,3) task_step_begins [of drv "mc_core0 s" pc c] show ?thesis by simp
qed (use assms(2,3) in auto)

text \<open>
  C3. Nothing but a block request can change memory outside the guest's window. In any reachable
  state, a step that changes a byte there is the block task's, and the byte lies in the buffer of the
  descriptor the task is at, is the status byte of the request, or belongs to the element or the index
  of the used ring, in this order of its steps; and the task begins to drain only when the guest has
  kicked a queue that it has made live, and there is a card. Traps and the service loop write no
  memory at all.
\<close>

theorem foreign_writes_are_requests:
  assumes "reachable drv s" and "machine_step drv s w s'"
  shows "(\<forall>x. x \<notin> guest_memory \<longrightarrow>
            mc_mem s' x = mc_mem s x \<or> w = Blk_task \<and> x \<in> footprint (mc_task s) (mc_core0 s)) \<and>
         (mc_task s = Waiting \<longrightarrow> mc_task s' = Waiting \<or>
            w = Blk_task \<and> bk_kick (mc_blk s) \<and> bk_live (mc_blk s) \<and> hv_sd_ready (mc_hyp s))"
  using step_writes [OF assms(2)] step_begins [OF assms(2)] reachable_inv [OF assms(1)]
  by (auto simp: hyp_inv_def dev_inv_def)

section \<open>A concrete machine\<close>

text \<open>The demonstration flash and no card: a boot that succeeds.\<close>

definition no_card :: sd_bringup where
  "no_card = \<lparr>ldo_err = 0, host_init_err = 0, slot_err = 0, card_err = 0x107, csd_capacity = 0,
              csd_sector_size = 0, is_sdio = False, is_mmc = False, log_bus_width = 0, max_freq_khz = 0\<rparr>"

lemma demo_booted: "\<exists>h. booted demo_flash no_card False False demo_soc demo_env (reset_hyp quiet_host (\<lambda>_. 0)) = Some h"
proof -
  have "hv_mem (reset_hyp quiet_host (\<lambda>_. 0)) = (\<lambda>_. 0)" by (simp add: reset_hyp_def)
  then obtain h1 where load: "hyp_load_guest demo_flash (reset_hyp quiet_host (\<lambda>_. 0)) = Some (True, h1)"
    using demo_load by blast
  let ?h1 = "hw (Call ''__real_esp_startup_start_app'' []) h1"
  have "fst (app_main_start True no_card False False ?h1) = True" by (rule app_main_start_releases)
  then obtain h2 where main: "app_main_start True no_card False False ?h1 = (True, h2)"
    by (cases "app_main_start True no_card False False ?h1") (simp only: fst_conv)
  have core: "ev_core_id demo_env \<noteq> 0" by (simp add: demo_env_def)
  let ?h2 = "hw (Call ''mv sp, hyp_boot_stack'' []) h2"
  obtain h3 where entry: "hyp_guest_core_entry demo_soc demo_env ?h2 = Some (h3, Some (snd (linux_start demo_env ?h2)))"
    using demo_entry by blast
  have start: "wrap_esp_startup_start_app demo_flash (reset_hyp quiet_host (\<lambda>_. 0)) = Some (True, ?h1)"
    by (simp only: wrap_esp_startup_start_app_def load option.map prod.case)
  have guest: "wrap_xPortStartScheduler demo_soc demo_env h2 = Some (h3, Guest_core (Some (snd (linux_start demo_env ?h2))))"
    by (simp only: wrap_xPortStartScheduler_def core if_True entry option.map prod.case not_False_eq_True)
  show ?thesis
    by (simp only: booted_def start main guest option.case prod.case scheduler_start.case if_False
        not_True_eq_False) blast
qed

lemma demo_boot_state: "\<exists>s :: (nat \<Rightarrow> u8) machine. boot_state s"
  using demo_booted boot_state.intros by (metis length_replicate)

lemma service_step_exists: "\<exists>s'. machine_step drv s Service_loop s' \<and> mc_mem s' = mc_mem s"
proof -
  obtain sv h' where it: "service_iteration (mc_service s) (mc_hyp s) = (sv, h')" by fastforce
  have "machine_step drv s Service_loop (on_mc_hyp (\<lambda>_. h') s\<lparr>mc_service := sv\<rparr>)"
    using it by (rule machine_step.service)
  moreover have "mc_mem (on_mc_hyp (\<lambda>_. h') s\<lparr>mc_service := sv\<rparr>) = mc_mem s"
    using service_loop_frame [OF it] by simp
  ultimately show ?thesis by blast
qed

text \<open>A boot and a round of the service loop, with the monitor's data in the chip's internal memory.\<close>

theorem reachable_well_formed_witness:
  "\<exists>s s'. boot_state s \<and> chip_step ram_driver (region 0x4FF00000 0xC0000) s Service_loop s' \<and>
     hv_running (mc_hyp s') \<and> hv_priv (mc_hyp s') \<le> 3"
proof -
  let ?M = "region 0x4FF00000 0xC0000"
  obtain s :: "(nat \<Rightarrow> u8) machine" where s: "boot_state s" using demo_boot_state by blast
  obtain s' where "machine_step ram_driver s Service_loop s'" "mc_mem s' = mc_mem s"
    using service_step_exists by blast
  then have chip: "chip_step ram_driver ?M s Service_loop s'" by (intro chip_step.intact) simp_all
  have "reachable_sparing ram_driver ?M s'"
    by (rule reachable_sparing.step [OF reachable_sparing.boot [OF s] chip]) simp
  moreover have "?M \<inter> guest_memory = {}"
    by (rule region_disjoint) (simp_all add: linux_base_address_def linux_size_def)
  ultimately show ?thesis using reachable_well_formed s chip by blast
qed

theorem foreign_writes_are_requests_witness:
  "\<exists>s s'. reachable ram_driver s \<and> machine_step ram_driver s Service_loop s' \<and> mc_mem s' 0 = mc_mem s 0"
proof -
  obtain s :: "(nat \<Rightarrow> u8) machine" where s: "reachable ram_driver s"
    using demo_boot_state reachable.boot by blast
  obtain s' where step: "machine_step ram_driver s Service_loop s'" using service_step_exists by blast
  have "(0 :: u32) \<notin> guest_memory"
    by (simp add: region_iff linux_base_address_def linux_size_def unat_sub_if_size)
  with foreign_writes_are_requests [OF s step] s step show ?thesis by blast
qed

end
