(* ===== verification/Hyp_Console.thy ===== *)
theory Hyp_Console
  imports Hyp_Core
begin

text \<open>
  The way of a typed character: the host's UART, the poll on core 1, the emulated 16550's ring and
  line, the PLIC, the injection into the guest, and the guest's own load from the receive buffer
  register, which is a trap again. Two traps of \<open>hypervisor\<close>, with every component in between.
\<close>

section \<open>A source the guest listens to\<close>

text \<open>The guest has enabled source \<open>n\<close> all the way: at the PLIC, in \<open>mie\<close>, in \<open>mstatus\<close>.\<close>

definition listening :: "nat \<Rightarrow> hyp \<Rightarrow> bool" where
  "listening n h \<longleftrightarrow>
     bit (cs_mstatus (hv_shadow h)) 3 \<and> bit (cs_mie (hv_shadow h)) 11 \<and> cs_mtvec (hv_shadow h) \<noteq> 0 \<and>
     bit (pl_enable (hv_plic h)) n \<and> \<not> bit (pl_claimed (hv_plic h)) n \<and>
     pl_priority (hv_plic h) n > pl_threshold (hv_plic h)"

lemma poll_keeps_plic:
  "pl_enable (hv_plic (hyp_poll_host_devices h)) = pl_enable (hv_plic h)"
  "pl_claimed (hv_plic (hyp_poll_host_devices h)) = pl_claimed (hv_plic h)"
  "pl_priority (hv_plic (hyp_poll_host_devices h)) = pl_priority (hv_plic h)"
  "pl_threshold (hv_plic (hyp_poll_host_devices h)) = pl_threshold (hv_plic h)"
  by (simp_all add: hyp_poll_host_devices_def Let_def uart_drain_eq v16550_reeval_def
      hyp_virtio_blk_poll_def blk_line_def plic_set_pending_def)

lemma trap_entry_devices [simp]:
  "hv_uart (trap_entry f h) = hv_uart h" "hv_blk (trap_entry f h) = hv_blk h"
  "in_poll (hv_host (trap_entry f h)) = in_poll (hv_host h)"
  by (simp_all add: trap_entry_def hyp_trace_record_def rv_utils_get_cycle_count_def)

lemma source_deliverable:
  assumes "listening n h" and "bit (pl_pending (hv_plic (irq_entry f h))) n" and "n \<in> {1..31}"
  shows "MEI \<in> deliverable (irq_entry f h)"
proof -
  have "eligible (hv_plic (irq_entry f h)) n"
    using assms by (simp add: eligible_def listening_def irq_entry_def poll_keeps_plic)
  then have "meip_pending (hv_plic (irq_entry f h))"
    using plic_peek_cases unfolding meip_pending_def by blast
  with assms(1) show ?thesis by (simp add: deliverable_mem listening_def)
qed

text \<open>The first trap: what an asserted source that the guest listens to comes to.\<close>

lemma external_interrupt:
  assumes "hv_running h" and "bit (fr_mcause f) 31" and "listening n h"
    and "MEI \<in> deliverable (irq_entry f h)"
  shows "\<exists>f' h'. hypervisor f h = Some (True, f', h') \<and> fr_mepc f' = cs_mtvec (hv_shadow h) AND NOT 0x3 \<and>
    cs_mcause (hv_shadow h') = 0x8000000B \<and> cs_mepc (hv_shadow h') = fr_mepc f"
proof -
  have "deliverable (irq_entry f h) \<noteq> {}" "Max (deliverable (irq_entry f h)) = MEI"
    using assms(4) by (auto simp: Max_irqs(1))
  with host_interrupt [OF assms(1,2)] assms(3) show ?thesis by (auto simp: listening_def)
qed

section \<open>The ring between the two traps\<close>

lemma hypervisor_run_mem:
  assumes "hypervisor f h = Some (b, f', h')"
  shows "hv_running h' = hv_running h \<and> hv_mem h' = hv_mem h"
  using assms
proof (cases rule: hypervisor_cases)
  case (exc outcome t h1)
  then show ?thesis using dispatch.finish_keeps(1,2) [OF exc(3,4)] by simp
next
  case (irq h1)
  then show ?thesis using deliver_facts(1,2) [OF irq(4)] by simp
qed simp

lemma deliver_keeps_uart: "hv_uart (snd (hyp_deliver_pending f h)) = hv_uart h"
  by (cases rule: hyp_deliver_pending_cases [of f h]) auto

lemma account_uart [simp]:
  "hv_uart (account_exc c e r h) = hv_uart h" "hv_uart (account_irq s e h) = hv_uart h"
  by (simp_all add: account_exc_def account_irq_def Let_def case_prod_beta)

lemma interrupt_fills_ring:
  assumes "hypervisor f h = Some (True, f', h')" and "hv_running h" and "bit (fr_mcause f) 31"
    and "p = shd (in_poll (hv_host h))" and "rx_event p"
  shows "hv_uart h' = fold uart_rx_push (filter (\<lambda>c. c \<noteq> 0x1e) (hp_rx p)) (hv_uart h)"
proof -
  have "hv_uart (irq_entry f h) = fold uart_rx_push (filter (\<lambda>c. c \<noteq> 0x1e) (hp_rx p)) (hv_uart h)"
    using hyp_poll_host_devices_effect [of "on_stats (\<lambda>s. s\<lparr>st_irq_code_seen := fr_mcause f AND 0x7fffffff\<rparr>)
        (trap_entry f h)"] assms(4,5) by (simp add: irq_entry_def)
  moreover have "hv_uart h' = hv_uart (irq_entry f h)"
    using assms(1) by (auto simp: hypervisor_interrupt [OF assms(2,3)] deliver_keeps_uart)
  ultimately show ?thesis by simp
qed

lemma uart_line_waiting:
  "bit (ua_ier u) 0 \<Longrightarrow> uart_wf u \<Longrightarrow> rx_contents u \<noteq> [] \<Longrightarrow> uart_line u"
  by (simp add: uart_line_def Let_def rx_empty_iff flag_simps)

text \<open>The second trap: \<open>lbu\<close> of the receive buffer register takes the head of the ring.\<close>

lemma uart_read_byte:
  assumes "uart_wf (hv_uart h)" and "\<not> bit (ua_lcr (hv_uart h)) 7" and "rx_contents (hv_uart h) = c # cs"
  shows "fst (uart_read 0 1 h) = ucast c \<and> rx_contents (hv_uart (snd (uart_read 0 1 h))) = cs"
proof -
  have "uart_read 0 1 h = (ucast (fst (uart_reg_read 0 h)), snd (uart_reg_read 0 h))"
    by (simp add: uart_read_def case_prod_beta)
  with rx.pop_head [OF assms(1,3)] show ?thesis
    by (simp add: uart_rbr [OF assms(2)] uart_rx_pop_take)
qed

lemma load_takes_byte:
  assumes "hv_running h" and "uart_wf (hv_uart h)" and "\<not> bit (ua_lcr (hv_uart h)) 7"
    and "rx_contents (hv_uart h) = c # cs" and "fr_mcause g = 5" and "fr_mtval g = 0x10000000"
    and "trap_decode (hv_mem h) (trap_of g) = Some t" and "decode_ls (tr_encoding t) = Some (Load Byte False rd)"
    and "rd \<noteq> 0"
  shows "\<exists>g' h'. hypervisor g h = Some (True, g', h') \<and> reg_read g' rd = ucast c \<and>
                 rx_contents (hv_uart h') = cs"
proof -
  let ?h = "count_mmio 1 (trap_entry g h)"
  obtain v h1 where read: "uart_read 0 1 ?h = (v, h1)" by fastforce
  have uart: "hv_uart ?h = hv_uart h" by (simp add: count_mmio_def)
  have v: "v = ucast c" "rx_contents (hv_uart h1) = cs"
    using uart_read_byte [of ?h c cs] assms(2-4) read uart by simp_all
  have find: "mmio_find (tr_tval (trap_of g)) = Some (1, uart_device)"
    using assms(6) by (simp add: mmio_find_eq trap_of_def)
  define t' where "t' = t\<lparr>tr_frame := reg_write g rd v\<rparr>"
  have "hypervisor_mmio (trap_of g) (trap_entry g h) = (TRAP_ADVANCE, t', h1)"
    using hypervisor_mmio_spec [OF find, of "trap_entry g h" t] assms(6-8) read
    by (simp add: uart_device_def trap_of_def t'_def)
  then have step: "hypervisor_trap (trap_of g) (trap_entry g h) = Some (TRAP_ADVANCE, t', h1)"
    using find assms(5) by (simp add: hypervisor_trap_eq) (simp add: trap_of_def)
  have "tr_length t' \<noteq> 0" using trap_decode_length_nonzero [OF assms(7)] by (simp add: t'_def)
  then obtain g' h' where fin: "hypervisor g h = Some (True, g', h')"
    and del: "hyp_deliver_pending (set_mepc (fr_mepc (tr_frame t') + tr_length t') (tr_frame t'))
      (account_exc (fr_mcause g) (fst (rv_utils_get_cycle_count h)) TRAP_ADVANCE h1) = (g', h')"
    using hypervisor_exception [of h g] assms(1,5) step
    by (simp add: trap_finish_def Let_def) (metis prod.collapse)
  have "hv_uart h' = hv_uart h1"
    using deliver_keeps_uart [of "set_mepc (fr_mepc (tr_frame t') + tr_length t') (tr_frame t')"
        "account_exc (fr_mcause g) (fst (rv_utils_get_cycle_count h)) TRAP_ADVANCE h1"] del by simp
  moreover have "reg_read g' rd = ucast c"
    using deliver_facts(6) [OF del, of "unat rd"] unat_neq_0 [OF assms(9)] v(1)
    by (simp add: reg_read_def reg_write_def t'_def assms(9))
  ultimately show ?thesis using fin v(2) by auto
qed

section \<open>From the wire to the register\<close>

text \<open>
  C6. A character typed on the console reaches the guest. The ring is empty, the receive interrupt
  is enabled and the guest is listening. Then the host interrupt that brings in the characters
  \<open>c # cs\<close> (Ctrl-^ taken out) puts the guest into its handler with an external interrupt; and
  whenever the guest, with the 16550 as that trap left it, then executes an unsigned byte load of
  the receive buffer register, it gets \<open>c\<close>, and what the ring had room for of \<open>cs\<close> is next.
\<close>

theorem console_input_reaches_guest:
  assumes "hv_running h" and "uart_wf (hv_uart h)" and "bit (fr_mcause f) 31"
    and "p = shd (in_poll (hv_host h))" and "rx_event p" and "filter (\<lambda>x. x \<noteq> 0x1e) (hp_rx p) = c # cs"
    and "rx_contents (hv_uart h) = []" and "bit (ua_ier (hv_uart h)) 0" and "\<not> bit (ua_lcr (hv_uart h)) 7"
    and "listening 10 h"
  shows "\<exists>f' h'. hypervisor f h = Some (True, f', h') \<and>
    fr_mepc f' = cs_mtvec (hv_shadow h) AND NOT 0x3 \<and> cs_mcause (hv_shadow h') = 0x8000000B \<and>
    cs_mepc (hv_shadow h') = fr_mepc f \<and> rx_contents (hv_uart h') = c # take 510 cs \<and>
    (\<forall>g h2 t rd. hv_running h2 \<and> hv_uart h2 = hv_uart h' \<and> fr_mcause g = 5 \<and> fr_mtval g = 0x10000000 \<and>
       trap_decode (hv_mem h2) (trap_of g) = Some t \<and>
       decode_ls (tr_encoding t) = Some (Load Byte False rd) \<and> rd \<noteq> 0 \<longrightarrow>
       (\<exists>g' h3. hypervisor g h2 = Some (True, g', h3) \<and> reg_read g' rd = ucast c \<and>
                rx_contents (hv_uart h3) = take 510 cs))"
proof -
  let ?u = "fold uart_rx_push (c # cs) (hv_uart h)"
  let ?g = "on_stats (\<lambda>s. s\<lparr>st_irq_code_seen := fr_mcause f AND 0x7fffffff\<rparr>) (trap_entry f h)"
  have kept: "ua_ier (fold uart_rx_push xs u) = ua_ier u" "ua_lcr (fold uart_rx_push xs u) = ua_lcr u" for xs u
    by (induction xs arbitrary: u) (simp_all add: uart_rx_push_def Let_def)
  have u: "uart_wf ?u" "rx_contents ?u = c # take 510 cs" "bit (ua_ier ?u) 0" "\<not> bit (ua_lcr ?u) 7"
    using assms(2,7-9) rx.wf_push_all [OF assms(2), of "c # cs"] rx.contents_push_all [OF assms(2), of "c # cs"]
    by (simp_all only: kept) simp_all
  have poll: "hv_uart (hyp_poll_host_devices ?g) = ?u"
    "bit (pl_pending (hv_plic (hyp_poll_host_devices ?g))) 10 = uart_line (hv_uart (hyp_poll_host_devices ?g))"
    using hyp_poll_host_devices_effect [of ?g] assms(4-6) by simp_all
  have "uart_line ?u" using u by (intro uart_line_waiting) simp_all
  with poll have "bit (pl_pending (hv_plic (irq_entry f h))) 10" by (simp only: irq_entry_def)
  then have "MEI \<in> deliverable (irq_entry f h)"
    by (intro source_deliverable [OF assms(10)]) simp_all
  from external_interrupt [OF assms(1,3,10) this] obtain f' h' where
    trap: "hypervisor f h = Some (True, f', h')" "fr_mepc f' = cs_mtvec (hv_shadow h) AND NOT 0x3"
      "cs_mcause (hv_shadow h') = 0x8000000B" "cs_mepc (hv_shadow h') = fr_mepc f" by blast
  have "hv_uart h' = ?u"
    using interrupt_fills_ring [OF trap(1) assms(1,3-5)] assms(6) by simp
  then show ?thesis
    using trap u load_takes_byte by (intro exI [of _ f'] exI [of _ h'] conjI) (simp_all, blast?)
qed

text \<open>The host's UART holds ``hi''; the guest's handler later executes \<open>lbu t0, 0(a0)\<close> at address 0.\<close>

definition demo_typing :: hyp where
  "demo_typing = demo_hyp\<lparr>
     hv_host := quiet_host\<lparr>in_poll := sconst \<lparr>hp_alarm = False, hp_rxfifo_full = True, hp_rxfifo_tout = False,
                                               hp_rxfifo_ovf = False, hp_rx = [104, 105], hp_completed = False\<rparr>\<rparr>,
     hv_mem := lbu_code, hv_uart := demo_uart,
     hv_shadow := reset_shadow\<lparr>cs_mstatus := 0x8, cs_mie := 0x800, cs_mtvec := 0x48100001\<rparr>,
     hv_plic := \<lparr>pl_priority = \<lambda>_. 1, pl_enable = 0x400, pl_pending = 0, pl_claimed = 0, pl_threshold = 0\<rparr>\<rparr>"

definition demo_rbr_frame :: frame where
  "demo_rbr_frame = \<lparr>slots = \<lambda>_. 0, fr_mstatus = 0, fr_mcause = 5, fr_mtval = 0x10000000\<rparr>"

lemma demo_rbr_decode:
  "trap_decode lbu_code (trap_of demo_rbr_frame) =
     Some ((trap_of demo_rbr_frame)\<lparr>tr_encoding := 0x00054283, tr_length := 4\<rparr>)"
  by (simp add: trap_decode_def guest_fetch_def trap_of_def demo_rbr_frame_def rd16_def lbu_code_def)

theorem console_input_reaches_guest_witness:
  "\<exists>f' h' g' h3. hypervisor demo_irq_frame demo_typing = Some (True, f', h') \<and>
     cs_mcause (hv_shadow h') = 0x8000000B \<and>
     hypervisor demo_rbr_frame h' = Some (True, g', h3) \<and> reg_read g' 5 = 104 \<and>
     rx_contents (hv_uart h3) = [105]"
proof -
  let ?p = "shd (in_poll (hv_host demo_typing))"
  have facts: "hv_running demo_typing" "uart_wf (hv_uart demo_typing)" "bit (fr_mcause demo_irq_frame) 31"
    "rx_event ?p" "filter (\<lambda>x. x \<noteq> 0x1e) (hp_rx ?p) = 104 # [105]" "rx_contents (hv_uart demo_typing) = []"
    "bit (ua_ier (hv_uart demo_typing)) 0" "\<not> bit (ua_lcr (hv_uart demo_typing)) 7" "listening 10 demo_typing"
    by (simp_all add: demo_typing_def demo_hyp_def demo_irq_frame_def demo_uart_def uart_wf_def UART_RX_RING_SIZE_def
        rx_event_def rx_contents_def ring_contents_def ring_len_def listening_def bit_numeral_rec)
  obtain f' h' where trap: "hypervisor demo_irq_frame demo_typing = Some (True, f', h')"
    "cs_mcause (hv_shadow h') = 0x8000000B"
    and next_load: "\<forall>g h2 t rd. hv_running h2 \<and> hv_uart h2 = hv_uart h' \<and> fr_mcause g = 5 \<and>
       fr_mtval g = 0x10000000 \<and> trap_decode (hv_mem h2) (trap_of g) = Some t \<and>
       decode_ls (tr_encoding t) = Some (Load Byte False rd) \<and> rd \<noteq> 0 \<longrightarrow>
       (\<exists>g' h3. hypervisor g h2 = Some (True, g', h3) \<and> reg_read g' rd = ucast (104 :: u8) \<and>
                rx_contents (hv_uart h3) = take 510 [105])"
    using console_input_reaches_guest [OF facts(1-3) refl facts(4-9)] by blast
  have "hv_running h'" "hv_mem h' = lbu_code"
    using hypervisor_run_mem [OF trap(1)] facts(1) by (simp_all add: demo_typing_def)
  moreover have "decode_ls 0x00054283 = Some (Load Byte False 5)" by (simp add: decode_ls_def)
  ultimately obtain g' h3 where "hypervisor demo_rbr_frame h' = Some (True, g', h3)" "reg_read g' 5 = 104"
    "rx_contents (hv_uart h3) = [105]"
    using next_load [rule_format, of h' demo_rbr_frame _ 5] demo_rbr_decode
    by (auto simp: demo_rbr_frame_def)
  with trap show ?thesis by blast
qed

end
