(* ===== verification/Hyp_Drain.thy ===== *)
theory Hyp_Drain
  imports Hyp_Blk
begin

text \<open>
  What draining the queue comes to (\<open>blk_service\<close> in \<open>main/hyp_virtio_blk.c\<close>): for a queue that the
  guest has laid out properly, the requests that are executed, their order, and what the used ring
  then holds.
\<close>

section \<open>Draining the queue\<close>

definition avail_region :: "'c core0 \<Rightarrow> u32 set" where
  "avail_region s = region (avail_ring (c0_hyp s)) (4 + 2 * unat (bk_queue_num (c0_blk s)))"

definition used_region :: "'c core0 \<Rightarrow> u32 set" where
  "used_region s = region (used_ring (c0_hyp s)) (4 + 8 * unat (bk_queue_num (c0_blk s)))"

definition avail_idx :: "'c core0 \<Rightarrow> u16" where
  "avail_idx s = rd16 (c0_mem s) (avail_ring (c0_hyp s) + 2)"

definition used_idx :: "'c core0 \<Rightarrow> u16" where
  "used_idx s = rd16 (c0_mem s) (used_ring (c0_hyp s) + 2)"

definition pending_head :: "'c core0 \<Rightarrow> u16 \<Rightarrow> u16" where
  "pending_head s i = rd16 (c0_mem s)
     (avail_ring (c0_hyp s) + 4 + 2 * (ucast i mod bk_queue_num (c0_blk s)))"

text \<open>The pending entries of the available ring, oldest first.\<close>

definition pending_heads :: "'c core0 \<Rightarrow> u16 list" where
  "pending_heads s =
     map (\<lambda>k. pending_head s (bk_last_avail (c0_blk s) + of_nat k))
       [0..<unat (avail_idx s - bk_last_avail (c0_blk s))]"

text \<open>An element of the used ring, \<open>id\<close> and \<open>len\<close>, by its running number.\<close>

definition used_elem :: "'c core0 \<Rightarrow> u16 \<Rightarrow> u32 \<times> u32" where
  "used_elem s i =
     (let a = used_ring (c0_hyp s) + 4 + 8 * (ucast i mod bk_queue_num (c0_blk s))
      in (rd32 (c0_mem s) a, rd32 (c0_mem s) (a + 4)))"

text \<open>
  Requests executed one after the other, each by \<open>blk_do_request\<close> with the length it returned; between
  two of them nothing happens but that bytes of the used ring \<open>U\<close> and the count of consumed entries
  change.
\<close>

definition published_only :: "u32 set \<Rightarrow> 'c core0 \<Rightarrow> 'c core0 \<Rightarrow> bool" where
  "published_only U s s' \<longleftrightarrow>
     (\<forall>x. x \<notin> U \<longrightarrow> c0_mem s' x = c0_mem s x) \<and>
     s' = s\<lparr>c0_hyp := (c0_hyp s)\<lparr>hv_mem := c0_mem s',
              hv_blk := (c0_blk s)\<lparr>bk_last_avail := bk_last_avail (c0_blk s')\<rparr>\<rparr>\<rparr>"

inductive executes :: "'c sd_driver \<Rightarrow> u32 set \<Rightarrow> (u16 \<times> u32) list \<Rightarrow> 'c core0 \<Rightarrow> 'c core0 \<Rightarrow> bool"
  for drv :: "'c sd_driver" and U :: "u32 set" where
  no_request: "executes drv U [] s s"
| request: "blk_do_request drv head s = Some (w, t) \<Longrightarrow> published_only U t s1 \<Longrightarrow>
    executes drv U rs s1 s' \<Longrightarrow> executes drv U ((head, w) # rs) s s'"

text \<open>
  A queue the guest has laid out properly: \<open>F\<close> is the memory holding descriptors, available ring
  and request headers; the used ring, the data buffers and the status bytes lie outside it, the
  buffers outside the used ring too; the size is a power of two, of at most 16 bits, as for any
  virtqueue; no more entries are pending than the queue has, and each is the head of a well-formed
  chain.
\<close>

definition request_ok :: "u32 set \<Rightarrow> 'c core0 \<Rightarrow> u16 \<Rightarrow> bool" where
  "request_ok F s head =
     (\<exists>type sector segs st. request_at s head type sector segs st \<and>
        region (gpa (desc_addr (c0_mem s) (desc_at (c0_hyp s) head))) 16 \<subseteq> F \<and>
        st \<notin> F \<union> used_region s \<and>
        (\<forall>(a, l) \<in> set segs. region a (unat l) \<inter> (F \<union> used_region s) = {}))"

definition well_queued :: "u32 set \<Rightarrow> 'c core0 \<Rightarrow> bool" where
  "well_queued F s =
     (bk_queue_num (c0_blk s) \<noteq> 0 \<and> 4 + 8 * unat (bk_queue_num (c0_blk s)) \<le> 2 ^ 32 \<and>
      table_region (desc_table (c0_hyp s)) (bk_queue_num (c0_blk s)) \<subseteq> F \<and>
      avail_region s \<subseteq> F \<and> used_region s \<inter> F = {} \<and>
      2 ^ 16 mod unat (bk_queue_num (c0_blk s)) = 0 \<and>
      unat (avail_idx s - bk_last_avail (c0_blk s)) \<le> unat (bk_queue_num (c0_blk s)) \<and>
      (\<forall>k < unat (avail_idx s - bk_last_avail (c0_blk s)).
         request_ok F s (pending_head s (bk_last_avail (c0_blk s) + of_nat k))))"

text \<open>What such a queue depends on: the queue's registers and the memory \<open>F\<close>.\<close>

definition queue_regs where
  "queue_regs s = (bk_queue_pfn (c0_blk s), bk_guest_page_size (c0_blk s),
                   bk_queue_num (c0_blk s), bk_queue_align (c0_blk s))"

lemma queue_regsD:
  assumes "queue_regs s' = queue_regs s"
  shows "desc_table (c0_hyp s') = desc_table (c0_hyp s)"
    "bk_queue_num (c0_blk s') = bk_queue_num (c0_blk s)"
    "avail_ring (c0_hyp s') = avail_ring (c0_hyp s)" "used_ring (c0_hyp s') = used_ring (c0_hyp s)"
    "desc_at (c0_hyp s') i = desc_at (c0_hyp s) i"
    "avail_region s' = avail_region s" "used_region s' = used_region s"
  using assms
  by (simp_all add: queue_regs_def desc_table_def desc_at_def avail_ring_def used_ring_def
      avail_region_def used_region_def)

lemma chain_cong:
  assumes "chain m tbl num i segs st" and "num \<noteq> 0"
    and "\<And>x. x \<in> table_region tbl num \<Longrightarrow> m x = m' x"
  shows "chain m' tbl num i segs st"
  using assms(1)
proof induction
  case (chain_status d i st)
  with desc_fields_cong [OF assms(2,3) chain_status(2)] show ?case by simp
next
  case (chain_data d i segs st)
  with desc_fields_cong [OF assms(2,3) chain_data(2)] chain.chain_data [of m' d tbl num i segs st]
  show ?case by simp
qed

lemma request_at_cong:
  assumes "request_at s head type sector segs st" and "queue_regs s' = queue_regs s"
    and "\<And>x. x \<in> F \<Longrightarrow> c0_mem s x = c0_mem s' x"
    and "table_region (desc_table (c0_hyp s)) (bk_queue_num (c0_blk s)) \<subseteq> F"
    and "region (gpa (desc_addr (c0_mem s) (desc_at (c0_hyp s) head))) 16 \<subseteq> F"
  shows "request_at s' head type sector segs st \<and>
         desc_addr (c0_mem s') (desc_at (c0_hyp s') head) = desc_addr (c0_mem s) (desc_at (c0_hyp s) head)"
proof -
  define d where "d = desc_pos (desc_table (c0_hyp s)) (bk_queue_num (c0_blk s)) head"
  define hdr where "hdr = gpa (desc_addr (c0_mem s) d)"
  note r = assms(1) [unfolded request_at_def Let_def, folded d_def, folded hdr_def]
  then have num: "bk_queue_num (c0_blk s) \<noteq> 0" by blast
  have agree: "\<And>x. x \<in> table_region (desc_table (c0_hyp s)) (bk_queue_num (c0_blk s)) \<Longrightarrow>
      c0_mem s x = c0_mem s' x"
    using assms(3,4) by blast
  note f = desc_fields_cong [OF num agree d_def]
  have sub: "region hdr 16 \<subseteq> F"
    using assms(5) by (simp add: desc_at_pos hdr_def d_def)
  have "rd32 (c0_mem s) hdr = rd32 (c0_mem s') hdr"
    using assms(3) sub region_mono [of 4 16 hdr] by (intro rd32_cong) auto
  moreover have "rd64 (c0_mem s) (hdr + 8) = rd64 (c0_mem s') (hdr + 8)"
    using assms(3) sub region_shift [of 8 8 16 hdr] by (intro rd64_cong) auto
  moreover have "chain (c0_mem s') (desc_table (c0_hyp s)) (bk_queue_num (c0_blk s))
      (desc_next (c0_mem s) d) segs st"
    using r by (intro chain_cong [OF _ num agree]) auto
  moreover have hdr': "gpa (desc_addr (c0_mem s') d) = hdr" by (simp add: hdr_def f(1))
  ultimately have "request_at s' head type sector segs st"
    using r unfolding request_at_def Let_def queue_regsD [OF assms(2)] d_def [symmetric] hdr'
    by (simp add: f)
  moreover have "desc_at (c0_hyp s') head = d" "desc_at (c0_hyp s) head = d"
    by (simp_all add: queue_regsD [OF assms(2)] desc_at_pos d_def)
  ultimately show ?thesis using f(1) by simp
qed

text \<open>One request of such a queue: it returns, and leaves \<open>F\<close> and the used ring alone.\<close>

lemma serve_request:
  assumes "request_ok F s head"
  shows "\<exists>w s'. blk_do_request drv head s = Some (w, s') \<and> ring_regs s' = ring_regs s \<and>
                (\<forall>x \<in> F \<union> used_region s. c0_mem s' x = c0_mem s x)"
proof -
  from assms obtain type sector segs st where r: "request_at s head type sector segs st"
    and st: "st \<notin> F \<union> used_region s"
    and segs: "\<forall>(a, l) \<in> set segs. region a (unat l) \<inter> (F \<union> used_region s) = {}"
    unfolding request_ok_def by blast
  obtain ok w s1 where run: "blk_segments drv type segs sector 0 s = (ok, w, s1)"
    by (metis prod_cases3)
  have "x \<notin> region a (unat l)" if "x \<in> F \<union> used_region s" "(a, l) \<in> set segs" for x a l
    using segs that by blast
  then have "\<forall>x \<in> F \<union> used_region s. c0_mem s1 x = c0_mem s x" and "ring_regs s1 = ring_regs s"
    using blk_segments_frame [OF run] by fast+
  with st blk_do_request_chain [OF r run] show ?thesis
    by (auto simp: blk_finish_def Let_def ring_regs_def)
qed

text \<open>Publishing it: the entry, then the index, and nothing outside the used ring.\<close>

lemma used_parts:
  assumes "bk_queue_num (c0_blk s) \<noteq> 0"
  shows "region (used_ring (c0_hyp s) + 2) 2 \<subseteq> used_region s"
    "region (used_slot (used_ring (c0_hyp s)) s) 4 \<subseteq> used_region s"
    "region (used_slot (used_ring (c0_hyp s)) s + 4) 4 \<subseteq> used_region s"
proof -
  let ?used = "used_ring (c0_hyp s)" and ?num = "bk_queue_num (c0_blk s)"
  define j where "j = unat (ucast (rd16 (c0_mem s) (?used + 2)) mod ?num :: u32)"
  have j: "j < unat ?num" using assms by (simp add: j_def unat_mod unat_gt_0)
  have slot: "used_slot ?used s = ?used + of_nat (4 + 8 * j)"
    by (simp add: used_slot_def j_def)
  show "region (?used + 2) 2 \<subseteq> used_region s"
    using region_shift [of 2 2 "4 + 8 * unat ?num" ?used] by (simp add: used_region_def)
  show "region (used_slot ?used s) 4 \<subseteq> used_region s"
    unfolding slot used_region_def using j by (intro region_shift) simp
  have "region (?used + of_nat (4 + 8 * j + 4)) 4 \<subseteq> used_region s"
    unfolding used_region_def using j by (intro region_shift) simp
  then show "region (used_slot ?used s + 4) 4 \<subseteq> used_region s"
    by (simp add: slot algebra_simps)
qed

lemma used_slot_off_idx:
  assumes "bk_queue_num (c0_blk s) \<noteq> 0" and "4 + 8 * unat (bk_queue_num (c0_blk s)) \<le> 2 ^ 32"
    and "x \<in> region (used_slot (used_ring (c0_hyp s)) s) 8"
  shows "x \<notin> region (used_ring (c0_hyp s) + 2) 2"
proof
  let ?used = "used_ring (c0_hyp s)" and ?num = "bk_queue_num (c0_blk s)"
  define j where "j = unat (ucast (rd16 (c0_mem s) (?used + 2)) mod ?num :: u32)"
  have j: "j < unat ?num" using assms by (simp add: j_def unat_mod unat_gt_0)
  assume "x \<in> region (?used + 2) 2"
  moreover have "x \<in> region (?used + of_nat (4 + 8 * j)) 8"
    using assms(3) by (simp add: used_slot_def j_def add.assoc)
  ultimately show False
    using region_offsets_disjoint [of 2 2 "4 + 8 * j" 8 x ?used] j assms(2) by simp
qed

lemma used_slot_cong:
  "rd16 (c0_mem s') (used + 2) = rd16 (c0_mem s) (used + 2) \<Longrightarrow>
     bk_queue_num (c0_blk s') = bk_queue_num (c0_blk s) \<Longrightarrow> used_slot used s' = used_slot used s"
  by (simp add: used_slot_def)

text \<open>Elements of different slots do not overlap, and running numbers within one round have different slots.\<close>

lemma used_slot_elem: "used_slot (used_ring (c0_hyp s)) s =
    used_ring (c0_hyp s) + 4 + 8 * (ucast (used_idx s) mod bk_queue_num (c0_blk s))"
  by (simp add: used_slot_def used_idx_def)

lemma elem_regions_disjoint:
  fixes num :: u32
  assumes "num \<noteq> 0" and "4 + 8 * unat num \<le> 2 ^ 32" and "p mod num \<noteq> q mod num"
    and "x \<in> region (used + 4 + 8 * (p mod num)) 8"
  shows "x \<notin> region (used + 4 + 8 * (q mod num)) 8"
proof
  define i j where "i = unat (p mod num)" and "j = unat (q mod num)"
  have ij: "i < unat num" "j < unat num" "i \<noteq> j"
    using assms(1,3) word_unat_eq_iff [of "p mod num" "q mod num"]
    by (simp_all add: i_def j_def unat_mod unat_gt_0)
  assume "x \<in> region (used + 4 + 8 * (q mod num)) 8"
  then have "x \<in> region (used + of_nat (4 + 8 * j)) 8" by (simp add: j_def add.assoc)
  moreover have "x \<in> region (used + of_nat (4 + 8 * i)) 8" using assms(4) by (simp add: i_def add.assoc)
  moreover have "4 + 8 * i + 8 \<le> 4 + 8 * j \<or> 4 + 8 * j + 8 \<le> 4 + 8 * i" using ij(3) by linarith
  moreover have "4 + 8 * i + 8 \<le> 2 ^ 32" "4 + 8 * j + 8 \<le> 2 ^ 32" using ij assms(2) by linarith+
  ultimately show False using region_offsets_disjoint by blast
qed

lemma slots_of_a_round:
  fixes i :: u16 and num :: u32
  assumes "2 ^ 16 mod unat num = 0" and "0 < k" and "k < unat num"
  shows "(ucast i :: u32) mod num \<noteq> ucast (i + of_nat k) mod num"
proof
  let ?n = "unat num"
  have up: "unat (ucast v :: u32) = unat v" for v :: u16
  proof -
    have "unat v < 2 ^ 16" using unsigned_less [of v, where ?'a = nat] by simp
    then show ?thesis by (simp add: unsigned_ucast_eq take_bit_nat_eq_self)
  qed
  assume "(ucast i :: u32) mod num = ucast (i + of_nat k) mod num"
  then have "unat i mod ?n = unat (i + of_nat k) mod ?n"
    by (metis up unat_mod)
  also have "unat (i + of_nat k) = (unat i + k) mod 2 ^ 16"
    by (simp add: unat_word_ariths unat_of_nat mod_add_right_eq)
  also have "\<dots> mod ?n = (unat i + k) mod ?n"
    using assms(1) by (intro mod_mod_cancel) (simp add: dvd_eq_mod_eq_0)
  finally have "(unat i + k) mod ?n = unat i mod ?n" ..
  then have "?n dvd k" using mod_eq_dvd_iff_nat [of "unat i" "unat i + k" ?n] by simp
  with assms(2,3) show False by (simp add: nat_dvd_not_less)
qed

lemma blk_publish_effect:
  assumes "bk_queue_num (c0_blk s) \<noteq> 0" and "4 + 8 * unat (bk_queue_num (c0_blk s)) \<le> 2 ^ 32"
    and "s' = blk_publish (used_ring (c0_hyp s)) head w s"
  shows "queue_regs s' = queue_regs s" "bk_live (c0_blk s') = bk_live (c0_blk s)"
    "bk_last_avail (c0_blk s') = bk_last_avail (c0_blk s) + 1"
    "\<And>x. x \<notin> used_region s \<Longrightarrow> c0_mem s' x = c0_mem s x"
    "used_idx s' = used_idx s + 1"
    "used_elem s' (used_idx s) = (ucast head, w)"
    "\<And>i. (ucast i :: u32) mod bk_queue_num (c0_blk s) \<noteq> ucast (used_idx s) mod bk_queue_num (c0_blk s) \<Longrightarrow>
       used_elem s' i = used_elem s i"
    "published_only (used_region s) s s'"
proof -
  let ?used = "used_ring (c0_hyp s)" and ?slot = "used_slot (used_ring (c0_hyp s)) s"
  let ?m1 = "wr32 ?slot (ucast head) (c0_mem s)"
  let ?m2 = "wr32 (?slot + 4) w ?m1"
  note parts = used_parts [OF assms(1)]
  have "region ?slot 4 \<subseteq> region ?slot 8" "region (?slot + 4) 4 \<subseteq> region ?slot 8"
    using region_mono [of 4 8 ?slot] region_shift [of 4 4 8 ?slot] by simp_all
  then have off: "x \<notin> region ?slot 4" "x \<notin> region (?slot + 4) 4" if "x \<in> region (?used + 2) 2" for x
    using used_slot_off_idx [OF assms(1,2)] that by blast+
  have idx1: "rd16 ?m1 (?used + 2) = rd16 (c0_mem s) (?used + 2)"
    by (rule rd16_cong) (simp add: off wr32_frame)
  have idx2: "rd16 ?m2 (?used + 2) = rd16 (c0_mem s) (?used + 2)"
    by (rule rd16_cong) (simp add: off wr32_frame)
  define s1 where "s1 = on_mem (wr32 ?slot (ucast head)) s"
  have slot1: "used_slot ?used s1 = ?slot"
    by (rule used_slot_cong) (simp_all add: s1_def idx1)
  define s2 where "s2 = on_mem (wr32 (used_slot ?used s1 + 4) w) s1"
  have s2: "c0_mem s2 = ?m2" unfolding s2_def slot1 by (simp add: s1_def)
  have "c0_mem s' = wr16 (?used + 2) (rd16 (c0_mem s2) (?used + 2) + 1) (c0_mem s2)"
    unfolding assms(3) blk_publish_def Let_def s2_def s1_def by simp
  then have mem: "c0_mem s' = wr16 (?used + 2) (rd16 (c0_mem s) (?used + 2) + 1) ?m2"
    unfolding s2 idx2 .
  show qr: "queue_regs s' = queue_regs s" and "bk_live (c0_blk s') = bk_live (c0_blk s)"
    and "bk_last_avail (c0_blk s') = bk_last_avail (c0_blk s) + 1"
    unfolding assms(3) by (simp_all add: blk_publish_def Let_def queue_regs_def)
  show frame: "c0_mem s' x = c0_mem s x" if "x \<notin> used_region s" for x
  proof -
    have "x \<notin> region (?used + 2) 2" "x \<notin> region ?slot 4" "x \<notin> region (?slot + 4) 4"
      using that parts by blast+
    then show ?thesis unfolding mem by (simp only: wr16_frame wr32_frame not_False_eq_True)
  qed
  show "used_idx s' = used_idx s + 1"
    unfolding used_idx_def queue_regsD [OF qr] mem by simp
  have keep: "rd32 (wr16 (?used + 2) v ?m2) a = rd32 ?m2 a"
    if "region a 4 \<subseteq> region ?slot 8" for v a
    using that used_slot_off_idx [OF assms(1,2)] by (intro rd32_cong wr16_frame) blast
  have len: "rd32 (c0_mem s') (?slot + 4) = w"
    unfolding mem by (subst keep) (use region_shift [of 4 4 8 ?slot] in simp_all)
  have "rd32 ?m2 ?slot = rd32 ?m1 ?slot"
  proof (intro rd32_cong wr32_frame notI)
    fix x assume "x \<in> region ?slot 4" "x \<in> region (?slot + 4) 4"
    then show False using region_offsets_disjoint [of 0 4 4 4 x ?slot] by simp
  qed
  then have "rd32 (c0_mem s') ?slot = ucast head"
    unfolding mem by (subst keep) (use region_mono [of 4 8 ?slot] in simp_all)
  with len show "used_elem s' (used_idx s) = (ucast head, w)"
    by (simp add: used_elem_def Let_def queue_regsD [OF qr] used_slot_elem)
  show "used_elem s' i = used_elem s i"
    if other: "(ucast i :: u32) mod bk_queue_num (c0_blk s) \<noteq> ucast (used_idx s) mod bk_queue_num (c0_blk s)" for i
  proof -
    let ?num = "bk_queue_num (c0_blk s)"
    let ?a = "?used + 4 + 8 * (ucast i mod ?num)"
    define j where "j = unat (ucast i mod ?num :: u32)"
    have j: "j < unat ?num" using assms(1) by (simp add: j_def unat_mod unat_gt_0)
    have a: "?a = ?used + of_nat (4 + 8 * j)" by (simp add: j_def add.assoc)
    have same: "c0_mem s' x = c0_mem s x" if x: "x \<in> region ?a 8" for x
    proof -
      have "x \<notin> region ?slot 8"
        unfolding used_slot_elem by (rule elem_regions_disjoint [OF assms(1,2) other x])
      moreover have "x \<notin> region (?used + 2) 2"
        using region_offsets_disjoint [of 2 2 "4 + 8 * j" 8 x ?used] x j assms(2) unfolding a by auto
      moreover have "region ?slot 4 \<subseteq> region ?slot 8" "region (?slot + 4) 4 \<subseteq> region ?slot 8"
        using region_mono [of 4 8 ?slot] region_shift [of 4 4 8 ?slot] by simp_all
      ultimately have "x \<notin> region (?used + 2) 2" "x \<notin> region ?slot 4" "x \<notin> region (?slot + 4) 4" by blast+
      then show ?thesis unfolding mem by (simp only: wr16_frame wr32_frame not_False_eq_True)
    qed
    have "rd32 (c0_mem s') ?a = rd32 (c0_mem s) ?a" "rd32 (c0_mem s') (?a + 4) = rd32 (c0_mem s) (?a + 4)"
      using same region_mono [of 4 8 ?a] region_shift [of 4 4 8 ?a] by (auto intro!: rd32_cong)
    then show ?thesis by (simp add: used_elem_def Let_def queue_regsD [OF qr])
  qed
  have "s' = s\<lparr>c0_hyp := (c0_hyp s)\<lparr>hv_mem := c0_mem s',
              hv_blk := (c0_blk s)\<lparr>bk_last_avail := bk_last_avail (c0_blk s')\<rparr>\<rparr>\<rparr>"
    unfolding assms(3) by (simp add: blk_publish_def Let_def)
  with frame show "published_only (used_region s) s s'" by (simp add: published_only_def)
qed

lemma well_queued_serve:
  assumes "well_queued F s" and "bk_last_avail (c0_blk s) \<noteq> avail_idx s"
    and "head = avail_head (avail_ring (c0_hyp s)) s"
  shows "\<exists>w s1 s'. blk_do_request drv head s = Some (w, s1) \<and>
           s' = blk_publish (used_ring (c0_hyp s)) head w s1 \<and> well_queued F s' \<and>
           queue_regs s' = queue_regs s \<and> bk_live (c0_blk s') = bk_live (c0_blk s) \<and>
           bk_last_avail (c0_blk s') = bk_last_avail (c0_blk s) + 1 \<and>
           avail_idx s' = avail_idx s \<and> used_idx s' = used_idx s + 1 \<and>
           published_only (used_region s) s1 s' \<and> (\<forall>i. pending_head s' i = pending_head s i) \<and>
           used_elem s' (used_idx s) = (ucast head, w) \<and>
           (\<forall>i. (ucast i :: u32) mod bk_queue_num (c0_blk s) \<noteq> ucast (used_idx s) mod bk_queue_num (c0_blk s) \<longrightarrow>
                used_elem s' i = used_elem s i)"
proof -
  let ?last = "bk_last_avail (c0_blk s)" and ?num = "bk_queue_num (c0_blk s)"
  have num: "?num \<noteq> 0" and size: "4 + 8 * unat ?num \<le> 2 ^ 32"
    and table: "table_region (desc_table (c0_hyp s)) ?num \<subseteq> F"
    and avail: "avail_region s \<subseteq> F" and used: "used_region s \<inter> F = {}"
    and pow: "2 ^ 16 mod unat ?num = 0" and fits: "unat (avail_idx s - ?last) \<le> unat ?num"
    and all: "\<And>k. k < unat (avail_idx s - ?last) \<Longrightarrow> request_ok F s (pending_head s (?last + of_nat k))"
    using assms(1) by (auto simp: well_queued_def)
  have some: "0 < unat (avail_idx s - ?last)" using assms(2) by (simp add: unat_gt_0)
  from all [OF this] have "request_ok F s head"
    by (simp add: assms(3) avail_head_def pending_head_def)
  from serve_request [OF this] obtain w s1 where run: "blk_do_request drv head s = Some (w, s1)"
    and regs1: "ring_regs s1 = ring_regs s"
    and mem1: "\<And>x. x \<in> F \<union> used_region s \<Longrightarrow> c0_mem s1 x = c0_mem s x" by blast
  have qr1: "queue_regs s1 = queue_regs s" and last1: "bk_last_avail (c0_blk s1) = ?last"
    and live1: "bk_live (c0_blk s1) = bk_live (c0_blk s)"
    using regs1 by (simp_all add: ring_regs_def queue_regs_def)
  note q1 = queue_regsD [OF qr1]
  define s' where "s' = blk_publish (used_ring (c0_hyp s)) head w s1"
  have s': "s' = blk_publish (used_ring (c0_hyp s1)) head w s1" by (simp add: s'_def q1)
  note eff = blk_publish_effect [OF _ _ s', unfolded q1, OF num size]
  have qr: "queue_regs s' = queue_regs s" using eff(1) qr1 by simp
  note q = queue_regsD [OF qr]
  have memF: "c0_mem s x = c0_mem s' x" if "x \<in> F" for x
    using eff(4) [of x] mem1 [of x] that used by (metis UnI1 disjoint_iff)
  have off: "rd16 (c0_mem s') a = rd16 (c0_mem s) a" if "region a 2 \<subseteq> F" for a
    using memF that by (intro rd16_cong) (auto simp: memF)
  have idx: "avail_idx s' = avail_idx s"
    unfolding avail_idx_def q
    using avail region_shift [of 2 2 "4 + 2 * unat ?num" "avail_ring (c0_hyp s)"]
    by (intro off) (simp add: avail_region_def)
  have pend: "pending_head s' i = pending_head s i" for i
  proof -
    define j where "j = unat (ucast i mod ?num :: u32)"
    have "j < unat ?num" using num by (simp add: j_def unat_mod unat_gt_0)
    then have "region (avail_ring (c0_hyp s) + of_nat (4 + 2 * j)) 2 \<subseteq> F"
      using avail region_shift [of "4 + 2 * j" 2 "4 + 2 * unat ?num" "avail_ring (c0_hyp s)"]
      by (simp add: avail_region_def)
    then show ?thesis
      unfolding pending_head_def q by (intro off) (simp add: j_def add.assoc)
  qed
  have req: "request_ok F s' h" if "request_ok F s h" for h
    using that request_at_cong [OF _ qr memF table] unfolding request_ok_def q
    by (metis q(5))
  have "avail_idx s' - bk_last_avail (c0_blk s') = (avail_idx s - ?last) - 1"
    using idx eff(3) last1 by simp
  then have count: "unat (avail_idx s' - bk_last_avail (c0_blk s')) = unat (avail_idx s - ?last) - 1"
    using assms(2) by (simp add: unat_minus_one)
  have next_head: "bk_last_avail (c0_blk s') + of_nat k = ?last + of_nat (Suc k)" for k
    using eff(3) last1 by simp
  have "well_queued F s'"
    unfolding well_queued_def q
    using num size table avail used pow fits all req pend count
    by (auto simp: next_head simp del: of_nat_Suc)
  moreover have idx1: "used_idx s1 = used_idx s"
    unfolding used_idx_def q1 using mem1 used_parts(1) [OF num] by (intro rd16_cong) auto
  moreover have elem1: "used_elem s1 i = used_elem s i" for i
  proof -
    let ?a = "used_ring (c0_hyp s) + 4 + 8 * (ucast i mod ?num)"
    define j where "j = unat (ucast i mod ?num :: u32)"
    have j: "j < unat ?num" using num by (simp add: j_def unat_mod unat_gt_0)
    have "region (used_ring (c0_hyp s) + of_nat (4 + 8 * j)) 8 \<subseteq> used_region s"
      unfolding used_region_def using j by (intro region_shift) simp
    then have "region ?a 8 \<subseteq> used_region s" by (simp add: j_def add.assoc)
    with mem1 region_mono [of 4 8 ?a] region_shift [of 4 4 8 ?a] show ?thesis
      unfolding used_elem_def Let_def q1 by (auto intro!: rd32_cong)
  qed
  ultimately show ?thesis
    using run s'_def qr live1 last1 eff(2,3,5-8) idx pend
    by (intro exI [of _ w] exI [of _ s1] exI [of _ s']) simp
qed

text \<open>The requests \<open>rs\<close> have been published from running number \<open>i\<close> on; nothing else in the used ring changed.\<close>

definition published :: "(u16 \<times> u32) list \<Rightarrow> 'c core0 \<Rightarrow> 'c core0 \<Rightarrow> bool" where
  "published rs s s' \<longleftrightarrow>
     used_idx s' = used_idx s + of_nat (length rs) \<and>
     (\<forall>k < length rs. used_elem s' (used_idx s + of_nat k) = (ucast (fst (rs ! k)), snd (rs ! k))) \<and>
     (\<forall>i. (\<forall>k < length rs. (ucast i :: u32) mod bk_queue_num (c0_blk s) \<noteq>
                            ucast (used_idx s + of_nat k) mod bk_queue_num (c0_blk s)) \<longrightarrow>
          used_elem s' i = used_elem s i)"

lemma published_Nil: "published [] s s"
  by (simp add: published_def)

lemma published_Cons:
  assumes "used_idx s1 = used_idx s + 1" and "bk_queue_num (c0_blk s1) = bk_queue_num (c0_blk s)"
    and "used_elem s1 (used_idx s) = (ucast head, w)"
    and "\<And>i. (ucast i :: u32) mod bk_queue_num (c0_blk s) \<noteq> ucast (used_idx s) mod bk_queue_num (c0_blk s) \<Longrightarrow>
          used_elem s1 i = used_elem s i"
    and "published rs s1 s'" and "2 ^ 16 mod unat (bk_queue_num (c0_blk s)) = 0"
    and "length rs < unat (bk_queue_num (c0_blk s))"
  shows "published ((head, w) # rs) s s'"
proof -
  let ?num = "bk_queue_num (c0_blk s)"
  have later: "used_idx s1 + of_nat k = used_idx s + of_nat (Suc k)" for k by (simp add: assms(1))
  note p = assms(5) [unfolded published_def assms(2) later]
  have old: "used_elem s' i = used_elem s1 i"
    if "\<And>k. k < length rs \<Longrightarrow> (ucast i :: u32) mod ?num \<noteq> ucast (used_idx s + of_nat (Suc k)) mod ?num" for i
    using p that by blast
  have first: "used_elem s' (used_idx s) = (ucast head, w)"
    using assms(3) slots_of_a_round [OF assms(6), of "Suc _" "used_idx s"] assms(7) by (subst old) auto
  show ?thesis
    unfolding published_def
  proof (intro conjI allI impI)
    show "used_idx s' = used_idx s + of_nat (length ((head, w) # rs))"
      using p assms(1) by simp
  next
    fix k assume k: "k < length ((head, w) # rs)"
    show "used_elem s' (used_idx s + of_nat k) =
        (ucast (fst (((head, w) # rs) ! k)), snd (((head, w) # rs) ! k))"
    proof (cases k)
      case 0
      with first show ?thesis by simp
    next
      case (Suc j)
      with p k show ?thesis by (simp del: of_nat_Suc)
    qed
  next
    fix i :: u16 assume "\<forall>k < length ((head, w) # rs).
        (ucast i :: u32) mod ?num \<noteq> ucast (used_idx s + of_nat k) mod ?num"
    then have off: "(ucast i :: u32) mod ?num \<noteq> ucast (used_idx s + of_nat k) mod ?num" if "k \<le> length rs" for k
      using that by simp
    show "used_elem s' i = used_elem s i"
      using old [of i] assms(4) [of i] off [of 0] off [of "Suc _"] by (simp del: of_nat_Suc)
  qed
qed

lemma pending_heads_Cons:
  assumes "bk_last_avail (c0_blk s) \<noteq> avail_idx s"
    and "bk_last_avail (c0_blk s1) = bk_last_avail (c0_blk s) + 1" and "avail_idx s1 = avail_idx s"
    and "\<And>i. pending_head s1 i = pending_head s i"
  shows "pending_heads s = pending_head s (bk_last_avail (c0_blk s)) # pending_heads s1"
    "unat (avail_idx s - bk_last_avail (c0_blk s)) = Suc (unat (avail_idx s1 - bk_last_avail (c0_blk s1)))"
proof -
  let ?d = "avail_idx s - bk_last_avail (c0_blk s)"
  have less: "avail_idx s1 - bk_last_avail (c0_blk s1) = ?d - 1" by (simp add: assms(2,3))
  have "0 < unat ?d" using assms(1) by (simp add: unat_gt_0)
  moreover have "unat (?d - 1) = unat ?d - 1" using assms(1) by (simp add: unat_minus_one)
  ultimately show n: "unat ?d = Suc (unat (avail_idx s1 - bk_last_avail (c0_blk s1)))"
    unfolding less by simp
  have next_head: "bk_last_avail (c0_blk s1) + of_nat k = bk_last_avail (c0_blk s) + of_nat (Suc k)" for k
    by (simp add: assms(2))
  show "pending_heads s = pending_head s (bk_last_avail (c0_blk s)) # pending_heads s1"
    unfolding pending_heads_def n next_head assms(4)
    by (simp add: upt_conv_Cons flip: map_Suc_upt del: of_nat_Suc upt_Suc)
qed

lemma blk_drain_well_queued:
  assumes "well_queued F s"
  shows "\<exists>s' rs. blk_drain drv (avail_ring (c0_hyp s)) (used_ring (c0_hyp s)) p s =
             Some (p \<or> rs \<noteq> [], s') \<and> map fst rs = pending_heads s \<and>
           executes drv (used_region s) rs s s' \<and> published rs s s' \<and>
           queue_regs s' = queue_regs s \<and> bk_live (c0_blk s') = bk_live (c0_blk s) \<and>
           bk_last_avail (c0_blk s') = avail_idx s \<and> avail_idx s' = avail_idx s"
  using assms
proof (induction "unat (avail_idx s - bk_last_avail (c0_blk s))" arbitrary: s p)
  case 0
  then have "bk_last_avail (c0_blk s) = avail_idx s" by (simp add: unat_eq_zero)
  then have "blk_drain drv (avail_ring (c0_hyp s)) (used_ring (c0_hyp s)) p s = Some (p, s)"
    by (subst blk_drain.simps) (simp add: avail_idx_def)
  moreover have "pending_heads s = []" using \<open>bk_last_avail (c0_blk s) = avail_idx s\<close> by (simp add: pending_heads_def)
  ultimately show ?case
    using \<open>bk_last_avail (c0_blk s) = avail_idx s\<close> by (intro exI [of _ s] exI [of _ "[]"]) (simp add: executes.no_request published_Nil)
next
  case (Suc n)
  then have more: "bk_last_avail (c0_blk s) \<noteq> avail_idx s" by auto
  define head where "head = avail_head (avail_ring (c0_hyp s)) s"
  from well_queued_serve [OF Suc.prems more head_def, of drv] obtain w s1 s2
    where run: "blk_do_request drv head s = Some (w, s1)"
      and s2: "s2 = blk_publish (used_ring (c0_hyp s)) head w s1"
      and wq: "well_queued F s2" and qr: "queue_regs s2 = queue_regs s"
      and live: "bk_live (c0_blk s2) = bk_live (c0_blk s)"
      and last: "bk_last_avail (c0_blk s2) = bk_last_avail (c0_blk s) + 1"
      and idx: "avail_idx s2 = avail_idx s" and used: "used_idx s2 = used_idx s + 1"
      and only: "published_only (used_region s) s1 s2" and pend: "\<And>i. pending_head s2 i = pending_head s i"
      and elem: "used_elem s2 (used_idx s) = (ucast head, w)"
        "\<And>i. (ucast i :: u32) mod bk_queue_num (c0_blk s) \<noteq> ucast (used_idx s) mod bk_queue_num (c0_blk s) \<Longrightarrow>
           used_elem s2 i = used_elem s i"
    by blast
  note q = queue_regsD [OF qr]
  note heads = pending_heads_Cons [OF more last idx pend]
  have "n = unat (avail_idx s2 - bk_last_avail (c0_blk s2))" using Suc.hyps(2) heads(2) by simp
  from Suc.hyps(1) [OF this wq, of True] obtain s' rs
    where rest: "blk_drain drv (avail_ring (c0_hyp s)) (used_ring (c0_hyp s)) True s2 = Some (True, s')"
      and rs: "map fst rs = pending_heads s2" "executes drv (used_region s) rs s2 s'" "published rs s2 s'"
      and s': "queue_regs s' = queue_regs s2" "bk_live (c0_blk s') = bk_live (c0_blk s2)"
        "bk_last_avail (c0_blk s') = avail_idx s2" "avail_idx s' = avail_idx s2"
    unfolding q by auto
  have drain: "blk_drain drv (avail_ring (c0_hyp s)) (used_ring (c0_hyp s)) p s = Some (True, s')"
    using more run rest by (subst blk_drain.simps) (simp add: avail_idx_def Let_def s2 flip: head_def)
  have head: "pending_head s (bk_last_avail (c0_blk s)) = head"
    by (simp add: head_def avail_head_def pending_head_def)
  have pow: "2 ^ 16 mod unat (bk_queue_num (c0_blk s)) = 0"
    and fits: "unat (avail_idx s - bk_last_avail (c0_blk s)) \<le> unat (bk_queue_num (c0_blk s))"
    using Suc.prems by (simp_all add: well_queued_def)
  have "length rs = unat (avail_idx s2 - bk_last_avail (c0_blk s2))"
    using arg_cong [OF rs(1), of length] by (simp add: pending_heads_def)
  then have "length rs < unat (bk_queue_num (c0_blk s))" using fits heads(2) by simp
  from published_Cons [OF used q(2) elem rs(3) pow this] have "published ((head, w) # rs) s s'" .
  moreover have "executes drv (used_region s) ((head, w) # rs) s s'"
    by (rule executes.request [OF run only rs(2)])
  moreover have "map fst ((head, w) # rs) = pending_heads s" using rs(1) heads(1) head by simp
  ultimately show ?case
    using drain qr live idx s' by (intro exI [of _ s'] exI [of _ "(head, w) # rs"]) simp
qed

lemma pending_heads_empty: "pending_heads s = [] \<longleftrightarrow> bk_last_avail (c0_blk s) = avail_idx s"
  by (auto simp: pending_heads_def unat_eq_zero)

lemma service_drains:
  assumes "bk_live (c0_blk s)" and "well_queued F s"
  shows "\<exists>s1 s' rs. blk_service drv s = Some s' \<and> map fst rs = pending_heads s \<and>
           executes drv (used_region s) rs s s1 \<and> published rs s s1 \<and>
           s' = (if rs = [] then s1 else on_hyp (on_blk (\<lambda>b. b\<lparr>bk_irq := True\<rparr>)) s1) \<and>
           bk_last_avail (c0_blk s1) = avail_idx s \<and> avail_idx s1 = avail_idx s \<and> queue_regs s1 = queue_regs s"
proof -
  from blk_drain_well_queued [OF assms(2), of drv False] obtain s1 rs where
    "blk_drain drv (avail_ring (c0_hyp s)) (used_ring (c0_hyp s)) False s = Some (rs \<noteq> [], s1)"
    and "map fst rs = pending_heads s" "executes drv (used_region s) rs s s1" "published rs s s1"
    "queue_regs s1 = queue_regs s" "bk_last_avail (c0_blk s1) = avail_idx s" "avail_idx s1 = avail_idx s" by auto
  with assms(1) show ?thesis
    by (intro exI [of _ s1] exI [of _ "if rs = [] then s1 else on_hyp (on_blk (\<lambda>b. b\<lparr>bk_irq := True\<rparr>)) s1"]
        exI [of _ rs]) (auto simp: blk_service_def)
qed

lemma queue_view_irq:
  "avail_idx (on_hyp (on_blk (\<lambda>b. b\<lparr>bk_irq := x\<rparr>)) s) = avail_idx s"
  "used_idx (on_hyp (on_blk (\<lambda>b. b\<lparr>bk_irq := x\<rparr>)) s) = used_idx s"
  "used_elem (on_hyp (on_blk (\<lambda>b. b\<lparr>bk_irq := x\<rparr>)) s) i = used_elem s i"
  by (simp_all add: avail_idx_def used_idx_def used_elem_def avail_ring_def used_ring_def desc_table_def Let_def)

text \<open>
  C13. The service routine drains the queue. If the queue is live and laid out properly, \<open>blk_service\<close>
  returns. The pending requests, and no others, have been executed, each once and in the order of the
  available ring; besides what they do, only bytes of the used ring and the consumed index have
  changed, and the completion flag for core 1 is raised if there was any request. The used index has
  advanced by their number, and the \<open>k\<close>-th new element of the used ring carries the head of the \<open>k\<close>-th
  request and the length its execution returned. The consumed index has caught up with the guest's.
\<close>

theorem blk_service_drains:
  assumes "bk_live (c0_blk s)" and "well_queued F s"
  shows "\<exists>s1 s' rs. blk_service drv s = Some s' \<and> map fst rs = pending_heads s \<and>
           executes drv (used_region s) rs s s1 \<and>
           s' = (if rs = [] then s1 else on_hyp (on_blk (\<lambda>b. b\<lparr>bk_irq := True\<rparr>)) s1) \<and>
           bk_last_avail (c0_blk s') = avail_idx s \<and> avail_idx s' = avail_idx s \<and>
           used_idx s' = used_idx s + of_nat (length rs) \<and>
           (\<forall>k < length rs. used_elem s' (used_idx s + of_nat k) = (ucast (fst (rs ! k)), snd (rs ! k)))"
proof -
  obtain s1 s' rs where "blk_service drv s = Some s'" "map fst rs = pending_heads s"
    "executes drv (used_region s) rs s s1" "published rs s s1"
    "s' = (if rs = [] then s1 else on_hyp (on_blk (\<lambda>b. b\<lparr>bk_irq := True\<rparr>)) s1)"
    "bk_last_avail (c0_blk s1) = avail_idx s" "avail_idx s1 = avail_idx s"
    using service_drains [OF assms, of drv] by blast
  then show ?thesis
    by (intro exI [of _ s1] exI [of _ s'] exI [of _ rs]) (simp add: published_def queue_view_irq)
qed

lemma demo_rings [simp]:
  "avail_ring (c0_hyp (demo_ring t n)) = 0x48100080" "used_ring (c0_hyp (demo_ring t n)) = 0x48101000"
  "avail_idx (demo_ring t n) = 1" "used_idx (demo_ring t n) = 0" "pending_head (demo_ring t n) 0 = 0"
  "bk_last_avail (c0_blk (demo_ring t n)) = 0" "bk_live (c0_blk (demo_ring t n))"
proof -
  show avail: "avail_ring (c0_hyp (demo_ring t n)) = 0x48100080"
    by (simp add: avail_ring_def)
  have "bk_queue_align (c0_blk (demo_ring t n)) = 0"
    by (simp add: demo_ring_def demo_core0_def demo_hyp_def reset_defs)
  then show used: "used_ring (c0_hyp (demo_ring t n)) = 0x48101000"
    by (simp add: used_ring_def Let_def avail)
  show "avail_idx (demo_ring t n) = 1" "used_idx (demo_ring t n) = 0" "pending_head (demo_ring t n) 0 = 0"
    by (simp_all add: avail_idx_def used_idx_def pending_head_def avail used rd16_def ring_mem_def)
qed (simp_all add: demo_ring_def demo_core0_def demo_hyp_def reset_defs)

lemma demo_well_queued: "well_queued (region 0x48100000 0x810) (demo_ring 8 2)"
proof -
  have "request_ok (region 0x48100000 0x810) (demo_ring 8 2) 0"
    unfolding request_ok_def used_region_def
    by (rule exI [of _ 8], rule exI [of _ 0], rule exI [of _ "[(0x48100a00, 20)]"],
        rule exI [of _ "0x48100c00"])
       (use region_shift [of "0x800" 16 "0x810" "0x48100000"] in
         \<open>simp add: demo_request desc_at_pos region_iff region_disjoint Int_Un_distrib\<close>)
  then show ?thesis
    using region_shift [of "0x80" 20 "0x810" "0x48100000"] region_mono [of 128 "0x810" "0x48100000"]
    by (simp add: well_queued_def table_region_def avail_region_def used_region_def region_disjoint)
qed

lemma demo_pending: "pending_heads (demo_ring t n) = [0]"
  by (simp add: pending_heads_def)

theorem blk_service_drains_witness:
  "\<exists>s' w. blk_service ram_driver (demo_ring 8 2) = Some s' \<and> bk_irq (c0_blk s') \<and>
     bk_last_avail (c0_blk s') = 1 \<and> used_idx s' = 1 \<and> used_elem s' 0 = (0, w)"
proof -
  obtain s1 s' rs where r: "blk_service ram_driver (demo_ring 8 2) = Some s'"
    "map fst rs = pending_heads (demo_ring 8 2)"
    "s' = (if rs = [] then s1 else on_hyp (on_blk (\<lambda>b. b\<lparr>bk_irq := True\<rparr>)) s1)"
    "bk_last_avail (c0_blk s') = avail_idx (demo_ring 8 2)"
    "used_idx s' = used_idx (demo_ring 8 2) + of_nat (length rs)"
    "\<forall>k < length rs. used_elem s' (used_idx (demo_ring 8 2) + of_nat k) = (ucast (fst (rs ! k)), snd (rs ! k))"
    using blk_service_drains [OF _ demo_well_queued, of ram_driver] by auto
  moreover from r(2) obtain w where "rs = [(0, w)]" by (auto simp: demo_pending)
  ultimately show ?thesis by (intro exI [of _ s'] exI [of _ w]) simp
qed

end
