(* ===== verification/Hyp_Completion.thy ===== *)
theory Hyp_Completion
  imports Hyp_System Hyp_Console Hyp_Drain
begin

text \<open>
  What becomes of a request: from the guest's kick through core 0's task to the interrupt in the
  guest, across the block device, the PLIC, the host poll and the injection.
\<close>

section \<open>Runs of the machine\<close>

inductive machine_run :: "'c sd_driver \<Rightarrow> 'c machine \<Rightarrow> who list \<Rightarrow> 'c machine \<Rightarrow> bool"
  for drv :: "'c sd_driver" where
  stop: "machine_run drv s [] s"
| go: "machine_step drv s w s1 \<Longrightarrow> machine_run drv s1 ws s2 \<Longrightarrow> machine_run drv s (w # ws) s2"

lemma machine_run_append:
  "machine_run drv s ws s1 \<Longrightarrow> machine_run drv s1 vs s2 \<Longrightarrow> machine_run drv s (ws @ vs) s2"
  by (induction rule: machine_run.induct) (auto intro: machine_run.go)

lemma task_run:
  assumes "task_steps drv (mc_task s, mc_core0 s) (pc, c)"
  shows "\<exists>n. machine_run drv s (replicate n Blk_task) (s\<lparr>mc_core0 := c, mc_task := pc\<rparr>)"
  using assms
proof (induction "(pc, c)" arbitrary: pc c rule: rtranclp_induct)
  case base
  then show ?case by (intro exI [of _ 0]) (simp add: machine_run.stop)
next
  case (step x)
  obtain pc1 c1 where x: "x = (pc1, c1)" by fastforce
  from step.hyps(3) [OF x] obtain n where
    run: "machine_run drv s (replicate n Blk_task) (s\<lparr>mc_core0 := c1, mc_task := pc1\<rparr>)" by blast
  have "machine_step drv (s\<lparr>mc_core0 := c1, mc_task := pc1\<rparr>) Blk_task
      ((s\<lparr>mc_core0 := c1, mc_task := pc1\<rparr>)\<lparr>mc_core0 := c, mc_task := pc\<rparr>)"
    using step.hyps(2) x by (intro machine_step.task) simp
  from machine_run_append [OF run machine_run.go [OF this machine_run.stop]] show ?case
    by (intro exI [of _ "Suc n"]) (simp add: replicate_append_same flip: replicate_Suc)
qed

section \<open>No kick is lost\<close>

lemma step_kick:
  assumes "machine_step drv s w s'" and "bk_kick (mc_blk s)" and "\<not> bk_kick (mc_blk s')"
  shows "w = Blk_task \<and> mc_task s = Waiting \<and>
         task_avail (mc_task s') = (if bk_live (mc_blk s) then Some (avail_ring (mc_hyp s)) else None)"
  using assms(1)
proof cases
  case (guest m)
  with assms(2,3) show ?thesis by simp
next
  case (trap f f' h')
  with hypervisor_keeps_kick [OF trap(3)] assms(2,3) show ?thesis by (simp add: kick_kept_def)
next
  case (task pc c)
  have waiting: "mc_task s = Waiting" using task_step_kick [OF task(3)] task(2) assms(2,3) by simp
  with take_kick_avail [OF task(3) [unfolded waiting]] task(1,2) show ?thesis by simp
next
  case (service sv h')
  with service_loop_frame [OF service(3)] assms(2,3) show ?thesis by (simp add: core1_view_def)
qed

lemma run_takes_kick:
  assumes "machine_run drv s ws s'" and "bk_kick (mc_blk s)" and "\<not> bk_kick (mc_blk s')"
  shows "\<exists>us vs m m1. ws = us @ Blk_task # vs \<and> machine_run drv s us m \<and> machine_step drv m Blk_task m1 \<and>
    machine_run drv m1 vs s' \<and> bk_kick (mc_blk m) \<and> mc_task m = Waiting \<and>
    task_avail (mc_task m1) = (if bk_live (mc_blk m) then Some (avail_ring (mc_hyp m)) else None)"
  using assms
proof induction
  case (go s w s1 ws s2)
  show ?case
  proof (cases "bk_kick (mc_blk s1)")
    case True
    from go.IH [OF True go.prems(2)] obtain us vs m m1 where
      "ws = us @ Blk_task # vs" "machine_run drv s1 us m" "machine_step drv m Blk_task m1"
      "machine_run drv m1 vs s2" "bk_kick (mc_blk m)" "mc_task m = Waiting"
      "task_avail (mc_task m1) = (if bk_live (mc_blk m) then Some (avail_ring (mc_hyp m)) else None)" by blast
    with machine_run.go [OF go.hyps(1)] show ?thesis
      by (intro exI [of _ "w # us"] exI [of _ vs] exI [of _ m] exI [of _ m1]) simp
  next
    case False
    from step_kick [OF go.hyps(1) go.prems(1) False] go.hyps go.prems(1) show ?thesis
      by (intro exI [of _ "[]"] exI [of _ ws] exI [of _ s] exI [of _ s1]) (simp add: machine_run.stop)
  qed
qed simp

lemma step_avail:
  assumes "machine_step drv s w s'" and "task_avail (mc_task s) = Some avail"
  shows "task_avail (mc_task s') = Some avail \<or> bk_last_avail (mc_blk s) = rd16 (mc_mem s) (avail + 2)"
  using assms(1)
proof cases
  case (task pc c)
  with task_step_avail [OF task(3) assms(2)] show ?thesis by auto
qed (use assms(2) in auto)

lemma run_leaves_drain:
  assumes "machine_run drv s ws s'" and "task_avail (mc_task s) = Some avail" and "mc_task s' = Waiting"
  shows "\<exists>xs ys e. ws = xs @ ys \<and> machine_run drv s xs e \<and> machine_run drv e ys s' \<and>
    bk_last_avail (mc_blk e) = rd16 (mc_mem e) (avail + 2)"
  using assms
proof induction
  case (go s w s1 ws s2)
  show ?case
  proof (cases "task_avail (mc_task s1) = Some avail")
    case True
    from go.IH [OF True go.prems(2)] obtain xs ys e where
      "ws = xs @ ys" "machine_run drv s1 xs e" "machine_run drv e ys s2"
      "bk_last_avail (mc_blk e) = rd16 (mc_mem e) (avail + 2)" by blast
    with machine_run.go [OF go.hyps(1)] show ?thesis
      by (intro exI [of _ "w # xs"] exI [of _ ys] exI [of _ e]) simp
  next
    case False
    with step_avail [OF go.hyps(1) go.prems(1)] machine_run.go [OF go.hyps] show ?thesis
      by (intro exI [of _ "[]"] exI [of _ "w # ws"] exI [of _ s]) (simp add: machine_run.stop)
  qed
qed simp

text \<open>
  C5. No kick is lost. Take any run of the machine, whatever the guest writes and traps in it and
  however it interleaves with the steps of the block task. If the kick flag is up at its beginning,
  and at its end it is down and the task waits, then in between the task took the kick, and, if the
  queue was live when it did, it later came to a moment at which the available index in memory was
  equal to the index it had consumed, so that nothing stood in the queue unserved.
\<close>

theorem kick_not_lost:
  assumes "machine_run drv s ws s'" and "bk_kick (mc_blk s)" and "\<not> bk_kick (mc_blk s')"
    and "mc_task s' = Waiting"
  shows "\<exists>us vs m. ws = us @ Blk_task # vs \<and> machine_run drv s us m \<and> bk_kick (mc_blk m) \<and>
    mc_task m = Waiting \<and>
    (if bk_live (mc_blk m) then
       \<exists>xs ys e. vs = xs @ ys \<and> machine_run drv m (Blk_task # xs) e \<and> machine_run drv e ys s' \<and>
         bk_last_avail (mc_blk e) = rd16 (mc_mem e) (avail_ring (mc_hyp m) + 2)
     else machine_run drv m (Blk_task # vs) s')"
proof -
  obtain us vs m m1 where take: "ws = us @ Blk_task # vs" "machine_run drv s us m" "machine_step drv m Blk_task m1"
    "machine_run drv m1 vs s'" "bk_kick (mc_blk m)" "mc_task m = Waiting"
    "task_avail (mc_task m1) = (if bk_live (mc_blk m) then Some (avail_ring (mc_hyp m)) else None)"
    using run_takes_kick [OF assms(1-3)] by blast
  have live: "\<exists>xs ys e. vs = xs @ ys \<and> machine_run drv m (Blk_task # xs) e \<and> machine_run drv e ys s' \<and>
      bk_last_avail (mc_blk e) = rd16 (mc_mem e) (avail_ring (mc_hyp m) + 2)" if "bk_live (mc_blk m)"
  proof -
    from take(7) that have "task_avail (mc_task m1) = Some (avail_ring (mc_hyp m))" by simp
    from run_leaves_drain [OF take(4) this assms(4)] machine_run.go [OF take(3)] show ?thesis by blast
  qed
  show ?thesis
    using take live machine_run.go [OF take(3,4)] by (intro exI [of _ us] exI [of _ vs] exI [of _ m]) simp
qed

section \<open>Requests in the queue\<close>

lemma well_queued_kick:
  "well_queued F (on_hyp (on_blk (\<lambda>b. b\<lparr>bk_kick := k\<rparr>)) s) = well_queued F s"
  by (simp add: well_queued_def request_ok_def request_at_def avail_region_def used_region_def avail_idx_def
      pending_head_def desc_table_def desc_at_def avail_ring_def used_ring_def Let_def)

lemma queue_view_kick:
  "avail_idx (on_hyp (on_blk (\<lambda>b. b\<lparr>bk_kick := k\<rparr>)) s) = avail_idx s"
  "used_idx (on_hyp (on_blk (\<lambda>b. b\<lparr>bk_kick := k\<rparr>)) s) = used_idx s"
  "used_region (on_hyp (on_blk (\<lambda>b. b\<lparr>bk_kick := k\<rparr>)) s) = used_region s"
  "pending_heads (on_hyp (on_blk (\<lambda>b. b\<lparr>bk_kick := k\<rparr>)) s) = pending_heads s"
  by (simp_all add: avail_idx_def used_idx_def used_region_def pending_heads_def pending_head_def
      avail_ring_def used_ring_def desc_table_def Let_def)

text \<open>The machine's core 0 once the task has taken the kick.\<close>

abbreviation kick_taken :: "'c core0 \<Rightarrow> 'c core0" where
  "kick_taken c \<equiv> on_hyp (on_blk (\<lambda>b. b\<lparr>bk_kick := False\<rparr>)) c"

section \<open>The line reaches the guest\<close>

lemma completion_deliverable:
  assumes "listening 11 h" and "bk_irq (hv_blk h)"
  shows "MEI \<in> deliverable (irq_entry f h)"
proof -
  define g where "g = on_stats (\<lambda>s. s\<lparr>st_irq_code_seen := fr_mcause f AND 0x7fffffff\<rparr>) (trap_entry f h)"
  have "hv_blk g = hv_blk h" by (simp add: g_def trap_entry_def hyp_trace_record_def)
  with hyp_poll_host_devices_effect [of g] assms(2)
  have "bit (pl_pending (hv_plic (hyp_poll_host_devices g))) 11" by simp
  then show ?thesis
    by (intro source_deliverable [OF assms(1)]) (simp_all add: irq_entry_def g_def)
qed

text \<open>The task, left alone with a properly laid out queue: it takes the kick and drains it.\<close>

lemma task_serves:
  assumes "well_queued F (mc_core0 s)" and "bk_live (mc_blk s)" and "bk_kick (mc_blk s)"
    and "mc_task s = Waiting" and "bk_last_avail (mc_blk s) \<noteq> avail_idx (mc_core0 s)"
  shows "\<exists>n c1 c rs. machine_run drv s (replicate n Blk_task) (s\<lparr>mc_core0 := c, mc_task := Waiting\<rparr>) \<and>
    task_steps drv (Waiting, mc_core0 s) (Waiting, c) \<and> \<not> bk_kick (c0_blk c) \<and>
    map fst rs = pending_heads (mc_core0 s) \<and>
    executes drv (used_region (mc_core0 s)) rs (kick_taken (mc_core0 s)) c1 \<and>
    c = on_hyp (on_blk (\<lambda>b. b\<lparr>bk_irq := True\<rparr>)) c1 \<and> bk_irq (c0_blk c) \<and>
    bk_last_avail (c0_blk c) = avail_idx (mc_core0 s) \<and>
    used_idx c = used_idx (mc_core0 s) + of_nat (length rs) \<and>
    (\<forall>k < length rs. used_elem c (used_idx (mc_core0 s) + of_nat k) = (ucast (fst (rs ! k)), snd (rs ! k)))"
proof -
  let ?c = "kick_taken (mc_core0 s)"
  have queued: "well_queued F ?c" using assms(1) well_queued_kick [of F False "mc_core0 s"] by simp
  obtain c1 c rs where serve: "blk_service drv ?c = Some c" and rs: "map fst rs = pending_heads (mc_core0 s)"
    and exec: "executes drv (used_region (mc_core0 s)) rs ?c c1" and pub: "published rs ?c c1"
    and c: "c = (if rs = [] then c1 else on_hyp (on_blk (\<lambda>b. b\<lparr>bk_irq := True\<rparr>)) c1)"
    and last: "bk_last_avail (c0_blk c1) = avail_idx (mc_core0 s)"
    using service_drains [OF _ queued, of drv] assms(2) by (auto simp: queue_view_kick)
  have "rs \<noteq> []" using rs assms(5) pending_heads_empty [of "mc_core0 s"] by auto
  with c have c: "c = on_hyp (on_blk (\<lambda>b. b\<lparr>bk_irq := True\<rparr>)) c1" by simp
  have iter: "blk_task_iteration drv (mc_core0 s) = Some c"
    using assms(3) serve by (simp add: blk_task_iteration_def)
  with assms(3) iteration_steps [of "mc_core0 s" drv c] have
    steps: "(task_step drv)\<^sup>+\<^sup>+ (Waiting, mc_core0 s) (Waiting, c)" by simp
  have down: "\<not> bk_kick (c0_blk c)" by (rule steps_take_kick [OF steps])
  obtain n where run: "machine_run drv s (replicate n Blk_task) (s\<lparr>mc_core0 := c, mc_task := Waiting\<rparr>)"
    using task_run [of drv s Waiting c] tranclp_into_rtranclp [OF steps] assms(4) by auto
  have "used_idx c = used_idx (mc_core0 s) + of_nat (length rs) \<and>
    (\<forall>k < length rs. used_elem c (used_idx (mc_core0 s) + of_nat k) = (ucast (fst (rs ! k)), snd (rs ! k)))"
    using pub unfolding c published_def queue_view_irq queue_view_kick by blast
  with run down tranclp_into_rtranclp [OF steps] rs exec c last show ?thesis
    by (intro exI [of _ n] exI [of _ c1] exI [of _ c] exI [of _ rs]) simp
qed

text \<open>
  C4. A request comes back, done and announced. The guest has laid out its queue properly, made some
  requests available and kicked, and is listening. Then, if core 0's task runs, it executes exactly the
  pending requests, each once and in the order of the available ring, and waits again; the used index
  has advanced by their number, and the \<open>k\<close>-th new element of the used ring carries the head of the
  \<open>k\<close>-th request and the length its execution returned; besides what the requests do, only the used
  ring, the consumed index and the flags for kick and completion have changed. And the next host
  interrupt on core 1 puts the guest into its trap handler with an external interrupt, the interrupted
  pc saved.
\<close>

theorem request_completes:
  assumes "well_queued F (mc_core0 s)" and "bk_live (mc_blk s)" and "bk_kick (mc_blk s)"
    and "mc_task s = Waiting" and "bk_last_avail (mc_blk s) \<noteq> avail_idx (mc_core0 s)"
    and "hv_running (mc_hyp s)" and "listening 11 (mc_hyp s)" and "bit (fr_mcause f) 31"
  shows "\<exists>n s1 c1 rs f' h'.
    machine_run drv s (replicate n Blk_task) s1 \<and> mc_task s1 = Waiting \<and>
    map fst rs = pending_heads (mc_core0 s) \<and>
    executes drv (used_region (mc_core0 s)) rs (kick_taken (mc_core0 s)) c1 \<and>
    mc_core0 s1 = on_hyp (on_blk (\<lambda>b. b\<lparr>bk_irq := True\<rparr>)) c1 \<and>
    bk_last_avail (mc_blk s1) = avail_idx (mc_core0 s) \<and>
    used_idx (mc_core0 s1) = used_idx (mc_core0 s) + of_nat (length rs) \<and>
    (\<forall>k < length rs. used_elem (mc_core0 s1) (used_idx (mc_core0 s) + of_nat k) =
                     (ucast (fst (rs ! k)), snd (rs ! k))) \<and>
    hypervisor f (mc_hyp s1) = Some (True, f', h') \<and>
    machine_step drv s1 (Trap f) (on_mc_hyp (\<lambda>_. h') s1) \<and>
    fr_mepc f' = cs_mtvec (hv_shadow (mc_hyp s)) AND NOT 0x3 \<and>
    cs_mcause (hv_shadow h') = 0x8000000B \<and> cs_mepc (hv_shadow h') = fr_mepc f"
proof -
  obtain n c1 c rs where
    run: "machine_run drv s (replicate n Blk_task) (s\<lparr>mc_core0 := c, mc_task := Waiting\<rparr>)"
    and steps: "task_steps drv (Waiting, mc_core0 s) (Waiting, c)"
    and rs: "map fst rs = pending_heads (mc_core0 s)"
      "executes drv (used_region (mc_core0 s)) rs (kick_taken (mc_core0 s)) c1"
      "c = on_hyp (on_blk (\<lambda>b. b\<lparr>bk_irq := True\<rparr>)) c1"
      "used_idx c = used_idx (mc_core0 s) + of_nat (length rs)"
      "\<forall>k < length rs. used_elem c (used_idx (mc_core0 s) + of_nat k) = (ucast (fst (rs ! k)), snd (rs ! k))"
    and c: "bk_irq (c0_blk c)" "bk_last_avail (c0_blk c) = avail_idx (mc_core0 s)"
    using task_serves [OF assms(1-5)] by blast
  have view: "core1_view (on_blk (\<lambda>b. b\<lparr>bk_kick := False\<rparr>) (c0_hyp c)) =
      core1_view (on_blk (\<lambda>b. b\<lparr>bk_kick := False\<rparr>) (mc_hyp s))"
    by (rule task_steps_core1_view [OF steps])
  then have core1: "hv_shadow (c0_hyp c) = hv_shadow (mc_hyp s)" "hv_running (c0_hyp c)" "listening 11 (c0_hyp c)"
    using assms(6,7) by (simp_all add: core1_view_def listening_def)
  from completion_deliverable [OF core1(3) c(1)] have
    mei: "deliverable (irq_entry f (c0_hyp c)) \<noteq> {}" "Max (deliverable (irq_entry f (c0_hyp c))) = MEI"
    by (auto simp: Max_irqs(1))
  obtain f' h' where trap: "hypervisor f (c0_hyp c) = Some (True, f', h')"
    "fr_mepc f' = cs_mtvec (hv_shadow (c0_hyp c)) AND NOT 0x3" "cs_mepc (hv_shadow h') = fr_mepc f"
    "cs_mcause (hv_shadow h') = 0x8000000B"
    using host_interrupt [OF core1(2) assms(8)] core1(3) mei by (auto simp: listening_def)
  let ?s1 = "s\<lparr>mc_core0 := c, mc_task := Waiting\<rparr>"
  have step: "machine_step drv ?s1 (Trap f) (on_mc_hyp (\<lambda>_. h') ?s1)"
    by (rule machine_step.trap [where f' = f']) (simp add: trap(1))
  have s1: "mc_task ?s1 = Waiting" "mc_core0 ?s1 = c" by simp_all
  show ?thesis
    unfolding core1(1) [symmetric]
    by (rule exI [of _ n], rule exI [of _ ?s1], rule exI [of _ c1], rule exI [of _ rs], rule exI [of _ f'],
        rule exI [of _ h'], unfold s1) (intro conjI run refl rs c trap step [unfolded s1])
qed

text \<open>The \<open>GET_ID\<close> ring of \<open>Hyp_Blk\<close>, kicked, under a guest that listens.\<close>

definition demo_machine :: "(nat \<Rightarrow> u8) machine" where
  "demo_machine = \<lparr>
     mc_core0 = on_hyp (on_blk (\<lambda>b. b\<lparr>bk_kick := True\<rparr>))
       (on_hyp (\<lambda>h. h\<lparr>hv_shadow := reset_shadow\<lparr>cs_mstatus := 0x8, cs_mie := 0x800, cs_mtvec := 0x48100001\<rparr>,
                         hv_plic := \<lparr>pl_priority = \<lambda>_. 1, pl_enable = 0x800, pl_pending = 0,
                                      pl_claimed = 0, pl_threshold = 0\<rparr>\<rparr>) (demo_ring 8 2)),
     mc_task = Waiting, mc_service = service_init\<rparr>"

lemma well_queued_other_fields:
  "well_queued F (on_hyp (\<lambda>h. h\<lparr>hv_shadow := a, hv_plic := p\<rparr>) s) = well_queued F s"
  by (simp add: well_queued_def request_ok_def request_at_def avail_region_def used_region_def avail_idx_def
      pending_head_def desc_table_def desc_at_def avail_ring_def used_ring_def Let_def)

lemma demo_machine_facts:
  "well_queued (region 0x48100000 0x810) (mc_core0 demo_machine)" "bk_live (mc_blk demo_machine)"
  "bk_kick (mc_blk demo_machine)" "mc_task demo_machine = Waiting" "hv_running (mc_hyp demo_machine)"
  "listening 11 (mc_hyp demo_machine)" "bit (fr_mcause demo_irq_frame) 31"
proof -
  show "well_queued (region 0x48100000 0x810) (mc_core0 demo_machine)"
    using demo_well_queued by (simp only: demo_machine_def machine.simps well_queued_kick well_queued_other_fields)
qed (simp_all add: demo_machine_def demo_ring_def demo_core0_def demo_hyp_def listening_def demo_irq_frame_def
      bit_numeral_rec)

lemma demo_machine_queue:
  "avail_idx (mc_core0 demo_machine) = 1" "used_idx (mc_core0 demo_machine) = 0"
  "bk_last_avail (mc_blk demo_machine) = 0" "pending_heads (mc_core0 demo_machine) = [0]"
proof -
  have "avail_idx (mc_core0 demo_machine) = avail_idx (demo_ring 8 2)"
    "used_idx (mc_core0 demo_machine) = used_idx (demo_ring 8 2)"
    "pending_head (mc_core0 demo_machine) 0 = pending_head (demo_ring 8 2) 0"
    "bk_last_avail (mc_blk demo_machine) = bk_last_avail (c0_blk (demo_ring 8 2))"
    by (simp_all add: demo_machine_def avail_idx_def used_idx_def pending_head_def avail_ring_def used_ring_def
        desc_table_def Let_def)
  then show "avail_idx (mc_core0 demo_machine) = 1" "used_idx (mc_core0 demo_machine) = 0"
    "bk_last_avail (mc_blk demo_machine) = 0" "pending_heads (mc_core0 demo_machine) = [0]"
    by (simp_all add: pending_heads_def)
qed

lemma demo_machine_pending: "bk_last_avail (mc_blk demo_machine) \<noteq> avail_idx (mc_core0 demo_machine)"
  by (simp add: demo_machine_queue)

theorem request_completes_witness:
  "\<exists>n s1 w f' h'. machine_run ram_driver demo_machine (replicate n Blk_task) s1 \<and>
     used_idx (mc_core0 s1) = 1 \<and> used_elem (mc_core0 s1) 0 = (0, w) \<and>
     hypervisor demo_irq_frame (mc_hyp s1) = Some (True, f', h') \<and>
     cs_mcause (hv_shadow h') = 0x8000000B \<and> cs_mepc (hv_shadow h') = 0x48300000"
proof -
  obtain n s1 rs f' h' where r: "machine_run ram_driver demo_machine (replicate n Blk_task) s1"
    "map fst rs = pending_heads (mc_core0 demo_machine)"
    "used_idx (mc_core0 s1) = used_idx (mc_core0 demo_machine) + of_nat (length rs)"
    "\<forall>k < length rs. used_elem (mc_core0 s1) (used_idx (mc_core0 demo_machine) + of_nat k) =
                     (ucast (fst (rs ! k)), snd (rs ! k))"
    "hypervisor demo_irq_frame (mc_hyp s1) = Some (True, f', h')"
    "cs_mcause (hv_shadow h') = 0x8000000B" "cs_mepc (hv_shadow h') = fr_mepc demo_irq_frame"
    using request_completes [OF demo_machine_facts(1-4) demo_machine_pending demo_machine_facts(5-7), of ram_driver]
    by blast
  moreover from r(2) obtain w where "rs = [(0, w)]" by (auto simp: demo_machine_queue)
  moreover have "fr_mepc demo_irq_frame = 0x48300000" by (simp add: demo_irq_frame_def)
  ultimately show ?thesis
    by (intro exI [of _ n] exI [of _ s1] exI [of _ w] exI [of _ f'] exI [of _ h']) (simp add: demo_machine_queue)
qed

theorem kick_not_lost_witness:
  "\<exists>ws s' us vs m. machine_run ram_driver demo_machine ws s' \<and> mc_task s' = Waiting \<and>
     \<not> bk_kick (mc_blk s') \<and> ws = us @ Blk_task # vs \<and> machine_run ram_driver demo_machine us m \<and>
     bk_kick (mc_blk m) \<and> mc_task m = Waiting"
proof -
  obtain n c where run: "machine_run ram_driver demo_machine (replicate n Blk_task)
      (demo_machine\<lparr>mc_core0 := c, mc_task := Waiting\<rparr>)" and down: "\<not> bk_kick (c0_blk c)"
    using task_serves [OF demo_machine_facts(1-4) demo_machine_pending, of ram_driver] by blast
  have task: "mc_task (demo_machine\<lparr>mc_core0 := c, mc_task := Waiting\<rparr>) = Waiting"
    and kick: "\<not> bk_kick (mc_blk (demo_machine\<lparr>mc_core0 := c, mc_task := Waiting\<rparr>))"
    using down by simp_all
  obtain us vs m where "replicate n Blk_task = us @ Blk_task # vs" "machine_run ram_driver demo_machine us m"
    "bk_kick (mc_blk m)" "mc_task m = Waiting"
    using kick_not_lost [OF run demo_machine_facts(3) kick task] by blast
  with run task kick show ?thesis by (intro exI conjI)
qed

end
