(* ===== verification/Hyp_Kbd.thy ===== *)
theory Hyp_Kbd
  imports Hyp_State Hyp_Memory Hyp_Fifo
begin

text \<open>
  \<open>main/hyp_kbd.c\<close>: a USB keyboard feeding the console. The ring between the cores, the HID usage
  tables, the decoding of a boot report into key presses, and the poll thread with its auto-repeat.
  The USB host stack is CherryUSB's and is a parameter: each iteration of the thread gets what the
  stack returns (\<open>kbd_event\<close>).
\<close>

section \<open>State\<close>

text \<open>The \<open>static\<close> ring and counters, the press-tracking state, and the calls made.\<close>

record kbd =
  kb_head :: u32
  kb_tail :: u32
  kb_overruns :: u32
  kb_devices :: u32
  kb_reports :: u32
  kb_ring :: "nat \<Rightarrow> u8"
  kb_prev :: "u8 list"
  kb_held :: u8
  kb_held_mods :: u8
  kb_held_ms :: u32
  kb_minor_seen :: u8
  kb_calls :: "hwcall list"

definition reset_kbd :: kbd where
  "reset_kbd = \<lparr>kb_head = 0, kb_tail = 0, kb_overruns = 0, kb_devices = 0, kb_reports = 0,
               kb_ring = (\<lambda>_. 0), kb_prev = replicate 6 0, kb_held = 0, kb_held_mods = 0,
               kb_held_ms = 0, kb_minor_seen = 0, kb_calls = []\<rparr>"

abbreviation kbd_call :: "hwcall \<Rightarrow> kbd \<Rightarrow> kbd" where
  "kbd_call c k \<equiv> k\<lparr>kb_calls := kb_calls k @ [c]\<rparr>"

section \<open>The ring that crosses cores\<close>

definition KBD_RING_SIZE :: u32 where "KBD_RING_SIZE = 256"

definition kbd_push :: "u8 \<Rightarrow> kbd \<Rightarrow> kbd" where
  "kbd_push c k =
     (let next_head = (kb_head k + 1) AND (KBD_RING_SIZE - 1)
      in if next_head = kb_tail k then k\<lparr>kb_overruns := kb_overruns k + 1\<rparr>
         else k\<lparr>kb_ring := (kb_ring k)(unat (kb_head k) := c), kb_head := next_head\<rparr>)"

definition kbd_push_str :: "u8 list \<Rightarrow> kbd \<Rightarrow> kbd" where
  "kbd_push_str s k = fold kbd_push s k"

definition hyp_kbd_pop :: "kbd \<Rightarrow> u8 option \<times> kbd" where
  "hyp_kbd_pop k =
     (if kb_tail k = kb_head k then (None, k)
      else (Some (kb_ring k (unat (kb_tail k))),
            k\<lparr>kb_tail := (kb_tail k + 1) AND (KBD_RING_SIZE - 1)\<rparr>))"

definition hyp_kbd_devices :: "kbd \<Rightarrow> u32" where "hyp_kbd_devices k = kb_devices k"
definition hyp_kbd_reports :: "kbd \<Rightarrow> u32" where "hyp_kbd_reports k = kb_reports k"
definition hyp_kbd_overruns :: "kbd \<Rightarrow> u32" where "hyp_kbd_overruns k = kb_overruns k"

section \<open>HID usages to characters\<close>

definition MOD_CTRL :: u8 where "MOD_CTRL = 0x11"
definition MOD_SHIFT :: u8 where "MOD_SHIFT = 0x22"
definition MOD_ALT :: u8 where "MOD_ALT = 0x44"
definition USAGE_MAX :: u8 where "USAGE_MAX = 0x64"

definition usage_plain :: "u8 list" where
  "usage_plain =
     [0, 0, 0, 0] @ c_string ''abcdefghijklm'' @ c_string ''nopqrstuvwxyz'' @
     c_string ''1234567890'' @ [0x0d] @ [0x1b] @ [0x7f] @ [0x09] @ c_string '' '' @
     c_string ''-=[]'' @ [0x5c] @ [0] @ c_string '';'' @ [0x27, 0x60] @ c_string '',./'' @ [0] @
     replicate 12 0 @ replicate 3 0 @ [0] @ replicate 5 0 @ replicate 4 0 @ [0] @
     c_string ''/*-+'' @ [0x0d] @ c_string ''1234567890.''"

definition usage_shift :: "u8 list" where
  "usage_shift =
     [0, 0, 0, 0] @ c_string ''ABCDEFGHIJKLM'' @ c_string ''NOPQRSTUVWXYZ'' @
     c_string ''!@#$%^&*()'' @ [0x0d] @ [0x1b] @ [0x7f] @ [0x09] @ c_string '' '' @
     c_string ''_+{}|'' @ [0] @ c_string '':'' @ [0x22] @ c_string ''~<>?'' @ [0] @
     replicate 12 0 @ replicate 3 0 @ [0] @ replicate 5 0 @ replicate 4 0 @ [0] @
     c_string ''/*-+'' @ [0x0d] @ c_string ''1234567890.''"

text \<open>Keys that are escape sequences; every one of them starts with \<open>\x1b\<close>.\<close>

definition usage_escape :: "u8 \<Rightarrow> u8 list option" where
  "usage_escape usage =
     map_option (\<lambda>s. 0x1b # c_string s)
       (if usage = 0x3a then Some ''OP''
        else if usage = 0x3b then Some ''OQ''
        else if usage = 0x3c then Some ''OR''
        else if usage = 0x3d then Some ''OS''
        else if usage = 0x3e then Some ''[15~''
        else if usage = 0x3f then Some ''[17~''
        else if usage = 0x40 then Some ''[18~''
        else if usage = 0x41 then Some ''[19~''
        else if usage = 0x42 then Some ''[20~''
        else if usage = 0x43 then Some ''[21~''
        else if usage = 0x44 then Some ''[23~''
        else if usage = 0x45 then Some ''[24~''
        else if usage = 0x49 then Some ''[2~''
        else if usage = 0x4a then Some ''[1~''
        else if usage = 0x4b then Some ''[5~''
        else if usage = 0x4c then Some ''[3~''
        else if usage = 0x4d then Some ''[4~''
        else if usage = 0x4e then Some ''[6~''
        else if usage = 0x4f then Some ''[C''
        else if usage = 0x50 then Some ''[D''
        else if usage = 0x51 then Some ''[B''
        else if usage = 0x52 then Some ''[A''
        else None)"

definition emit_usage :: "u8 \<Rightarrow> u8 \<Rightarrow> kbd \<Rightarrow> kbd" where
  "emit_usage usage mods k =
     (case usage_escape usage of
        Some seq \<Rightarrow> kbd_push_str seq k
      | None \<Rightarrow>
          if usage \<ge> USAGE_MAX then k
          else
            let c = (if mods AND MOD_SHIFT \<noteq> 0 then usage_shift ! unat usage
                     else usage_plain ! unat usage);
                base = usage_plain ! unat usage
            in if c = 0 then k
               else if mods AND MOD_CTRL \<noteq> 0 \<and> base \<ge> 0x61 \<and> base \<le> 0x7a then
                 kbd_push (base - 0x61 + 1) k
               else if mods AND MOD_CTRL \<noteq> 0 \<and> base = 0x20 then kbd_push 0x00 k
               else if mods AND MOD_CTRL \<noteq> 0 \<and> base = 0x5b then kbd_push 0x1b k
               else if mods AND MOD_CTRL \<noteq> 0 \<and> base = 0x5c then kbd_push 0x1c k
               else if mods AND MOD_CTRL \<noteq> 0 \<and> base = 0x5d then kbd_push 0x1d k
               else if mods AND MOD_CTRL \<noteq> 0 \<and> base = 0x2d then kbd_push 0x1f k
               else kbd_push c (if mods AND MOD_ALT \<noteq> 0 then kbd_push 0x1b k else k))"

section \<open>Boot reports\<close>

text \<open>The press loop over the six usages, and the whole decoder.\<close>

fun kbd_press_loop :: "u8 list \<Rightarrow> u8 \<Rightarrow> kbd \<Rightarrow> kbd" where
  "kbd_press_loop [] mods k = k"
| "kbd_press_loop (usage # keys) mods k =
     kbd_press_loop keys mods
       (if usage = 0 \<or> usage = 0x01 then k
        else if usage \<in> set (kb_prev k) then k
        else (emit_usage usage mods k)\<lparr>kb_held := usage, kb_held_mods := mods, kb_held_ms := 0\<rparr>)"

definition kbd_handle_report :: "u8 list \<Rightarrow> u8 \<Rightarrow> kbd \<Rightarrow> kbd" where
  "kbd_handle_report keys mods k =
     (let k = kbd_press_loop keys mods k;
          still_held = (kb_held k \<noteq> 0 \<and> kb_held k \<in> set keys);
          k = (if \<not> still_held then k\<lparr>kb_held := 0, kb_held_ms := 0\<rparr> else k)
      in k\<lparr>kb_prev := keys\<rparr>)"

definition selftest_usages :: "u8 list" where
  "selftest_usages = [0x0e, 0x05, 0x07, 0x2d, 0x12, 0x0e, 0x28]"

definition hyp_kbd_selftest :: "kbd \<Rightarrow> kbd" where
  "hyp_kbd_selftest k =
     fold (\<lambda>u k. kbd_handle_report (replicate 6 0) 0 (kbd_handle_report (u # replicate 5 0) 0 k))
       selftest_usages (kbd_call (Printf (Text ''I: kbd: self-test, typing kbd-ok'' [])) k)"

section \<open>The poll thread\<close>

definition REPEAT_DELAY_MS :: u32 where "REPEAT_DELAY_MS = 400"
definition REPEAT_PERIOD_MS :: u32 where "REPEAT_PERIOD_MS = 35"
definition REPORT_WAIT_MS :: u32 where "REPORT_WAIT_MS = 35"
definition RETRY_SLEEP_MS :: u32 where "RETRY_SLEEP_MS = 20"

text \<open>
  What the stack gives one iteration: the result of submitting the transfer (if one is submitted),
  whether the wait got the semaphore, and then the transfer's error code, length and data.
\<close>

record kbd_event =
  ke_submit :: int
  ke_taken :: bool
  ke_errorcode :: int
  ke_actual_length :: int
  ke_report :: "u8 list"

record usb_consts =
  USB_ERR_SHUTDOWN :: int
  USB_ERR_NOTCONN :: int

definition usb_gone :: "usb_consts \<Rightarrow> int \<Rightarrow> bool" where
  "usb_gone u ret = (ret = - USB_ERR_SHUTDOWN u \<or> ret = - USB_ERR_NOTCONN u)"

text \<open>The wait that timed out: only the auto-repeat clock ticks.\<close>

definition kbd_wait_timeout :: "kbd \<Rightarrow> kbd" where
  "kbd_wait_timeout k =
     (if kb_held k \<noteq> 0 then
        let k = k\<lparr>kb_held_ms := kb_held_ms k + REPORT_WAIT_MS\<rparr>
        in if kb_held_ms k \<ge> REPEAT_DELAY_MS then
             let k = emit_usage (kb_held k) (kb_held_mods k) k
             in k\<lparr>kb_held_ms := kb_held_ms k - REPEAT_PERIOD_MS\<rparr>
           else k
      else k)"

text \<open>One iteration: whether the loop goes on, \<open>pending\<close>, and the state.\<close>

definition kbd_thread_iteration ::
  "usb_consts \<Rightarrow> kbd_event \<Rightarrow> bool \<Rightarrow> kbd \<Rightarrow> bool \<times> bool \<times> kbd" where
  "kbd_thread_iteration u e pending k =
     (let k = (if \<not> pending then kbd_call (Call ''usbh_submit_urb'' []) k else k)
      in if \<not> pending \<and> usb_gone u (ke_submit e) then (False, False, k)
         else if \<not> pending \<and> ke_submit e < 0 then
           (True, False, kbd_call (Call ''usb_osal_msleep'' [RETRY_SLEEP_MS]) k)
         else
           let k = kbd_call (Call ''usb_osal_sem_take'' [REPORT_WAIT_MS]) k
           in if \<not> ke_taken e then (True, True, kbd_wait_timeout k)
              else if usb_gone u (ke_errorcode e) then (False, False, k)
              else if ke_errorcode e < 0 \<or> ke_actual_length e < 3 then
                (True, False, kbd_call (Call ''usb_osal_msleep'' [RETRY_SLEEP_MS]) k)
              else
                let k = kbd_handle_report (take 6 (drop 2 (ke_report e))) (ke_report e ! 0) k
                in (True, False, k\<lparr>kb_reports := kb_reports k + 1\<rparr>))"

text \<open>
  The thread against the events of a connection: \<open>None\<close> while it is still looping when the events
  end, otherwise the state after it has cleaned up.
\<close>

fun kbd_thread_loop :: "usb_consts \<Rightarrow> kbd_event list \<Rightarrow> bool \<Rightarrow> kbd \<Rightarrow> kbd option" where
  "kbd_thread_loop u [] pending k = None"
| "kbd_thread_loop u (e # es) pending k =
     (case kbd_thread_iteration u e pending k of
        (go_on, pending, k) \<Rightarrow>
          if go_on then kbd_thread_loop u es pending k
          else
            let k = (if pending then kbd_call (Call ''usbh_kill_urb'' []) k else k);
                k = kbd_call (Printf (Text ''I: kbd: keyboard gone'' [])) k;
                k = kbd_call (Call ''usb_osal_sem_delete'' []) k
            in Some (kbd_call (Call ''usb_osal_thread_delete'' []) k))"

definition hyp_kbd_thread :: "usb_consts \<Rightarrow> bool \<Rightarrow> u32 \<Rightarrow> u32 \<Rightarrow> u32 \<Rightarrow> kbd_event list \<Rightarrow> kbd \<Rightarrow> kbd option"
where
  "hyp_kbd_thread u have_sem intf mps buffer es k =
     (if \<not> have_sem then
        Some (kbd_call (Call ''usb_osal_thread_delete'' [])
                (kbd_call (Printf (Text ''E: kbd: no semaphore for the poll thread'' [])) k))
      else
        let k = kbd_call (Call ''usbh_hid_set_protocol'' [0]) k;
            mps = (if mps > 64 then 64 else mps);
            k = kbd_call (Printf (Text ''I: kbd: keyboard on interface %u, %u-byte reports, buffer @0x%08x'' [intf, mps, buffer])) k
        in kbd_thread_loop u es False k)"

section \<open>Binding\<close>

text \<open>
  A HID interface the class driver binds: its number, protocol, whether it has an interrupt
  endpoint; and whether the thread could be created.
\<close>

definition HID_PROTOCOL_KEYBOARD :: u32 where "HID_PROTOCOL_KEYBOARD = 1"

definition usbh_hid_run :: "u32 \<Rightarrow> u32 \<Rightarrow> bool \<Rightarrow> bool \<Rightarrow> kbd \<Rightarrow> u8 option \<times> kbd" where
  "usbh_hid_run intf protocol has_intin have_thread k =
     (if protocol \<noteq> HID_PROTOCOL_KEYBOARD then
        (None, kbd_call (Printf (Text ''I: kbd: ignoring HID interface %u (protocol %u)'' [intf, protocol])) k)
      else if \<not> has_intin then
        (None, kbd_call (Printf (Text ''W: kbd: keyboard has no interrupt IN endpoint'' [])) k)
      else
        let minor = kb_minor_seen k;
            k = k\<lparr>kb_minor_seen := kb_minor_seen k + 1, kb_devices := kb_devices k + 1\<rparr>;
            k = kbd_call (Call ''usb_osal_thread_create'' [3072]) k
        in (Some minor,
            if \<not> have_thread
            then kbd_call (Printf (Text ''E: kbd: could not create the poll thread'' [])) k else k))"

definition hyp_kbd_init :: "int \<Rightarrow> kbd \<Rightarrow> bool \<times> kbd" where
  "hyp_kbd_init ret k =
     (let k = kbd_call (Call ''usbh_initialize'' [0]) k
      in if ret < 0 then
           (False, kbd_call (Printf (Text ''E: kbd: usbh_initialize: %d'' [of_int ret])) k)
         else
           (True, kbd_call (Printf (Text ''I: kbd: USB host up on HS0; plug in a keyboard'' [])) k))"

section \<open>The ring is a bounded FIFO\<close>

definition kbd_wf :: "kbd \<Rightarrow> bool" where
  "kbd_wf k \<longleftrightarrow> unat (kb_head k) < 256 \<and> unat (kb_tail k) < 256"

definition kbd_contents :: "kbd \<Rightarrow> u8 list" where
  "kbd_contents k = ring_contents 256 (kb_ring k) (unat (kb_head k)) (unat (kb_tail k))"

lemma unat_next_256: "unat x < 256 \<Longrightarrow> unat ((x + 1) AND 255 :: u32) = ring_next 256 (unat x)"
proof -
  assume x: "unat x < 256"
  have "(x + 1) AND 255 = take_bit 8 (x + 1)"
    by (simp add: take_bit_eq_mask mask_eq_exp_minus_1)
  then have "unat ((x + 1) AND 255) = unat (x + 1) mod 256"
    by (simp add: take_bit_eq_mod unat_mod)
  with x show ?thesis
    by (auto simp: ring_next_def unat_word_ariths mod_Suc)
qed

lemma kbd_push_facts:
  assumes "kbd_wf k"
  shows "kbd_wf (kbd_push c k)"
    "kbd_contents (kbd_push c k) =
      (if length (kbd_contents k) < 255 then kbd_contents k @ [c] else kbd_contents k)"
    "kb_overruns (kbd_push c k) =
      (if length (kbd_contents k) < 255 then kb_overruns k else kb_overruns k + 1)"
proof -
  have full: "(kb_head k + 1) AND 255 = kb_tail k \<longleftrightarrow> length (kbd_contents k) = 255"
    using assms by (simp add: word_unat_eq_iff unat_next_256 kbd_wf_def kbd_contents_def ring_full_iff)
  have len: "length (kbd_contents k) \<le> 255"
    using assms ring_len_bound [of "unat (kb_head k)" 256 "unat (kb_tail k)"]
    by (simp add: kbd_wf_def kbd_contents_def)
  show "kbd_wf (kbd_push c k)"
    using assms by (auto simp: kbd_push_def Let_def kbd_wf_def KBD_RING_SIZE_def unat_next_256 ring_next_less)
  show "kb_overruns (kbd_push c k) =
      (if length (kbd_contents k) < 255 then kb_overruns k else kb_overruns k + 1)"
    using full len by (auto simp: kbd_push_def Let_def KBD_RING_SIZE_def)
  show "kbd_contents (kbd_push c k) =
      (if length (kbd_contents k) < 255 then kbd_contents k @ [c] else kbd_contents k)"
  proof (cases "length (kbd_contents k) = 255")
    case True
    with full show ?thesis by (simp add: kbd_push_def Let_def kbd_contents_def KBD_RING_SIZE_def)
  next
    case False
    with full len assms show ?thesis
      by (simp add: kbd_push_def Let_def kbd_contents_def KBD_RING_SIZE_def unat_next_256
          kbd_wf_def ring_push ring_full_iff)
  qed
qed

lemma kbd_empty_iff: "kbd_wf k \<Longrightarrow> kb_tail k = kb_head k \<longleftrightarrow> kbd_contents k = []"
  by (auto simp: kbd_contents_def kbd_wf_def ring_empty_iff word_unat_eq_iff)

lemma kbd_pop_facts:
  assumes "kbd_wf k"
  shows "kbd_wf (snd (hyp_kbd_pop k))"
    "kbd_contents k = [] \<Longrightarrow> hyp_kbd_pop k = (None, k)"
    "kbd_contents k = c # cs \<Longrightarrow> fst (hyp_kbd_pop k) = Some c \<and> kbd_contents (snd (hyp_kbd_pop k)) = cs"
    "kb_overruns (snd (hyp_kbd_pop k)) = kb_overruns k"
proof -
  show "kbd_wf (snd (hyp_kbd_pop k))" "kb_overruns (snd (hyp_kbd_pop k)) = kb_overruns k"
    using assms
    by (auto simp: hyp_kbd_pop_def kbd_wf_def KBD_RING_SIZE_def unat_next_256 ring_next_less)
  show "hyp_kbd_pop k = (None, k)" if "kbd_contents k = []"
    using that kbd_empty_iff [OF assms] by (simp add: hyp_kbd_pop_def)
  show "fst (hyp_kbd_pop k) = Some c \<and> kbd_contents (snd (hyp_kbd_pop k)) = cs"
    if "kbd_contents k = c # cs"
  proof -
    have ne: "unat (kb_head k) \<noteq> unat (kb_tail k)"
      using that kbd_empty_iff [OF assms] by (auto simp: word_unat_eq_iff)
    from ring_pop [of "unat (kb_head k)" 256 "unat (kb_tail k)" "kb_ring k"] ne that assms
    show ?thesis
      by (auto simp: hyp_kbd_pop_def kbd_contents_def kbd_wf_def KBD_RING_SIZE_def unat_next_256)
  qed
qed

interpretation kq: byte_fifo kbd_push hyp_kbd_pop kbd_contents kb_overruns kbd_wf 255
  by unfold_locales
     (use kbd_push_facts kbd_pop_facts
        ring_len_bound [of "unat (kb_head s)" 256 "unat (kb_tail s)" for s] in
       \<open>auto simp: kbd_contents_def kbd_wf_def\<close>)

section \<open>What a key types\<close>

text \<open>The bytes a usage stands for; \<open>emit_usage\<close> pushes exactly these.\<close>

definition usage_bytes :: "u8 \<Rightarrow> u8 \<Rightarrow> u8 list" where
  "usage_bytes usage mods =
     (case usage_escape usage of
        Some seq \<Rightarrow> seq
      | None \<Rightarrow>
          if usage \<ge> USAGE_MAX then []
          else
            let shift = (mods AND MOD_SHIFT \<noteq> 0); ctrl = (mods AND MOD_CTRL \<noteq> 0);
                base = usage_plain ! unat usage;
                c = (if shift then usage_shift ! unat usage else base)
            in if c = 0 then []
               else if ctrl \<and> base \<in> {0x61..0x7a} then [base - 0x60]
               else if ctrl \<and> base \<in> {0x20, 0x5b, 0x5c, 0x5d, 0x2d} then
                 [if base = 0x20 then 0 else if base = 0x2d then 0x1f else base - 0x40]
               else if mods AND MOD_ALT \<noteq> 0 then [0x1b, c] else [c])"

lemma emit_usage_bytes: "emit_usage usage mods k = fold kbd_push (usage_bytes usage mods) k"
  by (auto simp: emit_usage_def usage_bytes_def kbd_push_str_def Let_def split: option.splits)

text \<open>Pushing touches the ring only.\<close>

lemma push_all_frame [simp]:
  "kb_prev (fold kbd_push bs k) = kb_prev k" "kb_held (fold kbd_push bs k) = kb_held k"
  "kb_held_mods (fold kbd_push bs k) = kb_held_mods k"
  "kb_held_ms (fold kbd_push bs k) = kb_held_ms k" "kb_calls (fold kbd_push bs k) = kb_calls k"
  by (induction bs arbitrary: k) (simp_all add: kbd_push_def Let_def)

lemma push_held [simp]:
  "kbd_push c (k\<lparr>kb_held := a\<rparr>) = (kbd_push c k)\<lparr>kb_held := a\<rparr>"
  "kbd_push c (k\<lparr>kb_held_mods := m\<rparr>) = (kbd_push c k)\<lparr>kb_held_mods := m\<rparr>"
  "kbd_push c (k\<lparr>kb_held_ms := t\<rparr>) = (kbd_push c k)\<lparr>kb_held_ms := t\<rparr>"
  by (simp_all add: kbd_push_def Let_def)

lemma push_all_held [simp]:
  "fold kbd_push bs (k\<lparr>kb_held := a\<rparr>) = (fold kbd_push bs k)\<lparr>kb_held := a\<rparr>"
  "fold kbd_push bs (k\<lparr>kb_held_mods := m\<rparr>) = (fold kbd_push bs k)\<lparr>kb_held_mods := m\<rparr>"
  "fold kbd_push bs (k\<lparr>kb_held_ms := t\<rparr>) = (fold kbd_push bs k)\<lparr>kb_held_ms := t\<rparr>"
  by (induction bs arbitrary: k) simp_all

section \<open>A press types its key once\<close>

definition new_keys :: "u8 list \<Rightarrow> u8 list \<Rightarrow> u8 list" where
  "new_keys prev keys = filter (\<lambda>u. u \<noteq> 0 \<and> u \<noteq> 1 \<and> u \<notin> set prev) keys"

lemma kbd_press_loop_new:
  "kbd_press_loop keys mods k =
     (let new = new_keys (kb_prev k) keys;
          k' = fold kbd_push (concat (map (\<lambda>u. usage_bytes u mods) new)) k
      in if new = [] then k
         else k'\<lparr>kb_held := last new, kb_held_mods := mods, kb_held_ms := 0\<rparr>)"
  by (induction keys mods k rule: kbd_press_loop.induct)
     (auto simp: new_keys_def emit_usage_bytes Let_def)

text \<open>The bytes of a report's new presses, in the order of the report.\<close>

definition typed :: "u8 list \<Rightarrow> u8 list \<Rightarrow> u8 \<Rightarrow> u8 list" where
  "typed prev keys mods = concat (map (\<lambda>u. usage_bytes u mods) (new_keys prev keys))"

lemma contents_held [simp]:
  "kbd_contents (k\<lparr>kb_held := a\<rparr>) = kbd_contents k" "kbd_contents (k\<lparr>kb_held_mods := m\<rparr>) = kbd_contents k"
  "kbd_contents (k\<lparr>kb_held_ms := t\<rparr>) = kbd_contents k" "kbd_contents (k\<lparr>kb_prev := p\<rparr>) = kbd_contents k"
  "kbd_contents (k\<lparr>kb_calls := cs\<rparr>) = kbd_contents k"
  "kbd_wf (k\<lparr>kb_held := a\<rparr>) = kbd_wf k" "kbd_wf (k\<lparr>kb_held_mods := m\<rparr>) = kbd_wf k"
  "kbd_wf (k\<lparr>kb_held_ms := t\<rparr>) = kbd_wf k" "kbd_wf (k\<lparr>kb_prev := p\<rparr>) = kbd_wf k"
  "kbd_wf (k\<lparr>kb_calls := cs\<rparr>) = kbd_wf k"
  by (simp_all add: kbd_contents_def kbd_wf_def)

lemma handle_report_facts:
  assumes "kbd_wf k"
  shows "kbd_wf (kbd_handle_report keys mods k)"
    "kbd_contents (kbd_handle_report keys mods k) =
       take 255 (kbd_contents k @ typed (kb_prev k) keys mods)"
    "kb_prev (kbd_handle_report keys mods k) = keys"
    "kb_held (kbd_handle_report keys mods k) =
       (let new = new_keys (kb_prev k) keys; held = (if new = [] then kb_held k else last new)
        in if held \<in> set keys then held else 0)"
proof -
  let ?bs = "typed (kb_prev k) keys mods"
  have len: "length (kbd_contents k) \<le> 255" using assms by (rule kq.bounded)
  have "kbd_press_loop keys mods k =
      (if new_keys (kb_prev k) keys = [] then k
       else (fold kbd_push ?bs k)\<lparr>kb_held := last (new_keys (kb_prev k) keys), kb_held_mods := mods, kb_held_ms := 0\<rparr>)"
    by (simp add: kbd_press_loop_new Let_def typed_def)
  then show "kbd_wf (kbd_handle_report keys mods k)"
    "kbd_contents (kbd_handle_report keys mods k) = take 255 (kbd_contents k @ ?bs)"
    "kb_prev (kbd_handle_report keys mods k) = keys"
    "kb_held (kbd_handle_report keys mods k) =
       (let new = new_keys (kb_prev k) keys; held = (if new = [] then kb_held k else last new)
        in if held \<in> set keys then held else 0)"
    using assms len kq.wf_push_all [OF assms] kq.contents_push_all [OF assms]
    by (auto simp: kbd_handle_report_def Let_def typed_def)
qed

text \<open>
  C30. A press types its key once. A boot report appends to the ring, in order and as far as it has
  room, the bytes of exactly those usages that were not down in the previous report; the same report
  again types nothing; and a key released and pressed again types again.
\<close>

theorem kbd_report_types_presses:
  assumes "kbd_wf k" and "k1 = kbd_handle_report keys mods k"
  shows "kbd_contents k1 = take 255 (kbd_contents k @ typed (kb_prev k) keys mods) \<and>
         kbd_contents (kbd_handle_report keys mods' k1) = kbd_contents k1 \<and>
         kbd_contents (kbd_handle_report keys mods' (kbd_handle_report (replicate 6 0) 0 k1)) =
           take 255 (kbd_contents k1 @ typed (replicate 6 0) keys mods')"
proof -
  note f1 = handle_report_facts [OF assms(1), of keys mods, folded assms(2)]
  note rel = handle_report_facts [OF f1(1), of "replicate 6 0" 0]
  have none: "typed keys keys mods' = []" "typed prev (replicate 6 0) 0 = []" for prev
    by (simp_all add: typed_def new_keys_def filter_empty_conv)
  have short: "take 255 (kbd_contents k1) = kbd_contents k1"
    using kq.bounded [OF f1(1)] by simp
  have "kbd_contents (kbd_handle_report keys mods' k1) = kbd_contents k1"
    using handle_report_facts(2) [OF f1(1), of keys mods'] f1(3) none short by simp
  moreover have "kbd_contents (kbd_handle_report (replicate 6 0) 0 k1) = kbd_contents k1"
    using rel(2) none short by simp
  ultimately show ?thesis
    using f1(2) handle_report_facts(2) [OF rel(1), of keys mods'] rel(3) by simp
qed

definition demo_kbd_report :: kbd where
  "demo_kbd_report = kbd_handle_report [0x04, 0x05, 0, 0, 0, 0] 0x02 reset_kbd"

lemma reset_kbd_wf: "kbd_wf reset_kbd" "kbd_contents reset_kbd = []"
  by (simp_all add: kbd_wf_def reset_kbd_def kbd_contents_def ring_contents_def ring_len_def)

theorem kbd_report_types_presses_witness:
  "kbd_contents demo_kbd_report = c_string ''AB'' \<and>
   kbd_contents (kbd_handle_report [0x04, 0x05, 0, 0, 0, 0] 0x02 demo_kbd_report) = c_string ''AB''"
proof -
  have "typed (kb_prev reset_kbd) [0x04, 0x05, 0, 0, 0, 0] 0x02 = c_string ''AB''" by code_simp
  with kbd_report_types_presses [OF reset_kbd_wf(1) refl, of "[0x04, 0x05, 0, 0, 0, 0]" "0x02" "0x02"]
    reset_kbd_wf(2)
  show ?thesis by (simp add: demo_kbd_report_def c_string_def)
qed

section \<open>Auto-repeat\<close>

text \<open>
  Auto-repeat timing. With a key held and no new report, the wait times out every 35 ms: the
  first eleven time-outs type nothing, the twelfth (420 ms, the first multiple of 35 past the
  400 ms delay) repeats the key, and every later one repeats it again, so the repeat period is one
  wait and the counter stays at 385.
\<close>

theorem kbd_auto_repeat:
  assumes "kb_held k \<noteq> 0" and "kb_held_ms k = 0"
  shows "(kbd_wait_timeout ^^ n) k =
    (fold kbd_push (concat (replicate (n - 11) (usage_bytes (kb_held k) (kb_held_mods k)))) k)
      \<lparr>kb_held_ms := if n \<le> 11 then of_nat (35 * n) else 385\<rparr>"
proof (induction n)
  case 0
  then show ?case using assms by simp
next
  case (Suc n)
  let ?b = "usage_bytes (kb_held k) (kb_held_mods k)"
  let ?k = "(kbd_wait_timeout ^^ n) k"
  have held: "kb_held ?k = kb_held k" "kb_held_mods ?k = kb_held_mods k"
    and ms: "kb_held_ms ?k = (if n \<le> 11 then of_nat (35 * n) else 385)"
    by (simp_all add: Suc)
  show ?case
  proof (cases "n < 11")
    case True
    then have "\<not> of_nat (35 * n) + 35 \<ge> (400 :: u32)"
      by (simp add: word_le_nat_alt unat_word_ariths unat_of_nat)
    with True Suc held ms assms show ?thesis
      by (simp add: kbd_wait_timeout_def REPORT_WAIT_MS_def REPEAT_DELAY_MS_def Let_def algebra_simps)
  next
    case False
    then have ms385: "kb_held_ms ?k = 385" using ms by (cases "n = 11") simp_all
    have "concat (replicate (Suc n - 11) ?b) = concat (replicate (n - 11) ?b) @ ?b"
    proof -
      have "Suc n - 11 = Suc (n - 11)" using False by simp
      then have "replicate (Suc n - 11) ?b = replicate (n - 11) ?b @ [?b]"
        by (simp only: replicate_append_same replicate_Suc)
      then show ?thesis by (simp del: replicate.simps)
    qed
    with False Suc held ms385 assms show ?thesis
      by (simp add: kbd_wait_timeout_def REPORT_WAIT_MS_def REPEAT_DELAY_MS_def REPEAT_PERIOD_MS_def
          emit_usage_bytes Let_def)
  qed
qed

theorem kbd_auto_repeat_witness:
  "(kbd_wait_timeout ^^ 13) (reset_kbd\<lparr>kb_held := 0x04\<rparr>) =
     (fold kbd_push (c_string ''aa'') (reset_kbd\<lparr>kb_held := 0x04\<rparr>))\<lparr>kb_held_ms := 385\<rparr>"
proof -
  have "concat (replicate 2 (usage_bytes 0x04 0)) = c_string ''aa''" by code_simp
  with kbd_auto_repeat [of "reset_kbd\<lparr>kb_held := 0x04\<rparr>" 13] show ?thesis
    by (simp add: reset_kbd_def)
qed

section \<open>The self-test\<close>

lemma report_pair:
  assumes "kbd_wf k" and "kb_prev k = replicate 6 0"
  shows "kbd_wf (kbd_handle_report (replicate 6 0) 0 (kbd_handle_report (u # replicate 5 0) 0 k)) \<and>
    kb_prev (kbd_handle_report (replicate 6 0) 0 (kbd_handle_report (u # replicate 5 0) 0 k)) = replicate 6 0 \<and>
    kbd_contents (kbd_handle_report (replicate 6 0) 0 (kbd_handle_report (u # replicate 5 0) 0 k)) =
      take 255 (kbd_contents k @ typed (replicate 6 0) (u # replicate 5 0) 0)"
proof -
  note f1 = handle_report_facts [OF assms(1), of "u # replicate 5 0" 0]
  note f2 = handle_report_facts [OF f1(1), of "replicate 6 0" 0]
  have "typed p (replicate 6 0) 0 = []" for p by (simp add: typed_def new_keys_def)
  with f1 f2 assms(2) kq.bounded [OF assms(1)] show ?thesis by (simp add: min_absorb1)
qed

lemma take_take_append: "take n (take n xs @ ys) = take n (xs @ ys)"
  by (cases "length xs \<le> n") simp_all

lemma selftest_fold:
  assumes "kbd_wf k" and "kb_prev k = replicate 6 0"
  shows "kbd_contents (fold (\<lambda>u k. kbd_handle_report (replicate 6 0) 0
             (kbd_handle_report (u # replicate 5 0) 0 k)) us k) =
    take 255 (kbd_contents k @ concat (map (\<lambda>u. typed (replicate 6 0) (u # replicate 5 0) 0) us))"
  using assms
proof (induction us arbitrary: k)
  case Nil
  then show ?case using kq.bounded [of k] by simp
next
  case (Cons u us)
  note p = report_pair [OF Cons.prems, of u]
  then have "kbd_contents (fold (\<lambda>u k. kbd_handle_report (replicate 6 0) 0
             (kbd_handle_report (u # replicate 5 0) 0 k)) us
           (kbd_handle_report (replicate 6 0) 0 (kbd_handle_report (u # replicate 5 0) 0 k))) =
      take 255 (take 255 (kbd_contents k @ typed (replicate 6 0) (u # replicate 5 0) 0) @
        concat (map (\<lambda>u. typed (replicate 6 0) (u # replicate 5 0) 0) us))"
    using Cons.IH by metis
  then show ?case by (simp only: fold_simps take_take_append list.map concat.simps append.assoc)
qed

text \<open>
  The self-test types \<open>kbd-ok\<close> and Enter through the whole decoding path: with no key down
  before, it appends exactly these seven bytes to the ring, as far as it has room.
\<close>

theorem hyp_kbd_selftest_types:
  assumes "kbd_wf k" and "kb_prev k = replicate 6 0"
  shows "kbd_contents (hyp_kbd_selftest k) = take 255 (kbd_contents k @ c_string ''kbd-ok'' @ [0x0d])"
proof -
  have "concat (map (\<lambda>u. typed (replicate 6 0) (u # replicate 5 0) 0) selftest_usages) =
      c_string ''kbd-ok'' @ [0x0d]" by code_simp
  then show ?thesis
    using selftest_fold [of "kbd_call (Printf (Text ''I: kbd: self-test, typing kbd-ok'' [])) k" selftest_usages]
      assms by (simp add: hyp_kbd_selftest_def del: replicate.simps)
qed

theorem hyp_kbd_selftest_types_witness:
  "kbd_contents (hyp_kbd_selftest reset_kbd) = c_string ''kbd-ok'' @ [0x0d]"
  using hyp_kbd_selftest_types [OF reset_kbd_wf(1)] reset_kbd_wf(2)
  by (simp add: reset_kbd_def c_string_def)

end
