(* ===== verification/Native_Boot.thy ===== *)
theory Native_Boot
  imports Hyp_Boot
begin

text \<open>
  \<open>native/linux-native/main/main.c\<close>: the boot shim of the native line, which runs Linux on the bare
  chip. It clocks the SD and display controllers, copies kernel and device tree out of flash a page
  at a time, patches the root file system's address into the device tree, opens the memory to
  U-mode and jumps; anything that goes wrong before the jump restarts the chip.
\<close>

section \<open>The machine\<close>

text \<open>
  Memory, the memory-mapped registers the shim changes, the two PMP registers, and the calls and
  log lines in order.
\<close>

record shim =
  sh_mem :: mem
  sh_regs :: "u32 \<Rightarrow> u32"
  sh_pmpaddr9 :: u32
  sh_pmpcfg2 :: u32
  sh_calls :: "hwcall list"

abbreviation sh_call :: "hwcall \<Rightarrow> shim \<Rightarrow> shim" where
  "sh_call c s \<equiv> s\<lparr>sh_calls := sh_calls s @ [c]\<rparr>"

abbreviation sh_log :: "string \<Rightarrow> u32 list \<Rightarrow> shim \<Rightarrow> shim" where
  "sh_log t xs s \<equiv> sh_call (Printf (Text t xs)) s"

text \<open>The flash as the shim reaches it (partition sizes, mappings, bytes) and the GPIO driver's answer.\<close>

record shim_env =
  nf_find :: "string \<Rightarrow> u32 option"
  nf_mmap :: "string \<Rightarrow> u32 \<Rightarrow> u32 \<Rightarrow> u32 \<times> u32"
  nf_byte :: "string \<Rightarrow> nat \<Rightarrow> u8"
  nf_gpio_config :: u32

datatype shim_end = Restart | Jump (jump_pc: u32) (jump_a0: u32) (jump_a1: u32)

definition KERNEL_LOAD_PA :: u32 where "KERNEL_LOAD_PA = 0x48000000"
definition DTB_LOAD_PA :: u32 where "DTB_LOAD_PA = 0x48800000"
definition RISCV_IMAGE_MAGIC :: u64 where "RISCV_IMAGE_MAGIC = 0x5643534952"
definition CONFIG_MMU_PAGE_SIZE :: u32 where "CONFIG_MMU_PAGE_SIZE = 0x10000"

section \<open>The jump\<close>

definition pmp_grant_psram_umode :: "shim \<Rightarrow> shim" where
  "pmp_grant_psram_umode s =
     (let s = s\<lparr>sh_pmpaddr9 := 0x127FFFFF\<rparr>
      in s\<lparr>sh_pmpcfg2 := (sh_pmpcfg2 s AND NOT (push_bit 8 0xFF)) OR push_bit 8 0x1F\<rparr>)"

definition do_boot :: "u32 \<Rightarrow> u32 \<Rightarrow> shim \<Rightarrow> shim_end \<times> shim" where
  "do_boot entry dtb_pa s =
     (let s = sh_call (Call ''csrci mstatus'' [0x8]) s;
          s = pmp_grant_psram_umode s;
          s = sh_call (Call ''fence.i'' []) s
      in (Jump entry 0 dtb_pa, s))"

section \<open>Loading\<close>

text \<open>One page's worth of a partition, from offset \<open>done\<close>, into memory.\<close>

definition load_chunk :: "u32 \<Rightarrow> u32 \<Rightarrow> u32" where
  "load_chunk size1 done1 =
     (let part_off = done1 AND NOT (CONFIG_MMU_PAGE_SIZE - 1); intra = done1 - part_off
      in min (CONFIG_MMU_PAGE_SIZE - intra) (size1 - done1))"

lemma load_chunk_facts:
  assumes "done1 < size1"
  shows "0 < unat (load_chunk size1 done1)" "unat (load_chunk size1 done1) \<le> unat size1 - unat done1"
proof -
  have "done1 - (done1 AND NOT 0xFFFF) = done1 AND 0xFFFF"
  proof -
    have "done1 = (done1 AND NOT 0xFFFF) OR (done1 AND 0xFFFF)"
      by (intro u32_eqI) (auto simp: bit_simps)
    also have "\<dots> = (done1 AND NOT 0xFFFF) + (done1 AND 0xFFFF)"
      by (rule disjunctive_add [symmetric]) (auto simp: bit_simps)
    finally show ?thesis by (metis add_diff_cancel_left')
  qed
  moreover have "unat (done1 AND 0xFFFF) < 0x10000"
    using word_and_le1 [of done1 "0xFFFF"] by (simp add: word_le_nat_alt)
  ultimately have "unat (CONFIG_MMU_PAGE_SIZE - (done1 - (done1 AND NOT (CONFIG_MMU_PAGE_SIZE - 1)))) > 0"
    by (simp add: CONFIG_MMU_PAGE_SIZE_def unat_sub_if_size)
  moreover have diff: "unat (size1 - done1) = unat size1 - unat done1"
    using assms by (simp add: unat_sub_if_size word_less_nat_alt)
  ultimately show "0 < unat (load_chunk size1 done1)"
    using assms by (auto simp: load_chunk_def Let_def min_def word_less_nat_alt)
  show "unat (load_chunk size1 done1) \<le> unat size1 - unat done1"
    by (auto simp: load_chunk_def Let_def min_def word_le_nat_alt simp flip: diff)
qed

lemma load_chunk_next:
  assumes "done1 < size1"
  shows "unat (done1 + load_chunk size1 done1) = unat done1 + unat (load_chunk size1 done1)"
proof -
  have "unat size1 < 2 ^ LENGTH(32)" by (rule unsigned_less)
  with load_chunk_facts(2) [OF assms] assms show ?thesis
    by (intro unat_add_lem [THEN iffD1]) (auto simp: word_less_nat_alt)
qed

lemma load_chunk_progress:
  assumes "done1 < size1"
  shows "unat size1 - unat (done1 + load_chunk size1 done1) < unat size1 - unat done1"
proof -
  from assms have "unat done1 < unat size1" by (simp add: word_less_nat_alt)
  with load_chunk_facts [OF assms] show ?thesis unfolding load_chunk_next [OF assms] by linarith
qed

function load_partition_loop ::
  "shim_env \<Rightarrow> string \<Rightarrow> u32 \<Rightarrow> u32 \<Rightarrow> u32 \<Rightarrow> shim \<Rightarrow> u32 \<times> shim" where
  "load_partition_loop ev part psram_pa size1 done1 s =
     (if done1 < size1 then
        let part_off = done1 AND NOT (CONFIG_MMU_PAGE_SIZE - 1);
            n = load_chunk size1 done1;
            err = fst (nf_mmap ev part part_off CONFIG_MMU_PAGE_SIZE)
        in if err \<noteq> ESP_OK then
             (err, sh_log ''mmap part+0x%x => %d'' [part_off, err] s)
           else
             let s = s\<lparr>sh_mem := wr_bytes (psram_pa + done1)
                        (map (nf_byte ev part) [unat done1 ..< unat done1 + unat n]) (sh_mem s)\<rparr>;
                 s = sh_call (Call ''esp_partition_munmap'' []) s;
                 s = (if (done1 + n) AND 0xFFFFF = 0 \<or> done1 + n = size1
                      then sh_log ''%u / %u KB'' [(done1 + n) div 1024, size1 div 1024] s else s)
             in load_partition_loop ev part psram_pa size1 (done1 + n) s
      else (ESP_OK, sh_call (Call ''cache_hal_writeback_addr'' [psram_pa, size1]) s))"
  by pat_completeness auto

termination
  by (relation "measure (\<lambda>(ev, part, psram_pa, size1, done1, s). unat size1 - unat done1)")
     (auto simp: load_chunk_progress)

declare load_partition_loop.simps [simp del]

definition load_partition_mmap :: "shim_env \<Rightarrow> string \<Rightarrow> u32 \<Rightarrow> u32 \<Rightarrow> shim \<Rightarrow> u32 \<times> shim" where
  "load_partition_mmap ev part psram_pa size1 s = load_partition_loop ev part psram_pa size1 0 s"

text \<open>A little-endian 64-bit field of the mapped header page.\<close>

definition header64 :: "shim_env \<Rightarrow> string \<Rightarrow> nat \<Rightarrow> u64" where
  "header64 ev part off =
     fold (\<lambda>i v. v OR push_bit (8 * i) (ucast (nf_byte ev part (off + i)))) [0..<8] 0"

definition probe_kernel_size :: "shim_env \<Rightarrow> string \<Rightarrow> u32 \<Rightarrow> shim \<Rightarrow> u32 \<times> shim" where
  "probe_kernel_size ev part part_size s =
     (let err = fst (nf_mmap ev part 0 CONFIG_MMU_PAGE_SIZE)
      in if err \<noteq> ESP_OK then (0, sh_log ''header mmap failed: %d'' [err] s)
         else
           let magic = header64 ev part 48;
               (size1, s) =
                 (if magic \<noteq> RISCV_IMAGE_MAGIC then
                    (0, sh_log ''No RISC-V Image magic (got 0x%016llx) -- kernel partition is not a flat Image''
                          [ucast (drop_bit 32 magic), ucast magic] s)
                  else
                    let image_size = header64 ev part 16
                    in if image_size = 0 \<or> image_size > ucast part_size then
                         (part_size, sh_log ''image_size=0x%llx invalid -- using partition size''
                                       [ucast (drop_bit 32 image_size), ucast image_size] s)
                       else
                         (ucast image_size,
                          sh_log ''Image magic OK, size=%u KB'' [ucast (image_size div 1024)] s))
           in (size1, sh_call (Call ''esp_partition_munmap'' []) s))"

section \<open>Clocks and pins\<close>

definition boot_shim_reg_setbits :: "u32 \<Rightarrow> u32 \<Rightarrow> shim \<Rightarrow> shim" where
  "boot_shim_reg_setbits addr m s = s\<lparr>sh_regs := (sh_regs s)(addr := sh_regs s addr OR m)\<rparr>"

definition boot_shim_reg_clrsetbits :: "u32 \<Rightarrow> u32 \<Rightarrow> u32 \<Rightarrow> shim \<Rightarrow> shim" where
  "boot_shim_reg_clrsetbits addr clr set1 s =
     s\<lparr>sh_regs := (sh_regs s)(addr := (sh_regs s addr AND NOT clr) OR set1)\<rparr>"

definition PMU_EXT_LDO_P1_0P2A :: u32 where "PMU_EXT_LDO_P1_0P2A = 0x50115000 + 0x1d8"
definition PMU_LDO4_FORCE_TIEH_SEL :: u32 where "PMU_LDO4_FORCE_TIEH_SEL = push_bit 7 1"
definition PMU_LDO4_XPD :: u32 where "PMU_LDO4_XPD = push_bit 8 1"
definition PMU_LDO4_TIEH_SEL_MASK :: u32 where "PMU_LDO4_TIEH_SEL_MASK = push_bit 9 0x7"
definition PMU_LDO4_TIEH :: u32 where "PMU_LDO4_TIEH = push_bit 14 1"
definition HP_CLKRST_SOC_CLK_CTRL1 :: u32 where "HP_CLKRST_SOC_CLK_CTRL1 = 0x500E6000 + 0x18"
definition SOC_CLK_CTRL1_SDMMC_SYS_CLK_EN :: u32 where "SOC_CLK_CTRL1_SDMMC_SYS_CLK_EN = push_bit 14 1"
definition HP_CLKRST_PERI_CLK_CTRL01 :: u32 where "HP_CLKRST_PERI_CLK_CTRL01 = 0x500E6000 + 0x34"
definition PERI01_SDIO_HS_MODE :: u32 where "PERI01_SDIO_HS_MODE = push_bit 22 1"
definition PERI01_SDIO_LS_CLK_SRC_SEL :: u32 where "PERI01_SDIO_LS_CLK_SRC_SEL = push_bit 23 1"
definition PERI01_SDIO_LS_CLK_EN :: u32 where "PERI01_SDIO_LS_CLK_EN = push_bit 24 1"
definition HP_CLKRST_PERI_CLK_CTRL02 :: u32 where "HP_CLKRST_PERI_CLK_CTRL02 = 0x500E6000 + 0x38"
definition PERI02_LS_EDGE_CFG_UPDATE :: u32 where "PERI02_LS_EDGE_CFG_UPDATE = push_bit 8 1"
definition LP_CLKRST_HP_SDMMC_EMAC_RST :: u32 where "LP_CLKRST_HP_SDMMC_EMAC_RST = 0x50111000 + 0x4c"
definition RST_EN_SDMMC :: u32 where "RST_EN_SDMMC = push_bit 28 1"

lemmas shim_regs_defs =
  PMU_EXT_LDO_P1_0P2A_def PMU_LDO4_FORCE_TIEH_SEL_def PMU_LDO4_XPD_def PMU_LDO4_TIEH_SEL_MASK_def
  PMU_LDO4_TIEH_def HP_CLKRST_SOC_CLK_CTRL1_def SOC_CLK_CTRL1_SDMMC_SYS_CLK_EN_def
  HP_CLKRST_PERI_CLK_CTRL01_def PERI01_SDIO_HS_MODE_def PERI01_SDIO_LS_CLK_SRC_SEL_def
  PERI01_SDIO_LS_CLK_EN_def HP_CLKRST_PERI_CLK_CTRL02_def PERI02_LS_EDGE_CFG_UPDATE_def
  LP_CLKRST_HP_SDMMC_EMAC_RST_def RST_EN_SDMMC_def

definition sdmmc_iomux_pins :: "u32 list" where
  "sdmmc_iomux_pins = [39, 40, 41, 42, 43, 44]"

text \<open>The body of the pin loop: function 0, internal pull-up, input, full drive strength.\<close>

definition sdmmc_route_pin :: "u32 \<Rightarrow> shim \<Rightarrow> shim" where
  "sdmmc_route_pin pin =
     fold sh_call
       [Call ''gpio_pulldown_dis'' [pin], Call ''gpio_pullup_en'' [pin], Call ''gpio_input_enable'' [pin],
        Call ''gpio_iomux_output'' [pin, 0], Call ''gpio_set_drive_capability'' [pin, 3]]"

definition PERI02_LS_EDGE_L_SHIFT :: nat where [simp]: "PERI02_LS_EDGE_L_SHIFT = 9"
definition PERI02_LS_EDGE_H_SHIFT :: nat where [simp]: "PERI02_LS_EDGE_H_SHIFT = 13"
definition PERI02_LS_EDGE_N_SHIFT :: nat where [simp]: "PERI02_LS_EDGE_N_SHIFT = 17"
definition PERI02_LS_SLF_EDGE_SEL_SHIFT :: nat where [simp]: "PERI02_LS_SLF_EDGE_SEL_SHIFT = 21"
definition PERI02_LS_DRV_EDGE_SEL_SHIFT :: nat where [simp]: "PERI02_LS_DRV_EDGE_SEL_SHIFT = 23"
definition PERI02_LS_SAM_EDGE_SEL_SHIFT :: nat where [simp]: "PERI02_LS_SAM_EDGE_SEL_SHIFT = 25"
definition PERI02_LS_SLF_CLK_EN :: u32 where [simp]: "PERI02_LS_SLF_CLK_EN = push_bit 27 1"
definition PERI02_LS_DRV_CLK_EN :: u32 where [simp]: "PERI02_LS_DRV_CLK_EN = push_bit 28 1"
definition PERI02_LS_SAM_CLK_EN :: u32 where [simp]: "PERI02_LS_SAM_CLK_EN = push_bit 29 1"

definition peri02_clear :: u32 where
  "peri02_clear = push_bit PERI02_LS_EDGE_L_SHIFT 0xF OR push_bit PERI02_LS_EDGE_H_SHIFT 0xF OR
                  push_bit PERI02_LS_EDGE_N_SHIFT 0xF OR push_bit PERI02_LS_SLF_EDGE_SEL_SHIFT 0x3 OR
                  push_bit PERI02_LS_DRV_EDGE_SEL_SHIFT 0x3 OR push_bit PERI02_LS_SAM_EDGE_SEL_SHIFT 0x3"

definition peri02_set :: u32 where
  "peri02_set = push_bit PERI02_LS_EDGE_L_SHIFT 3 OR push_bit PERI02_LS_EDGE_H_SHIFT 1 OR
                push_bit PERI02_LS_EDGE_N_SHIFT 3 OR push_bit PERI02_LS_DRV_EDGE_SEL_SHIFT 1 OR
                PERI02_LS_DRV_CLK_EN OR PERI02_LS_SAM_CLK_EN OR PERI02_LS_SLF_CLK_EN"

definition boot_shim_init_sdmmc :: "shim \<Rightarrow> shim" where
  "boot_shim_init_sdmmc s =
     (let s = boot_shim_reg_clrsetbits PMU_EXT_LDO_P1_0P2A PMU_LDO4_TIEH_SEL_MASK
                (PMU_LDO4_XPD OR PMU_LDO4_FORCE_TIEH_SEL OR PMU_LDO4_TIEH) s;
          s = sh_call (Call ''esp_rom_delay_us'' [1000]) s;
          s = boot_shim_reg_setbits HP_CLKRST_SOC_CLK_CTRL1 SOC_CLK_CTRL1_SDMMC_SYS_CLK_EN s;
          s = boot_shim_reg_setbits LP_CLKRST_HP_SDMMC_EMAC_RST RST_EN_SDMMC s;
          s = boot_shim_reg_clrsetbits LP_CLKRST_HP_SDMMC_EMAC_RST RST_EN_SDMMC 0 s;
          s = boot_shim_reg_clrsetbits HP_CLKRST_PERI_CLK_CTRL01
                (PERI01_SDIO_LS_CLK_SRC_SEL OR PERI01_SDIO_HS_MODE) PERI01_SDIO_LS_CLK_EN s;
          s = boot_shim_reg_clrsetbits HP_CLKRST_PERI_CLK_CTRL02 peri02_clear peri02_set s;
          s = boot_shim_reg_setbits HP_CLKRST_PERI_CLK_CTRL02 PERI02_LS_EDGE_CFG_UPDATE s;
          s = boot_shim_reg_clrsetbits HP_CLKRST_PERI_CLK_CTRL02 PERI02_LS_EDGE_CFG_UPDATE 0 s;
          s = fold sdmmc_route_pin sdmmc_iomux_pins s;
          s = sh_call (Call ''esp_rom_delay_us'' [10]) s
      in sh_log ''SDMMC slot-0 ready: LDO4=3v3, BUS_CLK=on, LS_CLK=PLL160M/4=40MHz'' [] s)"

text \<open>The display's clocks; the helpers are the chip's low-level driver.\<close>

definition boot_shim_init_dsi_clocks :: "shim \<Rightarrow> shim" where
  "boot_shim_init_dsi_clocks s =
     (let s = fold sh_call
                [Call ''_mipi_dsi_ll_enable_bus_clock'' [0, 1], Call ''mipi_dsi_ll_reset_register'' [0],
                 Call ''_mipi_dsi_ll_set_phy_config_clock_source PLL_F20M'' [0],
                 Call ''mipi_dsi_ll_enable_phy_config_clock'' [0, 1],
                 Call ''_mipi_dsi_ll_set_phy_pllref_clock_source PLL_F20M'' [0],
                 Call ''mipi_dsi_ll_set_phy_pll_ref_clock_div'' [0, 1],
                 Call ''mipi_dsi_ll_enable_phy_pllref_clock'' [0, 1]] s
      in sh_log ''MIPI DSI clocks on: bus + DPHY cfg + PLL ref (PLL_F20M/1)'' [] s)"

text \<open>\<open>False\<close>: \<open>ESP_ERROR_CHECK\<close> has aborted.\<close>

definition boot_shim_kick_c6 :: "shim_env \<Rightarrow> shim \<Rightarrow> bool \<times> shim" where
  "boot_shim_kick_c6 ev s =
     (let s = sh_call (Call ''gpio_config'' [push_bit 12 1 OR push_bit 13 1]) s
      in if nf_gpio_config ev \<noteq> ESP_OK then (False, s)
         else
           let s = fold sh_call
                     [Call ''gpio_set_level'' [13, 1], Call ''gpio_set_level'' [12, 1],
                      Call ''vTaskDelay pdMS_TO_TICKS'' [5], Call ''gpio_set_level'' [12, 0],
                      Call ''vTaskDelay pdMS_TO_TICKS'' [20], Call ''gpio_set_level'' [12, 1]] s;
               s = sh_log ''C6 released from reset (shim-side kick)'' [] s
           in (True, sh_call (Call ''vTaskDelay pdMS_TO_TICKS'' [1000]) s))"

section \<open>The whole boot\<close>

text \<open>
  The prewalk of the mapped file system: the offsets of \<open>for (off = start; off < size; off += stride)\<close>,
  once per MMU page and then per cache line over the last 64 KB. The reads warm the cache and have
  no other effect. The offsets are naturals: the 32-bit counter of the code wraps only for a
  partition within 64 KB of 4 GB, which no flash chip holds.
\<close>

function walk_offsets :: "nat \<Rightarrow> nat \<Rightarrow> nat \<Rightarrow> nat list" where
  "walk_offsets stride size1 off =
     (if 0 < stride \<and> off < size1 then off # walk_offsets stride size1 (off + stride) else [])"
  by pat_completeness auto
termination
  by (relation "measure (\<lambda>(stride, size1, off). size1 - off)") auto

declare walk_offsets.simps [simp del]

definition prewalk :: "u32 \<Rightarrow> nat list" where
  "prewalk rootfs_size =
     (let fine_window = 64 * 1024;
          fine_start = (if rootfs_size > fine_window then rootfs_size - fine_window else 0)
      in walk_offsets (64 * 1024) (unat rootfs_size) 0 @
         walk_offsets 64 (unat rootfs_size) (unat fine_start))"

definition native_needle :: "u8 list" where
  "native_needle = [0xde, 0xad, 0xbe, 0xef, 0xca, 0xfe, 0xfa, 0xde]"

text \<open>The patch of the device tree; \<open>False\<close> is a restart.\<close>

definition native_patch_dtb :: "u32 \<Rightarrow> u32 \<Rightarrow> u32 \<Rightarrow> shim \<Rightarrow> bool \<times> shim" where
  "native_patch_dtb dtb_size rootfs_va32 rootfs_size s =
     (let m = sh_mem s
      in if m DTB_LOAD_PA \<noteq> 0xd0 \<or> m (DTB_LOAD_PA + 1) \<noteq> 0x0d \<or>
            m (DTB_LOAD_PA + 2) \<noteq> 0xfe \<or> m (DTB_LOAD_PA + 3) \<noteq> 0xed then
           (False, sh_log ''DTB magic not found at 0x%08x -- wrong load addr?'' [DTB_LOAD_PA] s)
         else
           let dtb_total = be32 m (DTB_LOAD_PA + 4)
           in if dtb_total < 16 \<or> dtb_total > dtb_size then
                (False, sh_log ''DTB totalsize 0x%x out of range'' [dtb_total] s)
              else
                let s' = (case mem_find m DTB_LOAD_PA native_needle (unat dtb_total - 7) 0 of
                   None \<Rightarrow>
                     sh_log ''DTB placeholder 0xdeadbeef/0xcafefade not found -- Linux will fail to mount root'' [] s
                 | Some i \<Rightarrow>
                     sh_call (Call ''cache_hal_writeback_addr'' [DTB_LOAD_PA, dtb_total])
                       (sh_log ''DTB flash@... reg patched at offset 0x%x'' [of_nat i]
                         (s\<lparr>sh_mem := wr_bytes (DTB_LOAD_PA + of_nat i)
                              (be32_bytes rootfs_va32 @ be32_bytes rootfs_size) m\<rparr>)))
                in (True, s'))"

text \<open>The block that reads the mapped file system: its magic, then the prewalk.\<close>

definition native_prewalk :: "shim_env \<Rightarrow> u32 \<Rightarrow> u32 \<Rightarrow> shim \<Rightarrow> shim" where
  "native_prewalk ev rootfs_va32 rootfs_size s =
     (let p = nf_byte ev ''rootfs'';
          s = sh_log ''rootfs mapped @0x%08x size=%u KB; magic=%02x %02x %02x %02x''
                [rootfs_va32, rootfs_size div 1024, ucast (p 0), ucast (p 1), ucast (p 2), ucast (p 3)] s;
          s = (if map p [0..<4] \<noteq> c_string ''hsqs''
               then sh_log ''rootfs partition does not start with squashfs magic'' [] s else s);
          s = fold (\<lambda>off. sh_call (Call ''prewarm'' [of_nat off])) (prewalk rootfs_size) s
      in sh_log ''rootfs prewalk: %u KB coarse + last 64 KB fine'' [rootfs_size div 1024] s)"

text \<open>The second half of \<open>app_main\<close>: the root file system, the device tree, the jump.\<close>

definition native_rootfs :: "shim_env \<Rightarrow> u32 \<Rightarrow> shim \<Rightarrow> shim_end \<times> shim" where
  "native_rootfs ev dtb_part_size s =
     (case nf_find ev ''rootfs'' of
        None \<Rightarrow> (Restart, sh_log ''rootfs partition not found'' [] s)
      | Some rootfs_size \<Rightarrow>
          let (err, rootfs_va32) = nf_mmap ev ''rootfs'' 0 rootfs_size
          in if err \<noteq> ESP_OK then (Restart, sh_log ''rootfs mmap failed: %d'' [err] s)
             else
               let s = native_prewalk ev rootfs_va32 rootfs_size s;
                   (patched, s) = native_patch_dtb dtb_part_size rootfs_va32 rootfs_size s
               in if \<not> patched then (Restart, s)
                  else
                    let s = sh_log ''Jumping to 0x%08x ...'' [KERNEL_LOAD_PA] s;
                        s = sh_call (Call ''vTaskDelay pdMS_TO_TICKS'' [20]) s;
                        s = sh_call (Call ''esp_hw_stack_guard_monitor_stop'' []) s
                    in do_boot KERNEL_LOAD_PA DTB_LOAD_PA s)"

definition native_load :: "shim_env \<Rightarrow> u32 \<Rightarrow> u32 \<Rightarrow> shim \<Rightarrow> shim_end \<times> shim" where
  "native_load ev kern_part_size dtb_part_size s =
     (let (kern_size, s) = probe_kernel_size ev ''kernel'' kern_part_size s
      in if kern_size = 0 then (Restart, sh_log ''kernel probe failed'' [] s)
         else
           let s = sh_log ''Loading %u KB kernel -> PSRAM 0x%08x'' [kern_size div 1024, KERNEL_LOAD_PA] s;
               (err, s) = load_partition_mmap ev ''kernel'' KERNEL_LOAD_PA kern_size s
           in if err \<noteq> ESP_OK then (Restart, sh_log ''kernel load failed'' [] s)
              else
                let s = sh_log ''Loading %u KB DTB -> PSRAM 0x%08x'' [dtb_part_size div 1024, DTB_LOAD_PA] s;
                    (err, s) = load_partition_mmap ev ''dtb'' DTB_LOAD_PA dtb_part_size s
                in if err \<noteq> ESP_OK then (Restart, sh_log ''DTB load failed'' [] s)
                   else native_rootfs ev dtb_part_size s)"

definition native_app_main :: "shim_env \<Rightarrow> shim \<Rightarrow> shim_end \<times> shim" where
  "native_app_main ev s =
     (let (kicked, s) = boot_shim_kick_c6 ev s
      in if \<not> kicked then (Restart, s)
         else
           let s = boot_shim_init_dsi_clocks (boot_shim_init_sdmmc s);
               s = sh_log ''=== ESP32-P4 native boot shim (flash mode) ==='' [] s
           in case nf_find ev ''kernel'' of
                None \<Rightarrow> (Restart, sh_log ''kernel partition not found'' [] s)
              | Some kern_part_size \<Rightarrow>
                  case nf_find ev ''dtb'' of
                    None \<Rightarrow> (Restart, sh_log ''dtb partition not found'' [] s)
                  | Some dtb_part_size \<Rightarrow> native_load ev kern_part_size dtb_part_size s)"

section \<open>The image is copied whole\<close>

lemma load_loop_copies:
  assumes "load_partition_loop ev part a size1 done1 s = (ESP_OK, s')" and "done1 \<le> size1"
  shows "sh_mem s' = wr_bytes (a + done1) (map (nf_byte ev part) [unat done1 ..< unat size1]) (sh_mem s) \<and>
         sh_regs s' = sh_regs s \<and> sh_pmpaddr9 s' = sh_pmpaddr9 s \<and> sh_pmpcfg2 s' = sh_pmpcfg2 s"
  using assms
proof (induction ev part a size1 done1 s rule: load_partition_loop.induct)
  case (1 ev part a size1 done1 s)
  show ?case
  proof (cases "done1 < size1")
    case False
    with "1.prems" show ?thesis by (auto simp: load_partition_loop.simps [of ev part a size1 done1 s])
  next
    case True
    let ?n = "load_chunk size1 done1"
    let ?bs = "map (nf_byte ev part) [unat done1 ..< unat done1 + unat ?n]"
    note n = load_chunk_facts [OF True] load_chunk_next [OF True]
    have lt: "unat done1 < unat size1" using True by (simp add: word_less_nat_alt)
    from "1.prems"(1) True have ok: "fst (nf_mmap ev part (done1 AND NOT (CONFIG_MMU_PAGE_SIZE - 1)) CONFIG_MMU_PAGE_SIZE) = ESP_OK"
      by (auto simp: load_partition_loop.simps [of ev part a size1 done1 s] Let_def split: if_splits)
    define s1 where "s1 = sh_call (Call ''esp_partition_munmap'' []) (s\<lparr>sh_mem := wr_bytes (a + done1) ?bs (sh_mem s)\<rparr>)"
    define s2 where "s2 = (if (done1 + ?n) AND 0xFFFFF = 0 \<or> done1 + ?n = size1
        then sh_log ''%u / %u KB'' [(done1 + ?n) div 1024, size1 div 1024] s1 else s1)"
    have s2: "sh_mem s2 = wr_bytes (a + done1) ?bs (sh_mem s)" "sh_regs s2 = sh_regs s"
      "sh_pmpaddr9 s2 = sh_pmpaddr9 s" "sh_pmpcfg2 s2 = sh_pmpcfg2 s"
      by (simp_all add: s2_def s1_def)
    have run: "load_partition_loop ev part a size1 (done1 + ?n) s2 = (ESP_OK, s')"
      using "1.prems"(1) True ok
      unfolding load_partition_loop.simps [of ev part a size1 done1 s] s2_def s1_def
      by (simp add: Let_def)
    have le: "done1 + ?n \<le> size1"
      using n lt by (simp add: word_le_nat_alt)
    have "[unat done1 ..< unat size1] = [unat done1 ..< unat done1 + unat ?n] @ [unat (done1 + ?n) ..< unat size1]"
      using n lt by (metis le_add_diff_inverse le_add1 less_imp_le_nat upt_add_eq_append add_le_cancel_left)
    moreover have "sh_mem s' = wr_bytes (a + (done1 + ?n)) (map (nf_byte ev part) [unat (done1 + ?n) ..< unat size1]) (sh_mem s2)"
      "sh_regs s' = sh_regs s2 \<and> sh_pmpaddr9 s' = sh_pmpaddr9 s2 \<and> sh_pmpcfg2 s' = sh_pmpcfg2 s2"
      using "1.IH" True ok run le unfolding s2_def s1_def by (simp_all add: Let_def)
    ultimately show ?thesis
      using s2 by (simp add: wr_bytes_append add.assoc)
  qed
qed

section \<open>What the shim leaves behind\<close>

lemma sh_fold_frame [simp]:
  "sh_mem (fold sh_call cs s) = sh_mem s" "sh_regs (fold sh_call cs s) = sh_regs s"
  "sh_pmpcfg2 (fold sh_call cs s) = sh_pmpcfg2 s"
  by (induction cs arbitrary: s) simp_all

lemma prewarm_frame [simp]:
  "sh_mem (fold (\<lambda>off. sh_call (f off)) xs s) = sh_mem s"
  "sh_pmpcfg2 (fold (\<lambda>off. sh_call (f off)) xs s) = sh_pmpcfg2 s"
  by (induction xs arbitrary: s) simp_all

lemma pins_frame [simp]:
  "sh_mem (fold sdmmc_route_pin pins s) = sh_mem s"
  "sh_regs (fold sdmmc_route_pin pins s) = sh_regs s"
  "sh_pmpcfg2 (fold sdmmc_route_pin pins s) = sh_pmpcfg2 s"
  by (induction pins arbitrary: s) (simp_all add: sdmmc_route_pin_def)

lemma reg_frame [simp]:
  "sh_mem (boot_shim_reg_setbits a m s) = sh_mem s" "sh_pmpcfg2 (boot_shim_reg_setbits a m s) = sh_pmpcfg2 s"
  "sh_mem (boot_shim_reg_clrsetbits a c m s) = sh_mem s"
  "sh_pmpcfg2 (boot_shim_reg_clrsetbits a c m s) = sh_pmpcfg2 s"
  by (simp_all add: boot_shim_reg_setbits_def boot_shim_reg_clrsetbits_def)

lemma sdmmc_frame [simp]:
  "sh_mem (boot_shim_init_sdmmc s) = sh_mem s" "sh_pmpcfg2 (boot_shim_init_sdmmc s) = sh_pmpcfg2 s"
  unfolding boot_shim_init_sdmmc_def Let_def by simp_all

lemma dsi_frame [simp]:
  "sh_mem (boot_shim_init_dsi_clocks s) = sh_mem s"
  "sh_pmpcfg2 (boot_shim_init_dsi_clocks s) = sh_pmpcfg2 s"
  "sh_regs (boot_shim_init_dsi_clocks s) = sh_regs s"
  unfolding boot_shim_init_dsi_clocks_def Let_def by simp_all

lemma kick_frame [simp]:
  "sh_mem (snd (boot_shim_kick_c6 ev s)) = sh_mem s"
  "sh_pmpcfg2 (snd (boot_shim_kick_c6 ev s)) = sh_pmpcfg2 s"
  "sh_regs (snd (boot_shim_kick_c6 ev s)) = sh_regs s"
  unfolding boot_shim_kick_c6_def Let_def by simp_all

lemma probe_frame [simp]:
  "sh_mem (snd (probe_kernel_size ev part n s)) = sh_mem s"
  "sh_pmpcfg2 (snd (probe_kernel_size ev part n s)) = sh_pmpcfg2 s"
  unfolding probe_kernel_size_def Let_def by (simp_all split: prod.splits if_splits)

section \<open>The SD controller's clocks\<close>

lemma strobe:
  "((v OR strobe) AND NOT strobe) OR 0 = v AND NOT (strobe :: u32)"
  "(v AND NOT clear OR new) AND NOT strobe =
   (v AND (NOT clear AND NOT strobe AND NOT new)) OR (new AND NOT (strobe :: u32))"
  by (rule u32_eqI, auto simp: bit_simps)+

lemma peri02_kept: "NOT peri02_clear AND NOT PERI02_LS_EDGE_CFG_UPDATE AND NOT peri02_set = 0xC00000FF"
  "peri02_set AND NOT PERI02_LS_EDGE_CFG_UPDATE = 0x38862600"
  by (simp_all add: peri02_clear_def peri02_set_def PERI02_LS_EDGE_CFG_UPDATE_def)

text \<open>
  Bringing up the SD controller changes five registers and no other, each in its own fields
  only. The LDO is forced to the rail, the bus clock runs, the module's reset has been pulsed and is
  released, the low-speed clock comes from the 160 MHz PLL through the divider, and the divider
  register holds divide-by-four with its update strobe cleared, while its two top bits, which select
  the display PHY's clock, and its low byte are as before.
\<close>

lemma boot_shim_init_sdmmc_registers:
  "sh_regs (boot_shim_init_sdmmc s) =
     (sh_regs s)
       (PMU_EXT_LDO_P1_0P2A := (sh_regs s PMU_EXT_LDO_P1_0P2A AND NOT 0xE00) OR 0x4180,
        HP_CLKRST_SOC_CLK_CTRL1 := sh_regs s HP_CLKRST_SOC_CLK_CTRL1 OR 0x4000,
        LP_CLKRST_HP_SDMMC_EMAC_RST := sh_regs s LP_CLKRST_HP_SDMMC_EMAC_RST AND NOT 0x10000000,
        HP_CLKRST_PERI_CLK_CTRL01 := (sh_regs s HP_CLKRST_PERI_CLK_CTRL01 AND NOT 0x00C00000) OR 0x01000000,
        HP_CLKRST_PERI_CLK_CTRL02 := (sh_regs s HP_CLKRST_PERI_CLK_CTRL02 AND 0xC00000FF) OR 0x38862600)"
proof -
  have masks: "PMU_LDO4_TIEH_SEL_MASK = 0xE00"
    "PMU_LDO4_XPD OR PMU_LDO4_FORCE_TIEH_SEL OR PMU_LDO4_TIEH = 0x4180"
    "SOC_CLK_CTRL1_SDMMC_SYS_CLK_EN = 0x4000" "PERI01_SDIO_LS_CLK_EN = 0x01000000"
    "PERI01_SDIO_LS_CLK_SRC_SEL OR PERI01_SDIO_HS_MODE = 0x00C00000"
    by (simp_all add: shim_regs_defs)
  have neq: "PMU_EXT_LDO_P1_0P2A \<noteq> HP_CLKRST_SOC_CLK_CTRL1" "PMU_EXT_LDO_P1_0P2A \<noteq> LP_CLKRST_HP_SDMMC_EMAC_RST"
    "PMU_EXT_LDO_P1_0P2A \<noteq> HP_CLKRST_PERI_CLK_CTRL01" "PMU_EXT_LDO_P1_0P2A \<noteq> HP_CLKRST_PERI_CLK_CTRL02"
    "HP_CLKRST_SOC_CLK_CTRL1 \<noteq> LP_CLKRST_HP_SDMMC_EMAC_RST" "HP_CLKRST_SOC_CLK_CTRL1 \<noteq> HP_CLKRST_PERI_CLK_CTRL01"
    "HP_CLKRST_SOC_CLK_CTRL1 \<noteq> HP_CLKRST_PERI_CLK_CTRL02" "LP_CLKRST_HP_SDMMC_EMAC_RST \<noteq> HP_CLKRST_PERI_CLK_CTRL01"
    "LP_CLKRST_HP_SDMMC_EMAC_RST \<noteq> HP_CLKRST_PERI_CLK_CTRL02" "HP_CLKRST_PERI_CLK_CTRL01 \<noteq> HP_CLKRST_PERI_CLK_CTRL02"
    by (simp_all add: shim_regs_defs)
  have rst: "RST_EN_SDMMC = 0x10000000" by (simp add: RST_EN_SDMMC_def)
  have set_bits: "sh_regs (boot_shim_reg_setbits a m t) = (sh_regs t)(a := sh_regs t a OR m)" for a m t
    by (simp add: boot_shim_reg_setbits_def)
  have clr_bits: "sh_regs (boot_shim_reg_clrsetbits a c m t) = (sh_regs t)(a := (sh_regs t a AND NOT c) OR m)"
    for a c m t
    by (simp add: boot_shim_reg_clrsetbits_def)
  have call: "sh_regs (sh_call c t) = sh_regs t" for c t
    by simp
  show ?thesis
    unfolding boot_shim_init_sdmmc_def Let_def
    by (simp only: set_bits clr_bits masks pins_frame call fun_upd_same fun_upd_other fun_upd_upd neq neq [symmetric]
          not_False_eq_True strobe(1) rst)
       (simp only: strobe(2) peri02_kept)
qed

section \<open>The hand-over to the kernel\<close>

text \<open>The bytes of a partition, as they lie in flash.\<close>

abbreviation flash_bytes :: "shim_env \<Rightarrow> string \<Rightarrow> u32 \<Rightarrow> u8 list" where
  "flash_bytes ev part n \<equiv> map (nf_byte ev part) [0..<unat n]"

lemma load_partition_copies:
  assumes "load_partition_mmap ev part a n s = (ESP_OK, s')"
  shows "sh_mem s' = wr_bytes a (flash_bytes ev part n) (sh_mem s)" "sh_pmpcfg2 s' = sh_pmpcfg2 s"
  using load_loop_copies [of ev part a n 0 s s'] assms
  by (simp_all add: load_partition_mmap_def)

text \<open>What patching does to the blob \<open>d\<close> at the load address.\<close>

definition dtb_patched :: "u8 list \<Rightarrow> u32 \<Rightarrow> u32 \<Rightarrow> u8 list \<Rightarrow> bool" where
  "dtb_patched d va sz d' =
     (\<exists>tot. 16 \<le> unat tot \<and> unat tot \<le> length d \<and> take 4 d = [0xd0, 0x0d, 0xfe, 0xed] \<and>
       take 4 (drop 4 d) = be32_bytes tot \<and>
       (if \<exists>i. i + 8 \<le> unat tot \<and> take 8 (drop i d) = native_needle
        then \<exists>i. i + 8 \<le> unat tot \<and> take 8 (drop i d) = native_needle \<and>
                 (\<forall>k < i. take 8 (drop k d) \<noteq> native_needle) \<and>
                 d' = take i d @ be32_bytes va @ be32_bytes sz @ drop (i + 8) d
        else d' = d))"

lemma be32_bytes_rd: "be32_bytes (be32 m a) = rd_bytes m a 4"
proof -
  have "ucast (drop_bit 24 (be32 m a)) = m a" "ucast (drop_bit 16 (be32 m a)) = m (a + 1)"
    "ucast (drop_bit 8 (be32 m a)) = m (a + 2)" "ucast (be32 m a) = m (a + 3)"
    unfolding be32_def
    by (rule bit_word_eqI, force simp: bit_simps dest: bit_imp_le_length)+
  then show ?thesis by (simp add: be32_bytes_def numeral_eq_Suc add.assoc)
qed

lemma native_patch_effect:
  assumes "native_patch_dtb n va sz s = (True, s')"
  shows "dtb_patched (rd_bytes (sh_mem s) DTB_LOAD_PA (unat n)) va sz (rd_bytes (sh_mem s') DTB_LOAD_PA (unat n)) \<and>
         sh_pmpcfg2 s' = sh_pmpcfg2 s \<and>
         (\<forall>x. x \<notin> region DTB_LOAD_PA (unat n) \<longrightarrow> sh_mem s' x = sh_mem s x)"
proof -
  let ?m = "sh_mem s" and ?d = "rd_bytes (sh_mem s) DTB_LOAD_PA (unat n)"
  let ?tot = "be32 ?m (DTB_LOAD_PA + 4)"
  have n32: "unat n < 2 ^ 32" using unsigned_less [of n] by simp
  from assms have magic: "?m DTB_LOAD_PA = 0xd0" "?m (DTB_LOAD_PA + 1) = 0x0d"
      "?m (DTB_LOAD_PA + 2) = 0xfe" "?m (DTB_LOAD_PA + 3) = 0xed"
    and tot: "16 \<le> unat ?tot" "unat ?tot \<le> unat n"
    by (auto simp: native_patch_dtb_def Let_def not_less word_le_nat_alt split: if_splits)
  define found where "found = mem_find ?m DTB_LOAD_PA native_needle (unat ?tot - 7) 0"
  from assms magic tot have s':
    "sh_mem s' = (case found of None \<Rightarrow> ?m
       | Some i \<Rightarrow> wr_bytes (DTB_LOAD_PA + of_nat i) (be32_bytes va @ be32_bytes sz) ?m)"
    "sh_pmpcfg2 s' = sh_pmpcfg2 s"
    by (auto simp: native_patch_dtb_def Let_def found_def split: if_splits option.splits)
  have piece: "take k (drop i ?d) = rd_bytes ?m (DTB_LOAD_PA + of_nat i) k" if "i + k \<le> unat n" for i k
    using that by (intro nth_equalityI) (auto simp: nth_rd_bytes add.assoc)
  have needle: "length native_needle = 8" by (simp add: native_needle_def)
  have lt: "k < unat ?tot - 7 \<longleftrightarrow> k + 8 \<le> unat ?tot" for k by linarith
  have at: "rd_bytes ?m (DTB_LOAD_PA + of_nat k) 8 = take 8 (drop k ?d)" if "k + 8 \<le> unat ?tot" for k
    using that tot by (simp add: piece)
  have header: "take 4 ?d = [0xd0, 0x0d, 0xfe, 0xed]" "take 4 (drop 4 ?d) = be32_bytes ?tot"
    using piece [of 0 4] piece [of 4 4] tot magic by (simp_all add: be32_bytes_rd numeral_eq_Suc add.assoc)
  show ?thesis
  proof (cases found)
    case None
    then have no: "take 8 (drop k ?d) \<noteq> native_needle" if "k + 8 \<le> unat ?tot" for k
      using at [OF that] that by (auto simp: found_def mem_find_None needle lt)
    from None s' have m': "sh_mem s' = ?m" by simp
    have "dtb_patched ?d va sz ?d"
      unfolding dtb_patched_def using header tot no by (intro exI [of _ ?tot]) auto
    then show ?thesis using m' s'(2) by simp
  next
    case (Some i)
    then have i: "i + 8 \<le> unat ?tot" "take 8 (drop i ?d) = native_needle"
      "\<forall>k < i. take 8 (drop k ?d) \<noteq> native_needle"
      using at by (auto simp: found_def mem_find_Some needle lt)
    from Some s' have m': "sh_mem s' = wr_bytes (DTB_LOAD_PA + of_nat i) (be32_bytes va @ be32_bytes sz) ?m"
      by simp
    have "rd_bytes (sh_mem s') DTB_LOAD_PA (unat n) = take i ?d @ be32_bytes va @ be32_bytes sz @ drop (i + 8) ?d"
      using rd_bytes_patch [of i "be32_bytes va @ be32_bytes sz" "unat n" DTB_LOAD_PA ?m] i(1) tot n32
      by (simp add: m')
    moreover have "sh_mem s' x = ?m x" if "x \<notin> region DTB_LOAD_PA (unat n)" for x
    proof -
      have "region (DTB_LOAD_PA + of_nat i) 8 \<subseteq> region DTB_LOAD_PA (unat n)"
        using i(1) tot by (intro region_shift) simp
      with that show ?thesis by (auto simp: m' intro!: wr_bytes_frame)
    qed
    ultimately show ?thesis
      unfolding dtb_patched_def using header tot i s'(2) by (auto intro!: exI [of _ ?tot] exI [of _ i])
  qed
qed

lemma native_prewalk_frame [simp]:
  "sh_mem (native_prewalk ev va n s) = sh_mem s" "sh_pmpcfg2 (native_prewalk ev va n s) = sh_pmpcfg2 s"
  by (simp_all add: native_prewalk_def Let_def)

lemma window_napot:
  "napot_match 0x127FFFFF x \<longleftrightarrow> 0x48000000 \<le> unat x \<and> unat x < 0x4C000000"
proof -
  have aligned: "take_bit 26 0x48000000 = (0 :: u32)" by simp
  have "drop_bit 2 (pmp_napot_addr 0x48000000 (2 ^ 26)) = 0x127FFFFF"
    by (simp add: pmp_napot_addr_def)
  with napot_match_range [OF _ _ aligned, of x] drop_bit_range [OF aligned, of x] show ?thesis
    by simp
qed

lemma native_rootfs_jump:
  assumes "native_rootfs ev n s = (Jump pc a0 a1, s')"
  shows "\<exists>rootfs va. nf_find ev ''rootfs'' = Some rootfs \<and> nf_mmap ev ''rootfs'' 0 rootfs = (ESP_OK, va) \<and>
    pc = KERNEL_LOAD_PA \<and> a0 = 0 \<and> a1 = DTB_LOAD_PA \<and> sh_pmpaddr9 s' = 0x127FFFFF \<and>
    sh_pmpcfg2 s' = (sh_pmpcfg2 s AND NOT 0xFF00) OR 0x1F00 \<and>
    dtb_patched (rd_bytes (sh_mem s) DTB_LOAD_PA (unat n)) va rootfs (rd_bytes (sh_mem s') DTB_LOAD_PA (unat n)) \<and>
    (\<forall>x. x \<notin> region DTB_LOAD_PA (unat n) \<longrightarrow> sh_mem s' x = sh_mem s x)"
proof -
  from assms obtain rootfs where rootfs: "nf_find ev ''rootfs'' = Some rootfs"
    by (auto simp: native_rootfs_def split: option.splits)
  obtain err va where map: "nf_mmap ev ''rootfs'' 0 rootfs = (err, va)" by fastforce
  with assms rootfs have ok: "err = ESP_OK"
    by (auto simp: native_rootfs_def split: if_splits)
  let ?s1 = "native_prewalk ev va rootfs s"
  obtain patched s2 where patch: "native_patch_dtb n va rootfs ?s1 = (patched, s2)" by fastforce
  with assms rootfs map ok have patched: "patched"
    and run: "do_boot KERNEL_LOAD_PA DTB_LOAD_PA
      (sh_call (Call ''esp_hw_stack_guard_monitor_stop'' []) (sh_call (Call ''vTaskDelay pdMS_TO_TICKS'' [20])
        (sh_log ''Jumping to 0x%08x ...'' [KERNEL_LOAD_PA] s2))) = (Jump pc a0 a1, s')"
    by (auto simp: native_rootfs_def Let_def split: if_splits)
  from native_patch_effect [OF patch [unfolded patched [THEN eqTrueI]]] have "dtb_patched (rd_bytes (sh_mem s) DTB_LOAD_PA (unat n)) va rootfs
      (rd_bytes (sh_mem s2) DTB_LOAD_PA (unat n)) \<and> sh_pmpcfg2 s2 = sh_pmpcfg2 s \<and>
      (\<forall>x. x \<notin> region DTB_LOAD_PA (unat n) \<longrightarrow> sh_mem s2 x = sh_mem s x)"
    by simp
  moreover have "pc = KERNEL_LOAD_PA \<and> a0 = 0 \<and> a1 = DTB_LOAD_PA \<and> sh_pmpaddr9 s' = 0x127FFFFF \<and>
      sh_pmpcfg2 s' = (sh_pmpcfg2 s2 AND NOT 0xFF00) OR 0x1F00 \<and> sh_mem s' = sh_mem s2"
    using run by (auto simp: do_boot_def pmp_grant_psram_umode_def Let_def)
  ultimately show ?thesis using rootfs map ok by auto
qed

text \<open>A size other than zero means the partition holds an image.\<close>

lemma probe_accepts:
  assumes "probe_kernel_size ev part n s = (kern, s')" and "kern \<noteq> 0"
  shows "header64 ev part 48 = RISCV_IMAGE_MAGIC \<and>
    kern = (let size1 = header64 ev part 16 in if size1 = 0 \<or> ucast n < size1 then n else ucast size1)"
  using assms by (auto simp: probe_kernel_size_def Let_def split: if_splits)

text \<open>What both copies have left behind when the device tree is about to be patched.\<close>

lemma length_flash_bytes_word: "length (flash_bytes ev p n) \<le> 2 ^ 32"
proof -
  have "unat n < 2 ^ LENGTH(32)" by (rule unsigned_less)
  then show ?thesis by simp
qed

lemma native_load_jump:
  assumes "native_load ev part dtb s = (Jump pc a0 a1, s')"
  obtains kern s5 where "header64 ev ''kernel'' 48 = RISCV_IMAGE_MAGIC"
    and "kern = (let size1 = header64 ev ''kernel'' 16
               in if size1 = 0 \<or> ucast part < size1 then part else ucast size1)"
    and "native_rootfs ev dtb s5 = (Jump pc a0 a1, s')"
    and "sh_mem s5 = wr_bytes DTB_LOAD_PA (flash_bytes ev ''dtb'' dtb)
           (wr_bytes KERNEL_LOAD_PA (flash_bytes ev ''kernel'' kern) (sh_mem s))"
    and "sh_pmpcfg2 s5 = sh_pmpcfg2 s"
proof -
  obtain kern s3 where probe: "probe_kernel_size ev ''kernel'' part s = (kern, s3)" by fastforce
  from assms probe have "kern \<noteq> 0"
    by (auto simp: native_load_def split: if_splits)
  let ?s3 = "sh_log ''Loading %u KB kernel -> PSRAM 0x%08x'' [kern div 1024, KERNEL_LOAD_PA] s3"
  obtain err1 s4 where load1: "load_partition_mmap ev ''kernel'' KERNEL_LOAD_PA kern ?s3 = (err1, s4)" by fastforce
  let ?s4 = "sh_log ''Loading %u KB DTB -> PSRAM 0x%08x'' [dtb div 1024, DTB_LOAD_PA] s4"
  obtain err2 s5 where load2: "load_partition_mmap ev ''dtb'' DTB_LOAD_PA dtb ?s4 = (err2, s5)" by fastforce
  from assms probe load1 load2 \<open>kern \<noteq> 0\<close> have ok: "err1 = ESP_OK" "err2 = ESP_OK"
    and rest: "native_rootfs ev dtb s5 = (Jump pc a0 a1, s')"
    by (auto simp: native_load_def Let_def split: if_splits)
  have "sh_mem ?s3 = sh_mem s" "sh_pmpcfg2 ?s3 = sh_pmpcfg2 s"
    using probe_frame [of ev "''kernel''" part s] by (simp_all add: probe)
  then show thesis
    using that [OF _ _ rest] probe_accepts [OF probe \<open>kern \<noteq> 0\<close>]
      load_partition_copies [OF load1 [unfolded ok]] load_partition_copies [OF load2 [unfolded ok]]
    by simp
qed

text \<open>
  C22. If the shim hands over at all, it does so properly. Execution continues at the kernel's load
  address with hart id 0 and the device tree's address as arguments; user mode may reach the 64 MB
  of external memory and nothing beyond, and the other three protection entries in the same register
  are as they were. The kernel partition carries the image magic; the kernel, as long as its header
  says or as the whole partition when the header's size is unusable, lies in memory byte for byte as in flash, and the device
  tree too, except that the first placeholder in it now holds address and size of the mapped root
  file system, provided the images fit their places.
\<close>

theorem native_boot_hands_over:
  assumes "native_app_main ev s = (Jump pc a0 a1, s')"
  shows "pc = KERNEL_LOAD_PA \<and> a0 = 0 \<and> a1 = DTB_LOAD_PA \<and>
    (\<forall>x. napot_match (sh_pmpaddr9 s') x \<longleftrightarrow> 0x48000000 \<le> unat x \<and> unat x < 0x4C000000) \<and>
    sh_pmpcfg2 s' = (sh_pmpcfg2 s AND NOT 0xFF00) OR 0x1F00 \<and>
    header64 ev ''kernel'' 48 = RISCV_IMAGE_MAGIC \<and>
    (\<exists>part kern dtb rootfs va.
       nf_find ev ''kernel'' = Some part \<and> nf_find ev ''dtb'' = Some dtb \<and> nf_find ev ''rootfs'' = Some rootfs \<and>
       kern = (let size1 = header64 ev ''kernel'' 16
               in if size1 = 0 \<or> ucast part < size1 then part else ucast size1) \<and>
       nf_mmap ev ''rootfs'' 0 rootfs = (ESP_OK, va) \<and>
       dtb_patched (flash_bytes ev ''dtb'' dtb) va rootfs (rd_bytes (sh_mem s') DTB_LOAD_PA (unat dtb)) \<and>
       (unat kern \<le> 0x800000 \<and> unat dtb \<le> 0x3800000 \<longrightarrow>
          rd_bytes (sh_mem s') KERNEL_LOAD_PA (unat kern) = flash_bytes ev ''kernel'' kern))"
proof -
  obtain ok s1 where kick: "boot_shim_kick_c6 ev s = (ok, s1)" by fastforce
  let ?s2 = "sh_log ''=== ESP32-P4 native boot shim (flash mode) ==='' [] (boot_shim_init_dsi_clocks (boot_shim_init_sdmmc s1))"
  from assms kick have "ok"
    by (auto simp: native_app_main_def Let_def split: if_splits)
  with assms kick obtain part dtb where parts: "nf_find ev ''kernel'' = Some part" "nf_find ev ''dtb'' = Some dtb"
    and run: "native_load ev part dtb ?s2 = (Jump pc a0 a1, s')"
    by (auto simp: native_app_main_def Let_def split: option.splits)
  have mem0: "sh_mem ?s2 = sh_mem s" "sh_pmpcfg2 ?s2 = sh_pmpcfg2 s"
    using kick_frame [of ev s] by (simp_all add: kick)
  from native_load_jump [OF run] obtain kern s5 where probe: "header64 ev ''kernel'' 48 = RISCV_IMAGE_MAGIC"
    "kern = (let size1 = header64 ev ''kernel'' 16 in if size1 = 0 \<or> ucast part < size1 then part else ucast size1)"
    and rest: "native_rootfs ev dtb s5 = (Jump pc a0 a1, s')"
    and mem5: "sh_mem s5 = wr_bytes DTB_LOAD_PA (flash_bytes ev ''dtb'' dtb)
      (wr_bytes KERNEL_LOAD_PA (flash_bytes ev ''kernel'' kern) (sh_mem s))" "sh_pmpcfg2 s5 = sh_pmpcfg2 s"
    unfolding mem0 by blast
  have dtb: "rd_bytes (sh_mem s5) DTB_LOAD_PA (unat dtb) = flash_bytes ev ''dtb'' dtb"
    using rd_bytes_inside [OF _ length_flash_bytes_word, of 0 "unat dtb"] by (simp add: mem5)
  obtain rootfs va where fin: "nf_find ev ''rootfs'' = Some rootfs"
    "nf_mmap ev ''rootfs'' 0 rootfs = (ESP_OK, va)" "pc = KERNEL_LOAD_PA \<and> a0 = 0 \<and> a1 = DTB_LOAD_PA"
    "sh_pmpaddr9 s' = 0x127FFFFF" "sh_pmpcfg2 s' = (sh_pmpcfg2 s AND NOT 0xFF00) OR 0x1F00"
    "dtb_patched (flash_bytes ev ''dtb'' dtb) va rootfs (rd_bytes (sh_mem s') DTB_LOAD_PA (unat dtb))"
    and same: "\<forall>x. x \<notin> region DTB_LOAD_PA (unat dtb) \<longrightarrow> sh_mem s' x = sh_mem s5 x"
    using native_rootfs_jump [OF rest] unfolding dtb mem5(2) by blast
  have kernel: "rd_bytes (sh_mem s') KERNEL_LOAD_PA (unat kern) = flash_bytes ev ''kernel'' kern"
    if fits: "unat kern \<le> 0x800000" "unat dtb \<le> 0x3800000"
  proof -
    have "region KERNEL_LOAD_PA (unat kern) \<inter> region DTB_LOAD_PA (unat dtb) = {}"
      by (rule region_disjoint) (use fits in \<open>simp_all add: KERNEL_LOAD_PA_def DTB_LOAD_PA_def\<close>)
    then have "rd_bytes (sh_mem s') KERNEL_LOAD_PA (unat kern) =
        rd_bytes (wr_bytes KERNEL_LOAD_PA (flash_bytes ev ''kernel'' kern) (sh_mem s)) KERNEL_LOAD_PA (unat kern)"
      using same by (intro rd_bytes_cong) (auto simp: mem5 wr_bytes_frame disjoint_iff)
    with rd_bytes_inside [OF _ length_flash_bytes_word, of 0 "unat kern"] show ?thesis by simp
  qed
  from probe parts fin kernel show ?thesis
    by (simp add: window_napot)
qed

text \<open>With every mapping granted, the copy succeeds.\<close>

lemma load_loop_ok:
  assumes "\<And>off n. fst (nf_mmap ev part off n) = ESP_OK"
  shows "fst (load_partition_loop ev part a size1 done1 s) = ESP_OK"
  using assms
proof (induction ev part a size1 done1 s rule: load_partition_loop.induct)
  case (1 ev part a size1 done1 s)
  show ?case
    by (subst load_partition_loop.simps) (use 1 in \<open>auto simp: Let_def\<close>)
qed

lemma native_patch_runs:
  assumes "rd_bytes (sh_mem s) DTB_LOAD_PA 8 = [0xd0, 0x0d, 0xfe, 0xed] @ be32_bytes tot"
    and "16 \<le> tot" and "tot \<le> n"
  shows "fst (native_patch_dtb n va sz s)"
proof -
  have "sh_mem s DTB_LOAD_PA = 0xd0" "sh_mem s (DTB_LOAD_PA + 1) = 0x0d"
    "sh_mem s (DTB_LOAD_PA + 2) = 0xfe" "sh_mem s (DTB_LOAD_PA + 3) = 0xed"
    "rd_bytes (sh_mem s) (DTB_LOAD_PA + 4) 4 = be32_bytes tot"
    using assms(1) by (simp_all add: numeral_eq_Suc add.assoc)
  then show ?thesis
    using assms(2,3) by (auto simp: native_patch_dtb_def be32_rd Let_def not_less split: option.splits)
qed

definition demo_shim_env :: shim_env where
  "demo_shim_env =
     \<lparr>nf_find = (\<lambda>_. Some 64), nf_mmap = (\<lambda>_ _ _. (ESP_OK, 0x40000000)),
      nf_byte = (\<lambda>part off.
        (if part = ''kernel'' then (replicate 48 0 @ [0x52, 0x49, 0x53, 0x43, 0x56] @ replicate 11 0)
         else [0xd0, 0x0d, 0xfe, 0xed, 0, 0, 0, 24] @ replicate 8 0 @ native_needle @ replicate 40 0) ! off),
      nf_gpio_config = ESP_OK\<rparr>"

definition demo_shim :: shim where
  "demo_shim = \<lparr>sh_mem = (\<lambda>_. 0), sh_regs = (\<lambda>_. 0), sh_pmpaddr9 = 0, sh_pmpcfg2 = 0, sh_calls = []\<rparr>"

lemma demo_headers:
  "header64 demo_shim_env ''kernel'' 48 = RISCV_IMAGE_MAGIC" "header64 demo_shim_env ''kernel'' 16 = 0"
  "map (nf_byte demo_shim_env ''dtb'') [0..<8] = [0xd0, 0x0d, 0xfe, 0xed] @ be32_bytes 24"
  by code_simp+

lemma demo_boots: "\<exists>s'. native_app_main demo_shim_env s = (Jump KERNEL_LOAD_PA 0 DTB_LOAD_PA, s')"
proof -
  have find: "nf_find demo_shim_env p = Some 64" and map: "nf_mmap demo_shim_env p off n = (ESP_OK, 0x40000000)"
    and gpio: "nf_gpio_config demo_shim_env = ESP_OK" for p off n
    by (simp_all add: demo_shim_env_def)
  obtain s1 where kick: "boot_shim_kick_c6 demo_shim_env s = (True, s1)"
    by (simp add: boot_shim_kick_c6_def gpio Let_def)
  have probe: "fst (probe_kernel_size demo_shim_env ''kernel'' 64 t) = 64" for t
    by (simp add: probe_kernel_size_def map demo_headers Let_def)
  have load: "fst (load_partition_mmap demo_shim_env p a n t) = ESP_OK" for p a n t
    unfolding load_partition_mmap_def by (rule load_loop_ok) (simp add: map)
  have patch: "fst (native_patch_dtb 64 va sz (native_prewalk demo_shim_env va sz
      (snd (load_partition_mmap demo_shim_env ''dtb'' DTB_LOAD_PA 64 t))))" for va sz t
  proof (rule native_patch_runs [of _ 24])
    let ?t = "snd (load_partition_mmap demo_shim_env ''dtb'' DTB_LOAD_PA 64 t)"
    have "load_partition_mmap demo_shim_env ''dtb'' DTB_LOAD_PA 64 t = (ESP_OK, ?t)"
      using load [of "''dtb''" DTB_LOAD_PA 64 t] by (metis prod.collapse)
    from load_partition_copies [OF this]
      rd_bytes_inside [of 0 8 "flash_bytes demo_shim_env ''dtb'' 64" DTB_LOAD_PA "sh_mem t"]
    show "rd_bytes (sh_mem (native_prewalk demo_shim_env va sz ?t)) DTB_LOAD_PA 8 =
        [0xd0, 0x0d, 0xfe, 0xed] @ be32_bytes 24"
      by (simp add: take_map take_upt demo_headers(3))
  qed simp_all
  have rootfs: "\<exists>s'. native_rootfs demo_shim_env 64 (snd (load_partition_mmap demo_shim_env ''dtb'' DTB_LOAD_PA 64 t)) =
      (Jump KERNEL_LOAD_PA 0 DTB_LOAD_PA, s')" for t
    using patch [of "0x40000000" 64 t]
    by (auto simp: native_rootfs_def find map Let_def do_boot_def split: prod.splits)
  have "\<exists>s'. native_load demo_shim_env 64 64 t = (Jump KERNEL_LOAD_PA 0 DTB_LOAD_PA, s')" for t
    using probe load rootfs by (auto simp: native_load_def Let_def split_beta simp del: split_paired_Ex)
  then show ?thesis
    by (simp add: native_app_main_def kick find Let_def)
qed

theorem native_boot_hands_over_witness:
  "\<exists>s'. native_app_main demo_shim_env demo_shim = (Jump KERNEL_LOAD_PA 0 DTB_LOAD_PA, s') \<and>
        rd_bytes (sh_mem s') KERNEL_LOAD_PA 64 = flash_bytes demo_shim_env ''kernel'' 64"
proof -
  obtain s' where s': "native_app_main demo_shim_env demo_shim = (Jump KERNEL_LOAD_PA 0 DTB_LOAD_PA, s')"
    using demo_boots by blast
  from native_boot_hands_over [OF s'] have "rd_bytes (sh_mem s') KERNEL_LOAD_PA 64 = flash_bytes demo_shim_env ''kernel'' 64"
    by (auto simp: demo_shim_env_def demo_headers [unfolded demo_shim_env_def])
  with s' show ?thesis by blast
qed

end
