(* ===== verification/Panel.thy ===== *)
theory Panel
  imports Hyp_Prelude
begin

text \<open>
  \<open>native/panel-ek79007.c\<close>: the Linux driver of the board's display panel. The kernel it runs in is
  not part of the repository, so the calls it makes are a parameter: \<open>kernel\<close> holds them as functions
  on a world of any type \<open>'w\<close>, and \<open>kernel_lawful\<close> names what their documentation promises about what
  can be seen of that world (\<open>obs\<close>): how often the supply is enabled, the reset line, what the panel
  has gone through (supply, reset, delays, commands, in this order), and whether panel and host are
  registered.
\<close>

section \<open>The kernel's side\<close>

text \<open>The \<open>_multi\<close> helpers of the DSI core: a DCS write, the sleep commands, a delay.\<close>

datatype dsi_cmd = Dcs_write "u8 list" | Exit_sleep_mode | Enter_sleep_mode | Dsi_msleep nat

text \<open>\<open>dsi_ctx.accum_err\<close> goes into and comes out of \<open>dsi_multi\<close>.\<close>

record 'w kernel =
  regulator_enable :: "'w \<Rightarrow> int \<times> 'w"
  regulator_disable :: "'w \<Rightarrow> int \<times> 'w"
  gpiod_set_value_cansleep :: "bool \<Rightarrow> 'w \<Rightarrow> 'w"
  msleep :: "nat \<Rightarrow> 'w \<Rightarrow> 'w"
  dsi_multi :: "dsi_cmd \<Rightarrow> int \<times> 'w \<Rightarrow> int \<times> 'w"
  devm_kzalloc :: "'w \<Rightarrow> bool \<times> 'w"
  devm_regulator_get :: "string \<Rightarrow> 'w \<Rightarrow> int \<times> 'w"
  devm_gpiod_get :: "string \<Rightarrow> bool \<Rightarrow> 'w \<Rightarrow> int \<times> 'w"
  dev_err_probe :: "int \<Rightarrow> string \<Rightarrow> 'w \<Rightarrow> int \<times> 'w"
  drm_panel_of_backlight :: "'w \<Rightarrow> int \<times> 'w"
  drm_panel_add :: "'w \<Rightarrow> 'w"
  drm_panel_remove :: "'w \<Rightarrow> 'w"
  mipi_dsi_attach :: "'w \<Rightarrow> int \<times> 'w"
  mipi_dsi_detach :: "'w \<Rightarrow> 'w"
  drm_mode_duplicate_ok :: "'w \<Rightarrow> bool"

definition ENOMEM :: int where "ENOMEM = 12"

section \<open>Power\<close>

definition EK79007_PAD_CONTROL :: u8 where "EK79007_PAD_CONTROL = 0xb2"
definition EK79007_DSI_2_LANE :: u8 where "EK79007_DSI_2_LANE = 0x10"

text \<open>The commands of \<open>ek79007_prepare\<close>, in the order of its calls.\<close>

definition prepare_cmds :: "dsi_cmd list" where
  "prepare_cmds =
     [Dcs_write [EK79007_PAD_CONTROL, EK79007_DSI_2_LANE],
      Dcs_write [0x80, 0x8b], Dcs_write [0x81, 0x78], Dcs_write [0x82, 0x84], Dcs_write [0x83, 0x88],
      Dcs_write [0x84, 0xa8], Dcs_write [0x85, 0xe3], Dcs_write [0x86, 0x88],
      Exit_sleep_mode, Dsi_msleep 120]"

definition ek79007_prepare :: "'w kernel \<Rightarrow> 'w \<Rightarrow> int \<times> 'w" where
  "ek79007_prepare k w =
     (case regulator_enable k w of
        (ret, w) \<Rightarrow>
          if ret \<noteq> 0 then (ret, w)
          else
            let w = gpiod_set_value_cansleep k True w;
                w = msleep k 10 w;
                w = gpiod_set_value_cansleep k False w;
                w = msleep k 20 w
            in case fold (dsi_multi k) prepare_cmds (0, w) of
                 (accum_err, w) \<Rightarrow>
                   if accum_err \<noteq> 0 then
                     let w = gpiod_set_value_cansleep k True w;
                         (_, w) = regulator_disable k w
                     in (accum_err, w)
                   else (0, w))"

definition ek79007_unprepare :: "'w kernel \<Rightarrow> 'w \<Rightarrow> int \<times> 'w" where
  "ek79007_unprepare k w =
     (let (_, w) = fold (dsi_multi k) [Enter_sleep_mode, Dsi_msleep 120] (0, w);
          w = gpiod_set_value_cansleep k True w;
          (_, w) = regulator_disable k w
      in (0, w))"

section \<open>Mode\<close>

datatype mode_flag = DRM_MODE_FLAG_PHSYNC | DRM_MODE_FLAG_PVSYNC | DRM_MODE_FLAG_NHSYNC | DRM_MODE_FLAG_NVSYNC
datatype mode_type = DRM_MODE_TYPE_DRIVER | DRM_MODE_TYPE_PREFERRED

record drm_display_mode =
  dm_clock :: nat
  dm_hdisplay :: nat
  dm_hsync_start :: nat
  dm_hsync_end :: nat
  dm_htotal :: nat
  dm_vdisplay :: nat
  dm_vsync_start :: nat
  dm_vsync_end :: nat
  dm_vtotal :: nat
  dm_flags :: "mode_flag set"
  dm_width_mm :: nat
  dm_height_mm :: nat
  dm_type :: "mode_type set"

definition ek79007_mode :: drm_display_mode where
  "ek79007_mode = \<lparr>
     dm_clock = 48000,
     dm_hdisplay = 1024, dm_hsync_start = 1024 + 120, dm_hsync_end = 1024 + 120 + 10,
     dm_htotal = 1024 + 120 + 10 + 120,
     dm_vdisplay = 600, dm_vsync_start = 600 + 10, dm_vsync_end = 600 + 10 + 1,
     dm_vtotal = 600 + 10 + 1 + 20,
     dm_flags = {DRM_MODE_FLAG_PHSYNC, DRM_MODE_FLAG_PVSYNC},
     dm_width_mm = 154, dm_height_mm = 86, dm_type = {}\<rparr>"

text \<open>
  The connector: its physical size and the modes probed for it. The name that \<open>drm_mode_set_name\<close>
  derives from the resolution is not kept.
\<close>

record connector =
  cn_width_mm :: nat
  cn_height_mm :: nat
  cn_probed :: "drm_display_mode list"

definition ek79007_get_modes :: "'w kernel \<Rightarrow> 'w \<Rightarrow> connector \<Rightarrow> int \<times> connector" where
  "ek79007_get_modes k w c =
     (if \<not> drm_mode_duplicate_ok k w then (- ENOMEM, c)
      else
        let mode = ek79007_mode\<lparr>dm_type := {DRM_MODE_TYPE_DRIVER, DRM_MODE_TYPE_PREFERRED}\<rparr>
        in (1, \<lparr>cn_width_mm = dm_width_mm mode, cn_height_mm = dm_height_mm mode,
                cn_probed = cn_probed c @ [mode]\<rparr>))"

section \<open>Probe and remove\<close>

datatype dsi_format = MIPI_DSI_FMT_RGB888 | MIPI_DSI_FMT_RGB565
datatype dsi_flag = MIPI_DSI_MODE_VIDEO | MIPI_DSI_MODE_VIDEO_BURST | MIPI_DSI_MODE_LPM
  | MIPI_DSI_CLOCK_NON_CONTINUOUS

text \<open>What the driver sets in \<open>struct mipi_dsi_device\<close> and in its own \<open>struct ek79007\<close>.\<close>

record dsi_device =
  ds_lanes :: nat
  ds_format :: dsi_format
  ds_mode_flags :: "dsi_flag set"
  ds_drvdata :: bool
  ds_prepare_prev_first :: bool

definition ek79007_probe :: "'w kernel \<Rightarrow> 'w \<times> dsi_device \<Rightarrow> int \<times> 'w \<times> dsi_device" where
  "ek79007_probe k s =
     (case s of (w, dsi) \<Rightarrow>
      case devm_kzalloc k w of (ok, w) \<Rightarrow>
      if \<not> ok then (- ENOMEM, w, dsi) else
      case devm_regulator_get k ''power'' w of (err, w) \<Rightarrow>
      if err \<noteq> 0 then
        (case dev_err_probe k err ''failed to get power regulator'' w of (err, w) \<Rightarrow> (err, w, dsi)) else
      case devm_gpiod_get k ''reset'' True w of (err, w) \<Rightarrow>
      if err \<noteq> 0 then
        (case dev_err_probe k err ''failed to get reset GPIO'' w of (err, w) \<Rightarrow> (err, w, dsi)) else
      let dsi = dsi\<lparr>ds_drvdata := True\<rparr>;
          dsi = dsi\<lparr>ds_lanes := 2, ds_format := MIPI_DSI_FMT_RGB565,
                    ds_mode_flags := {MIPI_DSI_MODE_VIDEO, MIPI_DSI_MODE_VIDEO_BURST, MIPI_DSI_MODE_LPM,
                                      MIPI_DSI_CLOCK_NON_CONTINUOUS},
                    ds_prepare_prev_first := True\<rparr>
      in
      case drm_panel_of_backlight k w of (ret, w) \<Rightarrow>
      if ret \<noteq> 0 then
        (case dev_err_probe k ret ''failed to get backlight'' w of (err, w) \<Rightarrow> (err, w, dsi)) else
      let w = drm_panel_add k w in
      case mipi_dsi_attach k w of (ret, w) \<Rightarrow>
      if ret \<noteq> 0 then
        let w = drm_panel_remove k w
        in (case dev_err_probe k ret ''failed to attach to DSI host'' w of (err, w) \<Rightarrow> (err, w, dsi))
      else (0, w, dsi))"

definition ek79007_remove :: "'w kernel \<Rightarrow> 'w \<Rightarrow> 'w" where
  "ek79007_remove k w = drm_panel_remove k (mipi_dsi_detach k w)"

section \<open>What the kernel promises\<close>

text \<open>What happens to the panel; \<open>Supply_off\<close> with the answer of \<open>regulator_disable\<close>.\<close>

datatype panel_event = Supply_on | Supply_off int | Reset_line bool | Slept nat | Sent dsi_cmd

record obs =
  ob_enabled :: nat
  ob_reset :: bool
  ob_log :: "panel_event list"
  ob_added :: bool
  ob_attached :: bool

text \<open>
  A regulator counts its enables, and a balanced disable takes one back unless it returns an error; a
  DSI helper does nothing once the accumulated error is set, and otherwise sends its command or reports why not; registration
  calls do what they say when they return 0, and nothing else when they do not.
\<close>

definition kernel_lawful :: "'w kernel \<Rightarrow> ('w \<Rightarrow> obs) \<Rightarrow> bool" where
  "kernel_lawful k v \<longleftrightarrow>
     (\<forall>w e w'. regulator_enable k w = (e, w') \<longrightarrow>
        v w' = (if e = 0 then (v w)\<lparr>ob_enabled := ob_enabled (v w) + 1, ob_log := ob_log (v w) @ [Supply_on]\<rparr>
                else v w)) \<and>
     (\<forall>w e w'. ob_enabled (v w) \<noteq> 0 \<longrightarrow> regulator_disable k w = (e, w') \<longrightarrow>
        v w' = (v w)\<lparr>ob_enabled := (if e = 0 then ob_enabled (v w) - 1 else ob_enabled (v w)),
                     ob_log := ob_log (v w) @ [Supply_off e]\<rparr>) \<and>
     (\<forall>b w. v (gpiod_set_value_cansleep k b w) = (v w)\<lparr>ob_reset := b, ob_log := ob_log (v w) @ [Reset_line b]\<rparr>) \<and>
     (\<forall>n w. v (msleep k n w) = (v w)\<lparr>ob_log := ob_log (v w) @ [Slept n]\<rparr>) \<and>
     (\<forall>c e w. e \<noteq> 0 \<longrightarrow> dsi_multi k c (e, w) = (e, w)) \<and>
     (\<forall>c w e w'. dsi_multi k c (0, w) = (e, w') \<longrightarrow>
        v w' = (if e = 0 then (v w)\<lparr>ob_log := ob_log (v w) @ [Sent c]\<rparr> else v w)) \<and>
     (\<forall>w. v (snd (devm_kzalloc k w)) = v w) \<and>
     (\<forall>n w. v (snd (devm_regulator_get k n w)) = v w) \<and>
     (\<forall>n b w e w'. devm_gpiod_get k n b w = (e, w') \<longrightarrow>
        v w' = (if e = 0 then (v w)\<lparr>ob_reset := b\<rparr> else v w)) \<and>
     (\<forall>e m w. fst (dev_err_probe k e m w) = e \<and> v (snd (dev_err_probe k e m w)) = v w) \<and>
     (\<forall>w. v (snd (drm_panel_of_backlight k w)) = v w) \<and>
     (\<forall>w. v (drm_panel_add k w) = (v w)\<lparr>ob_added := True\<rparr>) \<and>
     (\<forall>w. v (drm_panel_remove k w) = (v w)\<lparr>ob_added := False\<rparr>) \<and>
     (\<forall>w e w'. mipi_dsi_attach k w = (e, w') \<longrightarrow>
        v w' = (if e = 0 then (v w)\<lparr>ob_attached := True\<rparr> else v w)) \<and>
     (\<forall>w. v (mipi_dsi_detach k w) = (v w)\<lparr>ob_attached := False\<rparr>)"

lemma kernel_laws:
  assumes "kernel_lawful k v"
  shows "regulator_enable k w = (e, w') \<Longrightarrow>
      v w' = (if e = 0 then (v w)\<lparr>ob_enabled := ob_enabled (v w) + 1, ob_log := ob_log (v w) @ [Supply_on]\<rparr>
              else v w)"
    "regulator_disable k w = (e, w') \<Longrightarrow> ob_enabled (v w) \<noteq> 0 \<Longrightarrow>
      v w' = (v w)\<lparr>ob_enabled := (if e = 0 then ob_enabled (v w) - 1 else ob_enabled (v w)),
                   ob_log := ob_log (v w) @ [Supply_off e]\<rparr>"
    "v (gpiod_set_value_cansleep k b w) = (v w)\<lparr>ob_reset := b, ob_log := ob_log (v w) @ [Reset_line b]\<rparr>"
    "v (msleep k n w) = (v w)\<lparr>ob_log := ob_log (v w) @ [Slept n]\<rparr>"
    "e \<noteq> 0 \<Longrightarrow> dsi_multi k c (e, w) = (e, w)"
    "dsi_multi k c (0, w) = (e, w') \<Longrightarrow>
      v w' = (if e = 0 then (v w)\<lparr>ob_log := ob_log (v w) @ [Sent c]\<rparr> else v w)"
    "v (snd (devm_kzalloc k w)) = v w" "v (snd (devm_regulator_get k m w)) = v w"
    "devm_gpiod_get k m b w = (e, w') \<Longrightarrow> v w' = (if e = 0 then (v w)\<lparr>ob_reset := b\<rparr> else v w)"
    "fst (dev_err_probe k e m w) = e" "v (snd (dev_err_probe k e m w)) = v w"
    "v (snd (drm_panel_of_backlight k w)) = v w"
    "v (drm_panel_add k w) = (v w)\<lparr>ob_added := True\<rparr>" "v (drm_panel_remove k w) = (v w)\<lparr>ob_added := False\<rparr>"
    "mipi_dsi_attach k w = (e, w') \<Longrightarrow> v w' = (if e = 0 then (v w)\<lparr>ob_attached := True\<rparr> else v w)"
    "v (mipi_dsi_detach k w) = (v w)\<lparr>ob_attached := False\<rparr>"
  by (insert assms, unfold kernel_lawful_def) (elim conjE, metis)+

section \<open>Power follows the outcome\<close>

lemma dsi_stuck:
  "kernel_lawful k v \<Longrightarrow> e \<noteq> 0 \<Longrightarrow> fold (dsi_multi k) cmds (e, w) = (e, w)"
  by (induction cmds) (simp_all add: kernel_laws(5))

text \<open>A sequence is sent up to the first failure.\<close>

lemma dsi_sequence:
  assumes "kernel_lawful k v" and "fold (dsi_multi k) cmds (0, w) = (e, w')"
  shows "\<exists>n \<le> length cmds. (e = 0 \<longleftrightarrow> n = length cmds) \<and>
           v w' = (v w)\<lparr>ob_log := ob_log (v w) @ map Sent (take n cmds)\<rparr>"
  using assms(2)
proof (induction cmds arbitrary: w)
  case Nil
  then show ?case by simp
next
  case (Cons c cmds)
  obtain e1 w1 where step: "dsi_multi k c (0, w) = (e1, w1)" by fastforce
  note law = kernel_laws(6) [OF assms(1) step]
  show ?case
  proof (cases "e1 = 0")
    case True
    with Cons.prems step have "fold (dsi_multi k) cmds (0, w1) = (e, w')" by simp
    from Cons.IH [OF this] obtain n where "n \<le> length cmds" "e = 0 \<longleftrightarrow> n = length cmds"
      "v w' = (v w1)\<lparr>ob_log := ob_log (v w1) @ map Sent (take n cmds)\<rparr>" by blast
    with law True show ?thesis by (intro exI [of _ "Suc n"]) simp
  next
    case False
    with Cons.prems step dsi_stuck [OF assms(1) False] have "e = e1" "w' = w1" by simp_all
    with law False show ?thesis by (intro exI [of _ 0]) simp
  qed
qed

text \<open>
  What the panel needs to come up: supply, ten milliseconds of reset and twenty to settle, the two-lane
  setting, the seven analogue registers, out of sleep, and 120 milliseconds.
\<close>

definition panel_bring_up :: "panel_event list" where
  "panel_bring_up =
     [Supply_on, Reset_line True, Slept 10, Reset_line False, Slept 20,
      Sent (Dcs_write [0xb2, 0x10]), Sent (Dcs_write [0x80, 0x8b]), Sent (Dcs_write [0x81, 0x78]),
      Sent (Dcs_write [0x82, 0x84]), Sent (Dcs_write [0x83, 0x88]), Sent (Dcs_write [0x84, 0xa8]),
      Sent (Dcs_write [0x85, 0xe3]), Sent (Dcs_write [0x86, 0x88]), Sent Exit_sleep_mode,
      Sent (Dsi_msleep 120)]"

lemma panel_bring_up_cmds:
  "panel_bring_up = [Supply_on, Reset_line True, Slept 10, Reset_line False, Slept 20] @ map Sent prepare_cmds"
  by (simp add: panel_bring_up_def prepare_cmds_def EK79007_PAD_CONTROL_def EK79007_DSI_2_LANE_def)

text \<open>
  C39. Preparing the panel is all or nothing. On success the panel has gone through the whole of
  \<open>panel_bring_up\<close>, reset pulse and delays included, in this order and nothing else; the supply is
  enabled once more and the reset line is released. On failure either the supply could not be enabled
  and nothing happened at all; or the sequence stopped at one of its commands, and then the panel was
  put back into reset and a disable of the supply was asked for, once, in this order. The supply count
  is then what it was, unless \<open>regulator_disable\<close> returned an error, which the driver ignores.
\<close>

theorem ek79007_prepare_outcome:
  assumes "kernel_lawful k v" and "ek79007_prepare k w = (ret, w')"
  shows "if ret = 0
    then v w' = (v w)\<lparr>ob_enabled := ob_enabled (v w) + 1, ob_reset := False,
                       ob_log := ob_log (v w) @ panel_bring_up\<rparr>
    else v w' = v w \<or>
         (\<exists>n d. 5 \<le> n \<and> n < length panel_bring_up \<and>
            v w' = (v w)\<lparr>ob_enabled := (if d = 0 then ob_enabled (v w) else ob_enabled (v w) + 1),
                         ob_reset := True,
                         ob_log := ob_log (v w) @ take n panel_bring_up @ [Reset_line True, Supply_off d]\<rparr>)"
proof -
  note laws = kernel_laws [OF assms(1)]
  let ?on = "[Supply_on, Reset_line True, Slept 10, Reset_line False, Slept 20]"
  obtain r w1 where on: "regulator_enable k w = (r, w1)" by fastforce
  note v1 = laws(1) [OF on]
  show ?thesis
  proof (cases "r = 0")
    case False
    with on v1 assms(2) show ?thesis by (auto simp: ek79007_prepare_def)
  next
    case True
    define w2 where "w2 = msleep k 20 (gpiod_set_value_cansleep k False
        (msleep k 10 (gpiod_set_value_cansleep k True w1)))"
    obtain e w3 where seq: "fold (dsi_multi k) prepare_cmds (0, w2) = (e, w3)" by fastforce
    have "v w2 = (v w)\<lparr>ob_enabled := ob_enabled (v w) + 1, ob_reset := False, ob_log := ob_log (v w) @ ?on\<rparr>"
      using True v1 by (simp add: w2_def laws(3,4))
    with dsi_sequence [OF assms(1) seq] obtain n where n: "n \<le> length prepare_cmds"
      "e = 0 \<longleftrightarrow> n = length prepare_cmds"
      and sent: "v w3 = (v w)\<lparr>ob_enabled := ob_enabled (v w) + 1, ob_reset := False,
                        ob_log := ob_log (v w) @ ?on @ map Sent (take n prepare_cmds)\<rparr>" by auto
    have "?on @ map Sent (take n prepare_cmds) = take (5 + n) panel_bring_up"
      by (simp add: panel_bring_up_cmds take_map eval_nat_numeral)
    with sent have v3: "v w3 = (v w)\<lparr>ob_enabled := ob_enabled (v w) + 1, ob_reset := False,
                        ob_log := ob_log (v w) @ take (5 + n) panel_bring_up\<rparr>" by (simp only:)
    have len: "length panel_bring_up = 5 + length prepare_cmds" by (simp add: panel_bring_up_cmds)
    define w4 where "w4 = gpiod_set_value_cansleep k True w3"
    obtain d w5 where off: "regulator_disable k w4 = (d, w5)" by fastforce
    have run: "ek79007_prepare k w = (if e \<noteq> 0 then (e, w5) else (0, w3))"
      using on True seq off
      by (simp add: ek79007_prepare_def Let_def case_prod_beta w4_def flip: w2_def)
    have v4: "v w4 = (v w3)\<lparr>ob_reset := True, ob_log := ob_log (v w3) @ [Reset_line True]\<rparr>"
      by (simp add: w4_def laws(3))
    with v3 laws(2) [OF off] have v5: "v w5 =
        (v w)\<lparr>ob_enabled := (if d = 0 then ob_enabled (v w) else ob_enabled (v w) + 1), ob_reset := True,
              ob_log := ob_log (v w) @ take (5 + n) panel_bring_up @ [Reset_line True, Supply_off d]\<rparr>"
      by simp
    show ?thesis
    proof (cases "e = 0")
      case True
      with run n v3 len assms(2) show ?thesis by simp
    next
      case False
      with n len have "5 + n < length panel_bring_up" by simp
      moreover from run assms(2) False have "ret \<noteq> 0" "w' = w5" by auto
      ultimately show ?thesis
        unfolding if_not_P [OF \<open>ret \<noteq> 0\<close>] using v5 by (intro disjI2 exI [of _ "5 + n"] exI [of _ d]) simp
    qed
  qed
qed

text \<open>
  Switching off never fails and leaves the panel in reset whatever it answers; it balances a
  successful start unless the supply refuses to be disabled.
\<close>

lemma ek79007_unprepare_outcome:
  assumes "kernel_lawful k v" and "ek79007_unprepare k w = (ret, w')" and "ob_enabled (v w) \<noteq> 0"
  shows "ret = 0 \<and> ob_reset (v w') \<and>
    (\<exists>d. last (ob_log (v w')) = Supply_off d \<and>
         ob_enabled (v w') = (if d = 0 then ob_enabled (v w) - 1 else ob_enabled (v w)))"
proof -
  note laws = kernel_laws [OF assms(1)]
  obtain e w1 where seq: "fold (dsi_multi k) [Enter_sleep_mode, Dsi_msleep 120] (0, w) = (e, w1)" by fastforce
  define w2 where "w2 = gpiod_set_value_cansleep k True w1"
  obtain d w3 where off: "regulator_disable k w2 = (d, w3)" by fastforce
  have run: "ek79007_unprepare k w = (0, w3)"
    unfolding ek79007_unprepare_def Let_def case_prod_beta seq using off by (simp add: w2_def)
  from dsi_sequence [OF assms(1) seq] have "ob_enabled (v w1) = ob_enabled (v w)" by auto
  then have "ob_enabled (v w2) = ob_enabled (v w)" "ob_reset (v w2)" by (simp_all add: w2_def laws(3))
  with laws(2) [OF off] run assms(2,3) show ?thesis by auto
qed

section \<open>Registration follows the outcome\<close>

text \<open>
  A probe that succeeds has the panel held in reset, registered and attached, with the link
  set up for two lanes, low-power commands included, and removal undoes the registration; a probe
  that fails, at whichever of its steps, leaves nothing registered and the supply untouched.
\<close>

theorem ek79007_probe_outcome:
  assumes "kernel_lawful k v" and "ek79007_probe k (w, dsi) = (ret, w', dsi')"
    and "\<not> ob_added (v w)" and "\<not> ob_attached (v w)"
  shows "if ret = 0
    then v w' = (v w)\<lparr>ob_reset := True, ob_added := True, ob_attached := True\<rparr> \<and>
         ds_drvdata dsi' \<and> ds_lanes dsi' = 2 \<and> MIPI_DSI_MODE_LPM \<in> ds_mode_flags dsi' \<and>
         v (ek79007_remove k w') = (v w)\<lparr>ob_reset := True\<rparr>
    else \<not> ob_added (v w') \<and> \<not> ob_attached (v w') \<and>
         ob_enabled (v w') = ob_enabled (v w) \<and> ob_log (v w') = ob_log (v w)"
proof -
  note laws = kernel_laws [OF assms(1)]
  obtain ok w1 where a: "devm_kzalloc k w = (ok, w1)" by fastforce
  obtain e2 w2 where b: "devm_regulator_get k ''power'' w1 = (e2, w2)" by fastforce
  obtain e3 w3 where c: "devm_gpiod_get k ''reset'' True w2 = (e3, w3)" by fastforce
  obtain e4 w4 where d: "drm_panel_of_backlight k w3 = (e4, w4)" by fastforce
  obtain e5 w5 where e: "mipi_dsi_attach k (drm_panel_add k w4) = (e5, w5)" by fastforce
  have v: "v w1 = v w" "v w2 = v w" "v w4 = v w3"
    using laws(7) [of w] laws(8) [of "''power''" w1] laws(12) [of w3] a b d by simp_all
  have v3: "v w3 = (if e3 = 0 then (v w)\<lparr>ob_reset := True\<rparr> else v w)"
    using laws(9) [OF c] v(2) by simp
  have v5: "v w5 = (if e5 = 0 then (v w3)\<lparr>ob_added := True, ob_attached := True\<rparr>
                    else (v w3)\<lparr>ob_added := True\<rparr>)"
    using laws(15) [OF e] v(3) by (simp add: laws(13))
  define er where "er x m y = snd (dev_err_probe k x m y)" for x m y
  have err: "dev_err_probe k x m y = (x, er x m y)" "v (er x m y) = v y" for x m y
    using laws(10) [of x m y] laws(11) [of x m y] by (simp_all add: er_def prod_eq_iff)
  define dsi2 where "dsi2 = dsi\<lparr>ds_drvdata := True, ds_lanes := 2, ds_format := MIPI_DSI_FMT_RGB565,
      ds_mode_flags := {MIPI_DSI_MODE_VIDEO, MIPI_DSI_MODE_VIDEO_BURST, MIPI_DSI_MODE_LPM,
                        MIPI_DSI_CLOCK_NON_CONTINUOUS}, ds_prepare_prev_first := True\<rparr>"
  have run: "ek79007_probe k (w, dsi) =
     (if \<not> ok then (- ENOMEM, w1, dsi)
      else if e2 \<noteq> 0 then (e2, er e2 ''failed to get power regulator'' w2, dsi)
      else if e3 \<noteq> 0 then (e3, er e3 ''failed to get reset GPIO'' w3, dsi)
      else if e4 \<noteq> 0 then (e4, er e4 ''failed to get backlight'' w4, dsi2)
      else if e5 \<noteq> 0
        then (e5, er e5 ''failed to attach to DSI host'' (drm_panel_remove k w5), dsi2)
      else (0, w5, dsi2))"
    by (simp add: ek79007_probe_def Let_def a b c d e err dsi2_def)
  have ret: "ret = fst (ek79007_probe k (w, dsi))" "w' = fst (snd (ek79007_probe k (w, dsi)))"
    "dsi' = snd (snd (ek79007_probe k (w, dsi)))"
    using assms(2) by simp_all
  show ?thesis
    unfolding ret run using assms(3,4)
    by (simp add: err v v3 v5 laws(14,16) ek79007_remove_def dsi2_def ENOMEM_def)
qed

text \<open>The mode is well formed and refreshes at 60 Hz, to the nearest whole number.\<close>

lemma ek79007_mode_wf:
  "dm_hdisplay ek79007_mode < dm_hsync_start ek79007_mode \<and>
   dm_hsync_start ek79007_mode < dm_hsync_end ek79007_mode \<and>
   dm_hsync_end ek79007_mode < dm_htotal ek79007_mode \<and>
   dm_vdisplay ek79007_mode < dm_vsync_start ek79007_mode \<and>
   dm_vsync_start ek79007_mode < dm_vsync_end ek79007_mode \<and>
   dm_vsync_end ek79007_mode < dm_vtotal ek79007_mode \<and>
   (1000 * dm_clock ek79007_mode + dm_htotal ek79007_mode * dm_vtotal ek79007_mode div 2) div
     (dm_htotal ek79007_mode * dm_vtotal ek79007_mode) = 60"
  by (simp add: ek79007_mode_def)

lemma ek79007_get_modes_outcome:
  assumes "ek79007_get_modes k w c = (n, c')"
  shows "if n < 0 then c' = c
    else n = 1 \<and> (\<exists>m. cn_probed c' = cn_probed c @ [m] \<and> dm_hdisplay m = 1024 \<and> dm_vdisplay m = 600 \<and>
           DRM_MODE_TYPE_PREFERRED \<in> dm_type m)"
  using assms by (auto simp: ek79007_get_modes_def ENOMEM_def ek79007_mode_def Let_def split: if_splits)

section \<open>A concrete kernel\<close>

text \<open>The world is what can be seen of it; \<open>bad\<close> is the one command the host cannot transfer.\<close>

definition demo_kernel :: "dsi_cmd option \<Rightarrow> obs kernel" where
  "demo_kernel bad = \<lparr>
     regulator_enable = (\<lambda>w. (0, w\<lparr>ob_enabled := ob_enabled w + 1, ob_log := ob_log w @ [Supply_on]\<rparr>)),
     regulator_disable = (\<lambda>w. (0, w\<lparr>ob_enabled := ob_enabled w - 1, ob_log := ob_log w @ [Supply_off 0]\<rparr>)),
     gpiod_set_value_cansleep = (\<lambda>b w. w\<lparr>ob_reset := b, ob_log := ob_log w @ [Reset_line b]\<rparr>),
     msleep = (\<lambda>n w. w\<lparr>ob_log := ob_log w @ [Slept n]\<rparr>),
     dsi_multi = (\<lambda>c (e, w). if e \<noteq> 0 then (e, w) else if bad = Some c then (-5, w)
                             else (0, w\<lparr>ob_log := ob_log w @ [Sent c]\<rparr>)),
     devm_kzalloc = (\<lambda>w. (True, w)), devm_regulator_get = (\<lambda>n w. (0, w)),
     devm_gpiod_get = (\<lambda>n b w. (0, w\<lparr>ob_reset := b\<rparr>)), dev_err_probe = (\<lambda>e m w. (e, w)),
     drm_panel_of_backlight = (\<lambda>w. (0, w)),
     drm_panel_add = (\<lambda>w. w\<lparr>ob_added := True\<rparr>), drm_panel_remove = (\<lambda>w. w\<lparr>ob_added := False\<rparr>),
     mipi_dsi_attach = (\<lambda>w. if bad = Some (Dsi_msleep 0) then (-19, w) else (0, w\<lparr>ob_attached := True\<rparr>)),
     mipi_dsi_detach = (\<lambda>w. w\<lparr>ob_attached := False\<rparr>), drm_mode_duplicate_ok = (\<lambda>w. True)\<rparr>"

definition demo_obs :: obs where
  "demo_obs = \<lparr>ob_enabled = 0, ob_reset = True, ob_log = [], ob_added = False, ob_attached = False\<rparr>"

definition demo_dsi :: dsi_device where
  "demo_dsi = \<lparr>ds_lanes = 0, ds_format = MIPI_DSI_FMT_RGB888, ds_mode_flags = {}, ds_drvdata = False,
               ds_prepare_prev_first = False\<rparr>"

lemma demo_kernel_lawful: "kernel_lawful (demo_kernel bad) (\<lambda>w. w)"
  by (auto simp: kernel_lawful_def demo_kernel_def split: if_splits)

theorem ek79007_prepare_outcome_witness:
  "\<exists>w' n. ek79007_prepare (demo_kernel (Some Exit_sleep_mode)) demo_obs = (-5, w') \<and> ob_reset w' \<and>
     ob_log w' = take n panel_bring_up @ [Reset_line True, Supply_off 0] \<and> ob_enabled w' = 0"
proof -
  let ?r = "ek79007_prepare (demo_kernel (Some Exit_sleep_mode)) demo_obs"
  have "fst ?r = -5" and end_log: "ob_log (snd ?r) \<noteq> [] \<and> last (ob_log (snd ?r)) = Supply_off 0"
    by (simp_all add: ek79007_prepare_def demo_kernel_def prepare_cmds_def demo_obs_def Let_def)
  then have r: "?r = (-5, snd ?r)" by (metis prod.collapse)
  from ek79007_prepare_outcome [OF demo_kernel_lawful r] end_log r show ?thesis
    by (auto simp: demo_obs_def intro!: exI [of _ "snd ?r"])
qed

theorem ek79007_probe_outcome_witness:
  "\<exists>w' dsi'. ek79007_probe (demo_kernel (Some (Dsi_msleep 0))) (demo_obs, demo_dsi) = (-19, w', dsi') \<and>
             \<not> ob_added w'"
proof -
  obtain w' dsi' where r: "ek79007_probe (demo_kernel (Some (Dsi_msleep 0))) (demo_obs, demo_dsi) = (-19, w', dsi')"
    by (simp add: ek79007_probe_def demo_kernel_def Let_def)
  from ek79007_probe_outcome [OF demo_kernel_lawful r] r show ?thesis
    by (simp add: demo_obs_def)
qed

end
