(* ===== verification/Guest_Programs.thy ===== *)
theory Guest_Programs
  imports Hyp_Prelude
begin

text \<open>
  The two C programs of the guest's image: \<open>native/linux-native/init-shim/init.c\<close>, the first process
  of the native port, and \<open>buildroot/board-esp32p4/nctest.c\<close>, the terminal test. Their system calls and
  the curses library are parameters.
\<close>

section \<open>init.c\<close>

text \<open>\<open>execve\<close> comes back only when it fails.\<close>

datatype 'w exec = Replaced 'w | Exec_failed 'w

record 'w posix =
  sys_mount :: "string \<Rightarrow> string \<Rightarrow> string \<Rightarrow> 'w \<Rightarrow> int \<times> 'w"
  sys_open :: "string \<Rightarrow> 'w \<Rightarrow> int \<times> 'w"
  sys_dup2 :: "int \<Rightarrow> int \<Rightarrow> 'w \<Rightarrow> int \<times> 'w"
  sys_close :: "int \<Rightarrow> 'w \<Rightarrow> int \<times> 'w"
  sys_execve :: "string \<Rightarrow> string list \<Rightarrow> string list \<Rightarrow> 'w \<Rightarrow> 'w exec"

definition init_argv :: "string list" where
  "init_argv = [''/sbin/init'']"

definition init_envp :: "string list" where
  "init_envp = [''HOME=/'', ''TERM=linux'', ''PATH=/sbin:/usr/sbin:/bin:/usr/bin'']"

text \<open>How \<open>main\<close> ends: as another program, or with an exit code.\<close>

datatype 'w ending = Runs string "string list" "string list" 'w | Exits int 'w

definition init_main :: "'w posix \<Rightarrow> 'w \<Rightarrow> 'w ending" where
  "init_main p w =
     (let (_, w) = sys_mount p ''devtmpfs'' ''/dev'' ''devtmpfs'' w;
          (fd, w) = sys_open p ''/dev/console'' w;
          w = (if fd \<ge> 0 then
                 let (_, w) = sys_dup2 p fd 0 w;
                     (_, w) = sys_dup2 p fd 1 w;
                     (_, w) = sys_dup2 p fd 2 w
                 in if fd > 2 then snd (sys_close p fd w) else w
               else w)
      in case sys_execve p ''/sbin/init'' init_argv init_envp w of
           Replaced w \<Rightarrow> Runs ''/sbin/init'' init_argv init_envp w
         | Exec_failed w \<Rightarrow>
             (case sys_execve p ''/bin/sh'' [''/bin/sh''] init_envp w of
                Replaced w \<Rightarrow> Runs ''/bin/sh'' [''/bin/sh''] init_envp w
              | Exec_failed w \<Rightarrow> Exits 1 w))"

text \<open>
  What POSIX promises about the descriptor table \<open>v w\<close>: \<open>open\<close> takes an unused descriptor or changes
  nothing; \<open>dup2\<close> of an open descriptor makes the second one refer to the same file; \<open>close\<close> frees it;
  mounting does not touch it, and \<open>execve\<close> keeps it (no descriptor here is close-on-exec).
\<close>

definition posix_lawful :: "'w posix \<Rightarrow> ('w \<Rightarrow> int \<Rightarrow> string option) \<Rightarrow> bool" where
  "posix_lawful p v \<longleftrightarrow>
     (\<forall>a b c w. v (snd (sys_mount p a b c w)) = v w) \<and>
     (\<forall>a w fd w'. sys_open p a w = (fd, w') \<longrightarrow>
        (if fd \<ge> 0 then v w fd = None \<and> v w' = (v w)(fd \<mapsto> a) else v w' = v w)) \<and>
     (\<forall>fd n w. v w fd \<noteq> None \<longrightarrow> v (snd (sys_dup2 p fd n w)) = (v w)(n := v w fd)) \<and>
     (\<forall>fd w. v (snd (sys_close p fd w)) = (v w)(fd := None)) \<and>
     (\<forall>a b c w w'. sys_execve p a b c w = Replaced w' \<or> sys_execve p a b c w = Exec_failed w' \<longrightarrow> v w' = v w)"

lemma posix_laws:
  assumes "posix_lawful p v"
  shows "v (snd (sys_mount p a b c w)) = v w"
    "sys_open p a w = (fd, w') \<Longrightarrow> fd \<ge> 0 \<Longrightarrow> v w fd = None"
    "sys_open p a w = (fd, w') \<Longrightarrow> v w' = (if fd \<ge> 0 then (v w)(fd \<mapsto> a) else v w)"
    "v w fd \<noteq> None \<Longrightarrow> v (snd (sys_dup2 p fd n w)) = (v w)(n := v w fd)"
    "v (snd (sys_close p fd w)) = (v w)(fd := None)"
    "sys_execve p a xs ys w = Replaced w' \<Longrightarrow> v w' = v w"
    "sys_execve p a xs ys w = Exec_failed w' \<Longrightarrow> v w' = v w"
  by (insert assms, unfold posix_lawful_def) (elim conjE, (metis | simp))+

text \<open>
  The console is standard input, output and error of the next program, and nothing leaks. If
  \<open>/dev/console\<close> opens, whichever descriptor it gets, the program that runs next has exactly the
  descriptors it would have had, with 0, 1 and 2 referring to the console; if not, the table is as it
  was. That program is \<open>/sbin/init\<close> unless it cannot be executed, then the shell; \<open>main\<close> exits
  with 1 only when both fail.
\<close>

lemma init_hands_over_console:
  fixes w :: 'w
  assumes "posix_lawful p v"
  defines "fd \<equiv> fst (sys_open p ''/dev/console'' (snd (sys_mount p ''devtmpfs'' ''/dev'' ''devtmpfs'' w)))"
    and "tbl \<equiv> (v w)(0 \<mapsto> ''/dev/console'', 1 \<mapsto> ''/dev/console'', 2 \<mapsto> ''/dev/console'')"
  shows "case init_main p w of
      Runs path argv envp w' \<Rightarrow>
        v w' = (if fd \<ge> 0 then tbl else v w) \<and> envp = init_envp \<and> argv = [path] \<and>
        (path = ''/sbin/init'' \<or> path = ''/bin/sh'')
    | Exits code w' \<Rightarrow> code = 1 \<and> v w' = (if fd \<ge> 0 then tbl else v w)"
proof -
  note laws = posix_laws [OF assms(1)]
  define w1 where "w1 = snd (sys_mount p ''devtmpfs'' ''/dev'' ''devtmpfs'' w)"
  obtain w2 where op: "sys_open p ''/dev/console'' w1 = (fd, w2)"
    by (metis fd_def w1_def prod.collapse)
  have v1: "v w1 = v w" by (simp add: w1_def laws(1))
  define w3 where "w3 =
     (if fd \<ge> 0 then
        let w = snd (sys_dup2 p fd 2 (snd (sys_dup2 p fd 1 (snd (sys_dup2 p fd 0 w2)))))
        in if fd > 2 then snd (sys_close p fd w) else w
      else w2)"
  have run: "init_main p w =
     (case sys_execve p ''/sbin/init'' init_argv init_envp w3 of
        Replaced w \<Rightarrow> Runs ''/sbin/init'' init_argv init_envp w
      | Exec_failed w \<Rightarrow>
          (case sys_execve p ''/bin/sh'' [''/bin/sh''] init_envp w of
             Replaced w \<Rightarrow> Runs ''/bin/sh'' [''/bin/sh''] init_envp w
           | Exec_failed w \<Rightarrow> Exits 1 w))"
    by (simp add: init_main_def Let_def case_prod_beta op w3_def flip: w1_def)
  have "v w3 = (if fd \<ge> 0 then tbl else v w)"
  proof (cases "fd \<ge> 0")
    case True
    have op': "v w fd = None" "v w2 = (v w)(fd \<mapsto> ''/dev/console'')"
      using laws(2) [OF op True] laws(3) [OF op] True v1 by simp_all
    define w4 where "w4 = snd (sys_dup2 p fd 2 (snd (sys_dup2 p fd 1 (snd (sys_dup2 p fd 0 w2)))))"
    have "v w4 = tbl(fd \<mapsto> ''/dev/console'')"
      by (simp add: w4_def laws(4) op'(2) tbl_def fun_eq_iff)
    moreover have "tbl(fd := None) = tbl" if "fd > 2"
      using op'(1) that by (auto simp: tbl_def fun_eq_iff)
    moreover have "tbl(fd \<mapsto> ''/dev/console'') = tbl" if "\<not> fd > 2"
      using True that by (auto simp: tbl_def fun_eq_iff)
    ultimately show ?thesis using True by (simp add: w3_def laws(5) Let_def flip: w4_def)
  next
    case False
    with laws(3) [OF op] v1 show ?thesis by (simp add: w3_def)
  qed
  then show ?thesis
    unfolding run
    by (auto simp: init_argv_def dest!: laws(6,7) split: exec.splits)
qed

text \<open>A system whose world is its descriptor table, where only the shell can be executed.\<close>

definition demo_posix :: "(int \<Rightarrow> string option) posix" where
  "demo_posix = \<lparr>
     sys_mount = (\<lambda>a b c w. (0, w)),
     sys_open = (\<lambda>a w. if w 7 = None then (7, w(7 \<mapsto> a)) else (-24, w)),
     sys_dup2 = (\<lambda>fd n w. (n, w(n := w fd))),
     sys_close = (\<lambda>fd w. (0, w(fd := None))),
     sys_execve = (\<lambda>a b c w. if a = ''/bin/sh'' then Replaced w else Exec_failed w)\<rparr>"

lemma init_hands_over_console_witness:
  "\<exists>w'. init_main demo_posix (\<lambda>_. None) = Runs ''/bin/sh'' [''/bin/sh''] init_envp w' \<and>
        w' 0 = Some ''/dev/console'' \<and> w' 7 = None"
proof -
  have law: "posix_lawful demo_posix (\<lambda>w. w)"
    by (auto simp: posix_lawful_def demo_posix_def split: if_splits)
  obtain w' where w': "init_main demo_posix (\<lambda>_. None) = Runs ''/bin/sh'' [''/bin/sh''] init_envp w'"
    by (simp add: init_main_def demo_posix_def Let_def)
  from init_hands_over_console [OF law, of "\<lambda>_. None"] w' show ?thesis
    by (simp add: demo_posix_def)
qed

section \<open>nctest.c\<close>

text \<open>The calls into curses, with their numbers and texts; the keys that \<open>getch\<close> returns are a stream.\<close>

datatype curses = Curses string "int list" "string list"

record terminal =
  tm_termname :: string
  tm_lines :: int
  tm_cols :: int
  tm_colors :: "int option"
  tm_keyname :: "int \<Rightarrow> string"

definition nctest_start :: "terminal \<Rightarrow> curses list" where
  "nctest_start t =
     [Curses ''initscr'' [] [], Curses ''cbreak'' [] [], Curses ''noecho'' [] [], Curses ''keypad'' [1] [],
      Curses ''box'' [0, 0] [],
      Curses ''mvprintw'' [2, 4] [''ncurses on a U-mode Linux guest, ESP32-P4 M-mode monitor''],
      Curses ''mvprintw'' [4, 4] [''terminal : %s'', tm_termname t],
      Curses ''mvprintw'' [5, 4, tm_lines t, tm_cols t] [''geometry : %d rows x %d cols''],
      Curses ''mvprintw'' [6, 4, case tm_colors t of Some n \<Rightarrow> n | None \<Rightarrow> 0] [''colors   : %d''],
      Curses ''mvprintw'' [8, 4] [''press a key to echo it, q to quit''],
      Curses ''refresh'' [] []]"

definition nctest_echo :: "terminal \<Rightarrow> int \<Rightarrow> curses list" where
  "nctest_echo t ch =
     [Curses ''mvprintw'' [10, 4, ch] [''key: %-5d %-12s'', tm_keyname t ch], Curses ''clrtoeol'' [] [],
      Curses ''box'' [0, 0] [], Curses ''refresh'' [] []]"

partial_function (option) nctest_loop :: "terminal \<Rightarrow> int stream \<Rightarrow> curses list \<Rightarrow> curses list option" where
  "nctest_loop t keys out =
     (if shd keys = 0x71 then Some out else nctest_loop t (stl keys) (out @ nctest_echo t (shd keys)))"

definition nctest_main :: "terminal \<Rightarrow> int stream \<Rightarrow> (int \<times> curses list) option" where
  "nctest_main t keys =
     map_option (\<lambda>out. (0, out @ [Curses ''endwin'' [] []])) (nctest_loop t keys (nctest_start t))"

text \<open>It echoes the keys before the first \<open>q\<close>, in order, and returns exactly when there is one.\<close>

lemma nctest_loop_typed:
  assumes "0x71 \<notin> set ks"
  shows "nctest_loop t (ks @- 0x71 ## rest) out = Some (out @ concat (map (nctest_echo t) ks))"
  using assms by (induction ks arbitrary: out) (subst nctest_loop.simps, simp)+

lemma nctest_loop_waits:
  assumes "nctest_loop t keys out = Some r"
  shows "\<exists>n. keys !! n = 0x71"
  using assms
proof (rule nctest_loop.raw_induct [rotated, where P = "\<lambda>t keys out r. \<exists>n. keys !! n = 0x71"])
  fix loop t keys out r
  assume IH: "\<And>t keys out r. loop t keys out = Some r \<Longrightarrow> \<exists>n. keys !! n = 0x71"
    and r: "(if shd keys = 0x71 then Some out
             else loop t (stl keys) (out @ nctest_echo t (shd keys))) = Some r"
  show "\<exists>n. keys !! n = 0x71"
  proof (cases "shd keys = 0x71")
    case True
    then have "keys !! 0 = 0x71" by simp
    then show ?thesis ..
  next
    case False
    with r have "loop t (stl keys) (out @ nctest_echo t (shd keys)) = Some r" by simp
    from IH [OF this] obtain n where "stl keys !! n = 0x71" ..
    then have "keys !! Suc n = 0x71" by simp
    then show ?thesis ..
  qed
qed

end
