(* ===== verification/Spec2Isabelle.thy ===== *)
theory Spec2Isabelle
  imports Hyp_Core Hyp_Request Hyp_Service Hyp_Completion Hyp_Kbd Native_Boot Panel Guest_Programs
begin

text \<open>
  A verification development for the ESP32-P4 Linux hypervisor.

  \<^bold>\<open>The program.\<close> The chip has two RISC-V cores and no virtualisation hardware. Core 1 runs an
  unmodified NOMMU Linux in user mode behind one physical memory protection entry; everything it
  does that needs machine mode, and every access to a device address, traps into the monitor in
  \<open>main/\<close>. The vector in \<open>hyp_vectors.S\<close> saves the registers into a frame and calls \<open>hypervisor()\<close>,
  which polls the host's devices or dispatches the trap: CSR instructions, \<open>mret\<close> and \<open>wfi\<close> are
  emulated on a shadow CSR bank, device accesses go to the emulated CLINT, PLIC, 16550 and virtio
  block device, everything else is injected into the guest's own trap handler. Core 0 runs
  FreeRTOS: it loads the guest from flash, brings up the SD card, serves the block device's queue
  in a task of its own and watches the guest from a service loop. \<open>native/\<close> holds a second line of
  development, a boot shim that starts Linux without a monitor, and a Linux display driver.

  \<^bold>\<open>Theories and the code they model.\<close> Definitions carry the names of the C functions; a clash with
  HOL or a keyword gets a suffix.

    \<^item> \<open>Hyp_Prelude\<close>: word types, byte-addressed memory (\<open>rd32\<close>, \<open>wr_bytes\<close>, ...), bit tests, the
      collections \<open>flag_simps\<close> and \<open>frame_simps\<close>. \<open>Hyp_Memory\<close>: regions, copies, strings.
      \<open>Hyp_Fifo\<close>: the locale \<open>byte_fifo\<close> and head/tail ring arithmetic.
    \<^item> \<open>Hyp_State\<close>: each module's \<open>static\<close> data as a record, gathered in \<open>hyp\<close> (\<open>hyp.h\<close>).
    \<^item> \<open>Hyp_Decode\<close> (\<open>hyp_decode.c\<close>), \<open>Hyp_Csr\<close> (\<open>hyp_csr.c\<close>), \<open>Hyp_Intr\<close> (\<open>hyp_intr.c\<close>), \<open>Hyp_Mmio\<close>
      (\<open>hyp_mmio.c\<close>), \<open>Hyp_Trace\<close> (\<open>hyp_trace.c\<close>), \<open>Hyp_Core\<close> (\<open>hyp_core.c\<close>): the trap path of core 1.
      \<open>Hyp_Handler\<close>: the tail of \<open>hypervisor()\<close> and the contract between dispatcher and handlers.
    \<^item> \<open>Hyp_Clint\<close> (\<open>hyp_clint.c\<close>), \<open>Hyp_Plic\<close> (\<open>hyp_plic.c\<close>), \<open>Hyp_Uart\<close> (\<open>hyp_uart.c\<close>), \<open>Hyp_Virtio\<close>
      (\<open>hyp_virtio_blk.c\<close>, registers): the emulated devices. \<open>Hyp_Devices\<close>: their common contract.
    \<^item> \<open>Hyp_Sd\<close> (\<open>hyp_sd.c\<close>), \<open>Hyp_Blk\<close> (\<open>hyp_virtio_blk.c\<close>, queue and task), \<open>Hyp_Request\<close> (what a
      request means), \<open>Hyp_Drain\<close> (what draining a queue comes to), \<open>Hyp_Load\<close> and \<open>Hyp_Boot\<close> (\<open>hyp_boot.c\<close>), \<open>Hyp_Service\<close> (\<open>main.c\<close>): core 0, and
      the start of core 1. \<open>Hyp_Kbd\<close> (\<open>hyp_kbd.c\<close>): the USB keyboard.
    \<^item> \<open>Hyp_Task\<close>: the block task in small steps (a descriptor, a status byte, a used element, the used
      index), which without interleaving are \<open>blk_task_iteration\<close>. \<open>Hyp_System\<close>: both cores and the guest as one machine
      that interleaves them, and its reachable states. \<open>Hyp_Console\<close> and \<open>Hyp_Completion\<close>: a typed
      character from the wire to the guest's register, a block request from the kick to the interrupt.
    \<^item> \<open>Native_Boot\<close> (\<open>native/linux-native/main/main.c\<close>), \<open>Panel\<close> (\<open>native/panel-ek79007.c\<close>),
      \<open>Guest_Programs\<close> (\<open>init-shim/init.c\<close>, \<open>nctest.c\<close>).

  \<^bold>\<open>How C becomes HOL.\<close> \<open>uint32_t\<close> and its kin are words of their width, so wrap-around is the
  code's. Statics are fields of \<open>hyp\<close>, passed and returned; pointers into tables are indices or
  rows. Guest memory is a function from 32-bit addresses to bytes. A failing function returns what
  the C function returns (a boolean, an error code, \<open>None\<close> for a null pointer). The hardware is
  outside the program: what the code reads from it are unconstrained streams in \<open>hv_host\<close>, what it
  does to it is the list of calls it makes (\<open>out_calls\<close>), of which no effect is assumed. The other
  code outside the repository is a parameter with its documented behaviour as a named hypothesis:
  \<open>sd_driver\<close> with \<open>sd_lawful\<close> and \<open>sd_reliable\<close>, \<open>flash\<close> (partitions and their mapping), \<open>soc\<close>
  (interrupt numbers), \<open>core1_env\<close> and \<open>shim_env\<close> (what the boot code reads), the USB stack of
  \<open>Hyp_Kbd\<close>, \<open>kernel\<close> with \<open>kernel_lawful\<close>, \<open>posix\<close> with \<open>posix_lawful\<close>. Each has a concrete
  instance (\<open>ram_driver\<close>, \<open>demo_flash\<close>, ...) on which the theorems are applied.

  \<^bold>\<open>Loops.\<close> Loops with a bound are structural or have a measure (\<open>blk_transfer\<close>,
  \<open>load_partition_loop\<close>); there is no fuel. Loops that the hardware or the guest can keep from
  ending are \<open>partial_function (option)\<close>, and \<open>None\<close> is not returning: \<open>wfi_wait\<close>, \<open>blk_walk\<close>,
  \<open>blk_drain\<close>, \<open>c_strlen\<close>, \<open>wait_image\<close>, \<open>nctest_loop\<close>. For each there are theorems that it returns
  under stated conditions and, where it can hang, when it does.

  \<^bold>\<open>Interfaces.\<close> \<open>byte_fifo\<close> is provided by the console ring (\<open>rx\<close>) and the keyboard ring (\<open>kq\<close>);
  \<open>mmio_device\<close> by the four devices (\<open>clint\<close>, \<open>uart\<close>, \<open>plic\<close>, \<open>vblk\<close>); \<open>trap_route\<close> by the dispatcher
  (\<open>dispatch\<close>), and its extension \<open>trap_handler\<close> by the CSR and MMIO handlers. What is proved inside
  them (order and loss of bytes, preservation of the processor state and of the wiring invariant,
  the effect of the tail of \<open>hypervisor()\<close>) is used through these interpretations.

  \<^bold>\<open>What the lemmas show.\<close>

    \<^item> Traps: handling one never touches guest memory, keeps the invariant and injects at most once;
      emulated instructions are executed exactly once; exceptions and interrupts reach the guest as
      the architecture defines trap entry, the highest-priority enabled interrupt first; CSR
      instructions, \<open>mret\<close>, loads, stores and compressed encodings agree with reference definitions
      of the ISA; a trap returns unless it is a \<open>wfi\<close> that nothing wakes.
    \<^item> Devices: the PLIC arbitrates by priority and never hands out a source twice; no console
      interrupt is lost; the console and the keyboard are bounded FIFOs; a deadline update never
      passes through an earlier deadline; the trace ring is the list of the last sixteen traps.
    \<^item> Block device: a read or write request moves exactly the right bytes between the disk and the
      buffers of its chain, a write is read back, a laid-out queue is drained completely, each request
      once and in order, with its head and length in the used ring; errors, cyclic chains and stray
      addresses are shown to do what they do.
    \<^item> Boot: the guest starts in user mode behind a window of exactly its memory, or not at all;
      loading succeeds exactly when it should, patches hit one placeholder and stay inside their
      field; only the timer and the console interrupt core 1; the native shim hands over correctly.
    \<^item> System: whatever the interleaving of traps, guest writes, the steps of the block task and the
      service loop, the state stays well formed (as long as no request names the monitor's own
      memory), a kick is never lost, and only a queue the guest
      asked to be served can change memory outside the guest's window, there only the bytes its ring
      and descriptors name. A request comes back to a listening guest as an interrupt, and a typed
      character arrives in the register of its load. A guest that is stuck, other than in a \<open>wfi\<close>, is
      reported within sixty service rounds.

  \<^bold>\<open>Limits.\<close> A step of the machine is a whole trap, a step of the block task, or a whole round of the
  service loop. What the guest writes while core 0 transfers one descriptor is not interleaved with
  it, nor are reads of a flag between two accesses of the other core (core 0 tests a kick, tests the
  queue and clears the kick in one step); barriers have no effect. The statics of the monitor are
  fields of \<open>hyp\<close> and not bytes of \<open>hv_mem\<close>, although on the chip they have addresses too. A block
  request can name such an address, since nothing confines requests to the guest's window; a step of
  the block task that writes there would change monitor data, which \<open>machine_step\<close> does not show.
  So the theorems about runs of \<open>machine_step\<close> describe the chip as long as no such write happens.
  \<open>chip_step\<close> in \<open>Hyp_System\<close> makes this explicit: with \<open>M\<close> the addresses of the monitor's data, a step
  that changes a byte of \<open>M\<close> leaves any state whatever, and the well-formedness theorem is about the
  runs in which the block task is never about to write to \<open>M\<close> (\<open>reachable_sparing\<close>). In a trap, the completion flag of core 0 is an input that may be
  set at any time, more than core 0 does. A \<open>wfi\<close> executed by the monitor is a call that returns; that
  the core wakes with interrupts masked is an assumption the code makes too. Log lines are kept as format and
  values. \<open>demo_\<close> definitions are concrete inputs for the instances of the theorems and model no
  code.

  \<^bold>\<open>Not modelled.\<close> The assembly (\<open>hyp_vectors.S\<close>, \<open>stub.S\<close>, \<open>init.S\<close>, \<open>hello.S\<close>): the model begins
  with the frame the vector saves. Function prototypes, and the offsets within a device that the
  switch statements name, which the definitions write as the numbers. The host tools in Python, Lua
  and shell, the device trees and the configuration files, which are not part of the program on the
  chip.
\<close>

end
